(* ===== verification/Pg_Prelude.thy ===== *)
theory Pg_Prelude
  imports Main "HOL-Library.Word"
begin

unbundle bit_operations_syntax

text \<open>
  Shared vocabulary of the development. Bytes and the fixed-width integers of the protocol are
  words, a C++ \<^verbatim>\<open>std::span\<close>, \<^verbatim>\<open>std::string_view\<close> or \<^verbatim>\<open>std::vector<unsigned char>\<close> is the list
  of its bytes, and a pointer into a received message is the suffix of the message that starts
  there, so that advancing a pointer is \<^term>\<open>drop\<close> and the span between two pointers is a prefix
  of the first. The big-endian loads and stores (Boost.Endian's \<^verbatim>\<open>load_big_*\<close> and
  \<^verbatim>\<open>store_big_*\<close>) are written out on bytes, and the locale \<open>be_codec\<close> states the contract the
  parsing and serialization code relies on.
\<close>

named_theorems ctx_simps
named_theorems fsm_simps
named_theorems ser_simps

section \<open>Types\<close>

type_synonym byte = "8 word"
type_synonym bytes = "8 word list"
type_synonym int16 = "16 word"
type_synonym int32 = "32 word"
type_synonym uint64 = "64 word"
type_synonym string_view = "8 word list"

definition of_str :: "string \<Rightarrow> bytes" where
  "of_str s = map of_char s"

text \<open>The largest values of the signed types and of \<^verbatim>\<open>std::size_t\<close>.\<close>

definition int16_max :: nat where
  "int16_max = 32767"

definition int32_max :: nat where
  "int32_max = 2147483647"

definition size_max :: nat where
  "size_max = 18446744073709551615"

section \<open>Pointers and spans\<close>

definition span_between :: "bytes \<Rightarrow> bytes \<Rightarrow> bytes" where
  "span_between first_ptr last_ptr = take (length first_ptr - length last_ptr) first_ptr"

lemma span_between_append [simp]: "span_between (xs @ ys) ys = xs"
  by (simp add: span_between_def)

lemma span_between_self [simp]: "span_between xs xs = []"
  by (simp add: span_between_def)

section \<open>Overwriting part of a buffer\<close>

definition store_at :: "nat \<Rightarrow> bytes \<Rightarrow> bytes \<Rightarrow> bytes" where
  "store_at off bs buf = take off buf @ bs @ drop (off + length bs) buf"

lemma length_store_at [simp]:
  "off + length bs \<le> length buf \<Longrightarrow> length (store_at off bs buf) = length buf"
  by (simp add: store_at_def)

lemma store_at_exact:
  "length old = length bs \<Longrightarrow> store_at (length pre) bs (pre @ old @ post) = pre @ bs @ post"
  by (simp add: store_at_def)

section \<open>Big-endian integers\<close>

definition load_big_s16 :: "bytes \<Rightarrow> int16" where
  "load_big_s16 bs = push_bit 8 (ucast (bs ! 0)) OR ucast (bs ! 1)"

definition store_big_s16 :: "int16 \<Rightarrow> bytes" where
  "store_big_s16 w = [ucast (drop_bit 8 w), ucast w]"

definition load_big_s32 :: "bytes \<Rightarrow> int32" where
  "load_big_s32 bs =
     push_bit 24 (ucast (bs ! 0)) OR push_bit 16 (ucast (bs ! 1)) OR
     push_bit 8 (ucast (bs ! 2)) OR ucast (bs ! 3)"

definition store_big_s32 :: "int32 \<Rightarrow> bytes" where
  "store_big_s32 w =
     [ucast (drop_bit 24 w), ucast (drop_bit 16 w), ucast (drop_bit 8 w), ucast w]"

text \<open>
  The contract of a big-endian integer of a given size: what a store writes has that size, a load
  after a store returns the stored value, and a store after a load returns the bytes that were read.
  Hence a load reads the first bytes only.
\<close>

locale be_codec =
  fixes int_size :: nat
    and load :: "bytes \<Rightarrow> 'a::zero"
    and store :: "'a \<Rightarrow> bytes"
  assumes store_length: "length (store v) = int_size"
    and load_store: "load (store v) = v"
    and store_load: "int_size \<le> length bs \<Longrightarrow> store (load bs) = take int_size bs"
begin

lemma load_decode:
  assumes "int_size \<le> length bs"
  shows "bs = store (load bs) @ drop int_size bs"
  using store_load [OF assms] by (metis append_take_drop_id)

lemma load_prefix:
  assumes "int_size \<le> length bs"
  shows "load (bs @ cs) = load bs"
proof -
  have "store (load (bs @ cs)) = store (load bs)"
    using assms by (simp add: store_load)
  then show ?thesis by (metis load_store)
qed

lemma load_store_append: "load (store v @ cs) = v"
  using load_prefix [of "store v" cs] by (simp add: store_length load_store)

lemma store_inject: "store v = store w \<Longrightarrow> v = w"
  using load_store by metis

end

lemma load_store_s16: "load_big_s16 (store_big_s16 w) = w"
  by (rule bit_word_eqI)
    (auto simp: load_big_s16_def store_big_s16_def bit_simps)

lemma load_store_s32: "load_big_s32 (store_big_s32 w) = w"
proof (rule bit_word_eqI)
  fix n :: nat
  assume "n < LENGTH(32)"
  then consider "n < 8" | "8 \<le> n" "n < 16" | "16 \<le> n" "n < 24" | "24 \<le> n" "n < 32"
    by fastforce
  then show "bit (load_big_s32 (store_big_s32 w)) n = bit w n"
    by cases (auto simp: load_big_s32_def store_big_s32_def bit_simps)
qed

lemma length_store_big_s16 [simp]: "length (store_big_s16 w) = 2"
  by (simp add: store_big_s16_def)

lemma length_store_big_s32 [simp]: "length (store_big_s32 w) = 4"
  by (simp add: store_big_s32_def)

lemma byte_high_bits [simp]:
  fixes b :: byte
  shows "\<not> bit b (8 + n)" and "\<not> bit b (16 + n)" and "\<not> bit b (24 + n)"
  using bit_imp_le_length [of b "8 + n"] bit_imp_le_length [of b "16 + n"]
    bit_imp_le_length [of b "24 + n"] by auto

lemma store_load_s16:
  assumes "2 \<le> length bs"
  shows "store_big_s16 (load_big_s16 bs) = take 2 bs"
proof -
  obtain a b xs where bs: "bs = a # b # xs"
    using assms by (auto simp: Suc_le_length_iff numeral_eq_Suc)
  then have ld: "load_big_s16 bs = push_bit 8 (ucast a) OR ucast b"
    by (simp add: load_big_s16_def)
  have "ucast (drop_bit 8 (load_big_s16 bs)) = a" "ucast (load_big_s16 bs) = b"
    unfolding ld by (auto simp: bit_simps intro!: bit_word_eqI)
  then show ?thesis by (simp add: store_big_s16_def bs)
qed

lemma store_load_s32:
  assumes "4 \<le> length bs"
  shows "store_big_s32 (load_big_s32 bs) = take 4 bs"
proof -
  obtain a b c d xs where bs: "bs = a # b # c # d # xs"
    using assms by (auto simp: Suc_le_length_iff numeral_eq_Suc)
  then have ld: "load_big_s32 bs =
      push_bit 24 (ucast a) OR push_bit 16 (ucast b) OR push_bit 8 (ucast c) OR ucast d"
    by (simp add: load_big_s32_def)
  have "ucast (drop_bit 24 (load_big_s32 bs)) = a" "ucast (drop_bit 16 (load_big_s32 bs)) = b"
    "ucast (drop_bit 8 (load_big_s32 bs)) = c" "ucast (load_big_s32 bs) = d"
    unfolding ld by (auto simp: bit_simps intro!: bit_word_eqI)
  then show ?thesis by (simp add: store_big_s32_def bs)
qed

definition load_big_s64 :: "bytes \<Rightarrow> uint64" where
  "load_big_s64 bs = push_bit 32 (ucast (load_big_s32 (take 4 bs))) OR ucast (load_big_s32 (drop 4 bs))"

definition store_big_s64 :: "uint64 \<Rightarrow> bytes" where
  "store_big_s64 w = store_big_s32 (ucast (drop_bit 32 w)) @ store_big_s32 (ucast w)"

lemma int32_high_bits [simp]: "\<not> bit (w :: int32) (32 + n)"
  using bit_imp_le_length [of w "32 + n"] by auto

lemma load_store_s64: "load_big_s64 (store_big_s64 w) = w"
  by (rule bit_word_eqI)
    (auto simp: load_big_s64_def store_big_s64_def load_store_s32 bit_simps)

lemma length_store_big_s64 [simp]: "length (store_big_s64 w) = 8"
  by (simp add: store_big_s64_def)

lemma store_load_s64:
  assumes "8 \<le> length bs"
  shows "store_big_s64 (load_big_s64 bs) = take 8 bs"
proof -
  have "ucast (drop_bit 32 (load_big_s64 bs)) = load_big_s32 (take 4 bs)"
    "ucast (load_big_s64 bs) = load_big_s32 (drop 4 bs)"
    by (auto simp: load_big_s64_def bit_simps intro!: bit_word_eqI)
  then have "store_big_s64 (load_big_s64 bs) = take 4 (take 4 bs) @ take 4 (drop 4 bs)"
    using assms by (simp add: store_big_s64_def store_load_s32)
  then show ?thesis using take_add [of 4 4 bs] by simp
qed

interpretation s16: be_codec 2 load_big_s16 store_big_s16
  by unfold_locales (simp_all add: load_store_s16 store_load_s16)

interpretation s32: be_codec 4 load_big_s32 store_big_s32
  by unfold_locales (simp_all add: load_store_s32 store_load_s32)

interpretation s64: be_codec 8 load_big_s64 store_big_s64
  by unfold_locales (simp_all add: load_store_s64 store_load_s64)

section \<open>Words and their signed readings\<close>

lemma sint_nonneg_unat:
  fixes w :: "'a::len word"
  assumes "0 \<le> sint w"
  shows "sint w = int (unat w)"
proof -
  have "sint w < 2 ^ (LENGTH('a) - 1)" by (rule sint_lt)
  also have "\<dots> \<le> 2 ^ LENGTH('a)" by simp
  finally have "take_bit LENGTH('a) (sint w) = sint w"
    using assms by (rule take_bit_int_eq_self [rotated])
  then show ?thesis
    using uint_sint [of w] by simp
qed

end
