(* ===== verification/Pg_Error.thy ===== *)
theory Pg_Error
  imports Pg_Prelude
begin

unbundle bit_operations_syntax

text \<open>
  Error codes: the client error enumeration of \<^verbatim>\<open>client_errc.hpp\<close>, the SQLSTATE category of
  \<^verbatim>\<open>sqlstate.hpp\<close> and \<^verbatim>\<open>sqlstate.cpp\<close>, and the \<^verbatim>\<open>std::error_code\<close> that carries them. A
  \<^verbatim>\<open>std::error_code\<close> is false exactly when its value is zero, so an error code is an optional
  value: \<open>None\<close> stands for every code of value zero, whatever its category, and \<open>Some e\<close> for
  one that tests true.
\<close>

section \<open>Client errors\<close>

datatype client_errc =
    incomplete_message
  | protocol_value_error
  | extra_bytes
  | value_too_big
  | invalid_base64
  | invalid_scram_message
  | mandatory_scram_extension_not_supported
  | scram_mechanisms_unsupported
  | scram_invalid_nonce
  | scram_invalid_server_signature
  | unexpected_message
  | incompatible_response_length
  | incompatible_response_type
  | unexpected_null
  | incompatible_field_type
  | field_not_found
  | auth_kerberos_v5_unsupported
  | auth_cleartext_password_unsupported
  | auth_md5_password_unsupported
  | auth_gss_unsupported
  | auth_sspi_unsupported
  | empty_request
  | request_ends_without_sync
  | request_mixes_simple_advanced_protocols
  | step_skipped
  | unknown_openssl_error
  | unmatched_request
  | needs_more
  | copy_not_allowed

text \<open>
  The other categories that occur: generic \<^verbatim>\<open>std::errc\<close> values of \<^verbatim>\<open>std::from_chars\<close> and of
  the multiplexer, SQLSTATE values, and the errors of the transport.
\<close>

datatype error_code =
    Client client_errc
  | Invalid_argument
  | Result_out_of_range
  | Value_too_large
  | Operation_canceled
  | Sqlstate int
  | Io_error nat

text \<open>\<^verbatim>\<open>add_error\<close> of the parse, serialization and bind contexts: the first error is kept.\<close>

definition keep_first :: "error_code option \<Rightarrow> error_code option \<Rightarrow> error_code option" where
  "keep_first old e = (if old = None then e else old)"

lemma keep_first_simps [simp]:
  "keep_first None e = e"
  "keep_first (Some x) e = Some x"
  "keep_first old None = old"
  by (simp_all add: keep_first_def)

section \<open>SQLSTATE\<close>

definition parse_sqlstate_char :: "byte \<Rightarrow> int" where
  "parse_sqlstate_char c =
     (if 48 \<le> uint c \<and> uint c \<le> 57 then uint c - 48
      else if 65 \<le> uint c \<and> uint c \<le> 90 then uint c - 65 + 10
      else -1)"

definition sqlstate_as_int :: "string_view \<Rightarrow> int" where
  "sqlstate_as_int chars =
     (if length chars \<noteq> 5 then -1
      else
        (let c0 = parse_sqlstate_char (chars ! 0);
             c1 = parse_sqlstate_char (chars ! 1);
             c2 = parse_sqlstate_char (chars ! 2);
             c3 = parse_sqlstate_char (chars ! 3);
             c4 = parse_sqlstate_char (chars ! 4)
         in if c0 = -1 \<or> c1 = -1 \<or> c2 = -1 \<or> c3 = -1 \<or> c4 = -1 then -1
            else push_bit 24 c0 OR push_bit 18 c1 OR push_bit 12 c2 OR push_bit 6 c3 OR c4))"

definition parse_sqlstate :: "string_view \<Rightarrow> error_code option" where
  "parse_sqlstate from =
     (if sqlstate_as_int from = 0 then None else Some (Sqlstate (sqlstate_as_int from)))"

definition unparse_sqlstate_char :: "int \<Rightarrow> byte" where
  "unparse_sqlstate_char v =
     (if v < 0 then 0
      else if v < 10 then word_of_int (48 + v)
      else if v \<le> 35 then word_of_int (65 + v - 10)
      else 0)"

definition is_valid_sqlstate :: "int \<Rightarrow> bool" where
  "is_valid_sqlstate v \<longleftrightarrow>
     0 \<le> v \<and> v \<le> 0x3fffffff \<and>
     unparse_sqlstate_char (drop_bit 24 v) \<noteq> 0 \<and>
     unparse_sqlstate_char (drop_bit 18 v AND 0x3f) \<noteq> 0 \<and>
     unparse_sqlstate_char (drop_bit 12 v AND 0x3f) \<noteq> 0 \<and>
     unparse_sqlstate_char (drop_bit 6 v AND 0x3f) \<noteq> 0 \<and>
     unparse_sqlstate_char (v AND 0x3f) \<noteq> 0"

definition sqlstate_as_string :: "int \<Rightarrow> bytes" where
  "sqlstate_as_string v =
     [unparse_sqlstate_char (drop_bit 24 v),
      unparse_sqlstate_char (drop_bit 18 v AND 0x3f),
      unparse_sqlstate_char (drop_bit 12 v AND 0x3f),
      unparse_sqlstate_char (drop_bit 6 v AND 0x3f),
      unparse_sqlstate_char (v AND 0x3f)]"

subsection \<open>Characters\<close>

lemma parse_sqlstate_char_range:
  assumes "parse_sqlstate_char c \<noteq> -1"
  shows "0 \<le> parse_sqlstate_char c" and "parse_sqlstate_char c \<le> 35"
  using assms by (auto simp: parse_sqlstate_char_def split: if_splits)

lemma unparse_parse_char:
  assumes "parse_sqlstate_char c \<noteq> -1"
  shows "unparse_sqlstate_char (parse_sqlstate_char c) = c"
  using assms
  by (auto simp: parse_sqlstate_char_def unparse_sqlstate_char_def split: if_splits)

lemma unparse_nonzero:
  assumes "parse_sqlstate_char c \<noteq> -1"
  shows "unparse_sqlstate_char (parse_sqlstate_char c) \<noteq> 0"
  using assms unparse_parse_char [OF assms] by (auto simp: parse_sqlstate_char_def)

subsection \<open>Packing five six-bit fields\<close>

definition pack5 :: "int \<Rightarrow> int \<Rightarrow> int \<Rightarrow> int \<Rightarrow> int \<Rightarrow> int" where
  "pack5 a b c d e = push_bit 24 a OR push_bit 18 b OR push_bit 12 c OR push_bit 6 d OR e"

lemma six_bits:
  assumes "0 \<le> x" "x \<le> (35::int)"
  shows "take_bit 6 x = x" and "drop_bit 6 x = 0" and "drop_bit 12 x = 0"
    and "drop_bit 18 x = 0" and "drop_bit 24 x = 0"
  using assms by (simp_all add: take_bit_int_eq_self drop_bit_eq_div div_pos_pos_trivial)

lemma and_3f: "x AND 0x3f = take_bit 6 (x::int)"
  using take_bit_eq_mask [of 6 x] by (simp add: mask_eq_exp_minus_1)

lemma pack5_fields:
  assumes "0 \<le> a" "a \<le> 35" "0 \<le> b" "b \<le> 35" "0 \<le> c" "c \<le> 35" "0 \<le> d" "d \<le> 35" "0 \<le> e" "e \<le> 35"
  shows "drop_bit 24 (pack5 a b c d e) = a"
    and "drop_bit 18 (pack5 a b c d e) AND 0x3f = b"
    and "drop_bit 12 (pack5 a b c d e) AND 0x3f = c"
    and "drop_bit 6 (pack5 a b c d e) AND 0x3f = d"
    and "pack5 a b c d e AND 0x3f = e"
  unfolding and_3f pack5_def
  using assms
  by (simp_all add: six_bits take_bit_or drop_bit_or drop_bit_push_bit take_bit_push_bit)

lemma pack5_bounds:
  assumes "0 \<le> a" "a \<le> 35" "0 \<le> b" "b \<le> 35" "0 \<le> c" "c \<le> 35" "0 \<le> d" "d \<le> 35" "0 \<le> e" "e \<le> 35"
  shows "0 \<le> pack5 a b c d e" and "pack5 a b c d e \<le> 0x3fffffff"
proof -
  show "0 \<le> pack5 a b c d e"
    using assms by (simp add: pack5_def)
  have "drop_bit 24 (pack5 a b c d e) \<le> 35"
    using pack5_fields(1) [OF assms] assms(2) by simp
  then have "pack5 a b c d e div 16777216 \<le> 35"
    by (simp add: drop_bit_eq_div)
  then show "pack5 a b c d e \<le> 0x3fffffff"
    by linarith
qed

lemma pack5_unpack:
  "pack5 (drop_bit 24 v) (drop_bit 18 v AND 0x3f) (drop_bit 12 v AND 0x3f)
     (drop_bit 6 v AND 0x3f) (v AND 0x3f) = v"
proof (rule bit_eqI)
  fix n :: nat
  consider "n < 6" | "6 \<le> n" "n < 12" | "12 \<le> n" "n < 18" | "18 \<le> n" "n < 24" | "24 \<le> n"
    by fastforce
  then show "bit (pack5 (drop_bit 24 v) (drop_bit 18 v AND 0x3f) (drop_bit 12 v AND 0x3f)
      (drop_bit 6 v AND 0x3f) (v AND 0x3f)) n = bit v n"
    unfolding and_3f pack5_def by cases (auto simp: bit_simps)
qed

subsection \<open>Round trips\<close>

lemma sqlstate_as_int_valid:
  assumes "sqlstate_as_int s \<noteq> -1"
  obtains c0 c1 c2 c3 c4 where "s = [c0, c1, c2, c3, c4]"
    and "\<forall>c \<in> {c0, c1, c2, c3, c4}. parse_sqlstate_char c \<noteq> -1"
    and "sqlstate_as_int s = pack5 (parse_sqlstate_char c0) (parse_sqlstate_char c1)
      (parse_sqlstate_char c2) (parse_sqlstate_char c3) (parse_sqlstate_char c4)"
proof -
  from assms have len: "length s = 5"
    unfolding sqlstate_as_int_def by presburger
  then obtain c0 c1 c2 c3 c4 where s: "s = [c0, c1, c2, c3, c4]"
    by (auto simp: length_Suc_conv numeral_eq_Suc)
  with assms show ?thesis
    by (intro that [of c0 c1 c2 c3 c4])
      (auto simp: sqlstate_as_int_def pack5_def Let_def numeral_eq_Suc split: if_splits)
qed

lemma parse_unparse_char:
  assumes "unparse_sqlstate_char v \<noteq> 0"
  shows "parse_sqlstate_char (unparse_sqlstate_char v) = v"
proof -
  from assms have "0 \<le> v" "v \<le> 35"
    by (auto simp: unparse_sqlstate_char_def split: if_splits)
  moreover from this have "uint (word_of_int (48 + v) :: byte) = 48 + v"
    and "uint (word_of_int (65 + v - 10) :: byte) = 65 + v - 10"
    by (simp_all only: uint_word_of_int_eq) (simp_all add: take_bit_int_eq_self)
  ultimately show ?thesis
    unfolding unparse_sqlstate_char_def parse_sqlstate_char_def by (simp del: of_int_add of_int_diff)
qed

text \<open>
  Every five-character SQLSTATE the parser accepts is turned into an integer that the error
  category considers valid, and printing this integer returns the same five characters.
\<close>

lemma sqlstate_print_parse:
  assumes "sqlstate_as_int s \<noteq> -1"
  shows "is_valid_sqlstate (sqlstate_as_int s) \<and> sqlstate_as_string (sqlstate_as_int s) = s"
proof -
  obtain c0 c1 c2 c3 c4 where s: "s = [c0, c1, c2, c3, c4]"
    and ok: "\<forall>c \<in> {c0, c1, c2, c3, c4}. parse_sqlstate_char c \<noteq> -1"
    and v: "sqlstate_as_int s = pack5 (parse_sqlstate_char c0) (parse_sqlstate_char c1)
      (parse_sqlstate_char c2) (parse_sqlstate_char c3) (parse_sqlstate_char c4)"
    using sqlstate_as_int_valid [OF assms] .
  from ok have rng: "0 \<le> parse_sqlstate_char c" "parse_sqlstate_char c \<le> 35"
    if "c \<in> {c0, c1, c2, c3, c4}" for c
    using that parse_sqlstate_char_range [of c] by auto
  show ?thesis
    using ok unfolding s [symmetric] v is_valid_sqlstate_def sqlstate_as_string_def
    by (auto simp add: pack5_fields pack5_bounds rng unparse_parse_char s
        parse_sqlstate_char_def [of 0])
qed

text \<open>
  Conversely, every integer the error category considers a valid SQLSTATE parses back from its
  printed form.
\<close>

lemma sqlstate_parse_print:
  assumes "is_valid_sqlstate v"
  shows "sqlstate_as_int (sqlstate_as_string v) = v"
proof -
  let ?f = unparse_sqlstate_char
  from assms have nz: "?f (drop_bit 24 v) \<noteq> 0" "?f (drop_bit 18 v AND 0x3f) \<noteq> 0"
    "?f (drop_bit 12 v AND 0x3f) \<noteq> 0" "?f (drop_bit 6 v AND 0x3f) \<noteq> 0" "?f (v AND 0x3f) \<noteq> 0"
    by (simp_all add: is_valid_sqlstate_def)
  have pos: "x \<noteq> -1" if "?f x \<noteq> 0" for x
    using that by (auto simp: unparse_sqlstate_char_def)
  show ?thesis
    using nz [THEN pos] pack5_unpack [of v]
    by (simp add: sqlstate_as_int_def sqlstate_as_string_def Let_def pack5_def
        parse_unparse_char [OF nz(1)] parse_unparse_char [OF nz(2)] parse_unparse_char [OF nz(3)]
        parse_unparse_char [OF nz(4)] parse_unparse_char [OF nz(5)])
qed

text \<open>
  C35. The integers the error category considers valid and the five-character codes the parser accepts
  correspond one to one: parsing and printing are inverse to each other.
\<close>

theorem sqlstate_roundtrip:
  "sqlstate_as_int s = v \<and> v \<noteq> -1 \<longleftrightarrow> is_valid_sqlstate v \<and> sqlstate_as_string v = s"
proof -
  have "v \<noteq> -1" if "is_valid_sqlstate v" using that by (auto simp: is_valid_sqlstate_def)
  then show ?thesis using sqlstate_print_parse [of s] sqlstate_parse_print [of v] by auto
qed

end
