(* ===== verification/Pg_Parse_Context.thy ===== *)
theory Pg_Parse_Context
  imports Pg_Error
begin

text \<open>
  The bounds-checked reader of \<^verbatim>\<open>src/parse_context.hpp\<close> that every backend message parser uses.
  The pair of pointers \<^verbatim>\<open>first_\<close>, \<^verbatim>\<open>last_\<close> is the list of the bytes between them; the error is
  sticky. The lemmas give, for every operation, what it does on a healthy context whose remaining
  bytes start with a well-formed item, that an error is never cleared, and that the remaining bytes
  are always a suffix of what was there before.
\<close>

section \<open>State and operations\<close>

record parse_context =
  pc_rest :: bytes
  pc_ec :: "error_code option"

definition parse_context_init :: "bytes \<Rightarrow> parse_context" where
  "parse_context_init bs = \<lparr>pc_rest = bs, pc_ec = None\<rparr>"

definition pc_size :: "parse_context \<Rightarrow> nat" where
  "pc_size c = length (pc_rest c)"

definition pc_add_error :: "error_code option \<Rightarrow> parse_context \<Rightarrow> parse_context" where
  "pc_add_error e c = (if pc_ec c = None then c\<lparr>pc_ec := e\<rparr> else c)"

definition pc_advance :: "nat \<Rightarrow> parse_context \<Rightarrow> parse_context" where
  "pc_advance n c = c\<lparr>pc_rest := drop n (pc_rest c)\<rparr>"

definition get_byte :: "parse_context \<Rightarrow> byte \<times> parse_context" where
  "get_byte c =
     (let c1 = (if pc_size c < 1 then pc_add_error (Some (Client incomplete_message)) c else c)
      in if pc_ec c1 \<noteq> None then (0, c1) else (pc_rest c1 ! 0, pc_advance 1 c1))"

text \<open>\<^verbatim>\<open>get_integral<IntType>\<close>: the size of the type and its big-endian load are arguments.\<close>

definition get_integral :: "nat \<Rightarrow> (bytes \<Rightarrow> 'a::zero) \<Rightarrow> parse_context \<Rightarrow> 'a \<times> parse_context" where
  "get_integral n load c =
     (let c1 = (if pc_size c < n then pc_add_error (Some (Client incomplete_message)) c else c)
      in if pc_ec c1 \<noteq> None then (0, c1) else (load (pc_rest c1), pc_advance n c1))"

definition get_nonnegative_integral ::
    "nat \<Rightarrow> (bytes \<Rightarrow> 'a::len word) \<Rightarrow> parse_context \<Rightarrow> 'a word \<times> parse_context" where
  "get_nonnegative_integral n load c =
     (case get_integral n load c of (res, c1) \<Rightarrow>
        if sint res < 0 then (0, pc_add_error (Some (Client protocol_value_error)) c1)
        else (res, c1))"

abbreviation get_int16 :: "parse_context \<Rightarrow> int16 \<times> parse_context" where
  "get_int16 \<equiv> get_integral 2 load_big_s16"

abbreviation get_int32 :: "parse_context \<Rightarrow> int32 \<times> parse_context" where
  "get_int32 \<equiv> get_integral 4 load_big_s32"

abbreviation get_nonneg_int16 :: "parse_context \<Rightarrow> int16 \<times> parse_context" where
  "get_nonneg_int16 \<equiv> get_nonnegative_integral 2 load_big_s16"

abbreviation get_nonneg_int32 :: "parse_context \<Rightarrow> int32 \<times> parse_context" where
  "get_nonneg_int32 \<equiv> get_nonnegative_integral 4 load_big_s32"

definition get_string :: "parse_context \<Rightarrow> string_view \<times> parse_context" where
  "get_string c =
     (if pc_ec c \<noteq> None then ([], c)
      else
        (let res = takeWhile (\<lambda>b. b \<noteq> 0) (pc_rest c)
         in if length res = length (pc_rest c)
            then ([], pc_add_error (Some (Client incomplete_message)) c)
            else (res, pc_advance (length res + 1) c)))"

definition check_size_and_advance :: "nat \<Rightarrow> parse_context \<Rightarrow> parse_context" where
  "check_size_and_advance n c =
     (if n > pc_size c then pc_add_error (Some (Client incomplete_message)) c else pc_advance n c)"

definition get_bytes :: "nat \<Rightarrow> parse_context \<Rightarrow> bytes \<times> parse_context" where
  "get_bytes n c =
     (let c1 = (if n > pc_size c then pc_add_error (Some (Client incomplete_message)) c else c)
      in if pc_ec c1 \<noteq> None then ([], c1) else (take n (pc_rest c1), pc_advance n c1))"

definition get_byte_array :: "nat \<Rightarrow> parse_context \<Rightarrow> bytes \<times> parse_context" where
  "get_byte_array n c =
     (let c1 = (if n > pc_size c then pc_add_error (Some (Client incomplete_message)) c else c)
      in if pc_ec c1 \<noteq> None then (replicate n 0, c1)
         else (take n (pc_rest c1), pc_advance n c1))"

definition check_extra_bytes :: "parse_context \<Rightarrow> parse_context" where
  "check_extra_bytes c =
     (if pc_rest c \<noteq> [] then pc_add_error (Some (Client extra_bytes)) c else c)"

definition pc_check :: "parse_context \<Rightarrow> error_code option" where
  "pc_check c = pc_ec (check_extra_bytes c)"

text \<open>
  The unchecked readers used by the views. \<^verbatim>\<open>std::strlen\<close> and the raw loads have no bound; reading
  past the viewed bytes is undefined behaviour, which is the result \<open>None\<close>.
\<close>

definition unchecked_get_integral :: "nat \<Rightarrow> (bytes \<Rightarrow> 'a) \<Rightarrow> bytes \<Rightarrow> ('a \<times> bytes) option" where
  "unchecked_get_integral n load it =
     (if length it < n then None else Some (load it, drop n it))"

definition unchecked_get_string :: "bytes \<Rightarrow> (string_view \<times> bytes) option" where
  "unchecked_get_string it =
     (let s = takeWhile (\<lambda>b. b \<noteq> 0) it
      in if length s = length it then None else Some (s, drop (length s + 1) it))"

lemmas pc_defs = get_byte_def get_integral_def get_nonnegative_integral_def get_string_def
  check_size_and_advance_def get_bytes_def get_byte_array_def check_extra_bytes_def
  pc_add_error_def pc_advance_def pc_size_def

section \<open>Healthy contexts\<close>

abbreviation ctx :: "bytes \<Rightarrow> parse_context" where
  "ctx bs \<equiv> \<lparr>pc_rest = bs, pc_ec = None\<rparr>"

abbreviation failed :: "bytes \<Rightarrow> error_code \<Rightarrow> parse_context" where
  "failed bs e \<equiv> \<lparr>pc_rest = bs, pc_ec = Some e\<rparr>"

lemma parse_context_init_ctx [ctx_simps]: "parse_context_init bs = ctx bs"
  by (simp add: parse_context_init_def)

lemma get_byte_ctx [ctx_simps]:
  "get_byte (ctx []) = (0, failed [] (Client incomplete_message))"
  "get_byte (ctx (b # bs)) = (b, ctx bs)"
  by (simp_all add: pc_defs Let_def)

lemma get_integral_ctx:
  "get_integral n load (ctx bs) =
     (if length bs < n then (0, failed bs (Client incomplete_message))
      else (load bs, ctx (drop n bs)))"
  by (simp add: pc_defs Let_def)

lemma get_int16_store [ctx_simps]: "get_int16 (ctx (store_big_s16 v @ bs)) = (v, ctx bs)"
  by (simp add: get_integral_ctx s16.load_store_append)

lemma get_int32_store [ctx_simps]: "get_int32 (ctx (store_big_s32 v @ bs)) = (v, ctx bs)"
  by (simp add: get_integral_ctx s32.load_store_append)

lemma get_nonneg_int16_store [ctx_simps]:
  "0 \<le> sint v \<Longrightarrow> get_nonneg_int16 (ctx (store_big_s16 v @ bs)) = (v, ctx bs)"
  by (simp add: get_nonnegative_integral_def get_int16_store)

lemma get_nonneg_int32_store [ctx_simps]:
  "0 \<le> sint v \<Longrightarrow> get_nonneg_int32 (ctx (store_big_s32 v @ bs)) = (v, ctx bs)"
  by (simp add: get_nonnegative_integral_def get_int32_store)

lemma takeWhile_cstr:
  assumes "0 \<notin> set s"
  shows "takeWhile (\<lambda>b. b \<noteq> (0::byte)) (s @ 0 # bs) = s"
proof -
  have "\<forall>b \<in> set s. b \<noteq> 0" using assms by auto
  then show ?thesis by (simp add: takeWhile_append2)
qed

lemma get_string_store [ctx_simps]:
  "0 \<notin> set s \<Longrightarrow> get_string (ctx (s @ 0 # bs)) = (s, ctx bs)"
  by (simp add: pc_defs Let_def takeWhile_cstr)

lemma takeWhile_full:
  "length (takeWhile P xs) = length xs \<longleftrightarrow> (\<forall>x \<in> set xs. P x)"
  by (metis takeWhile_eq_all_conv takeWhile_eq_take take_all_iff length_takeWhile_le
      le_antisym order_refl takeWhile_eq_filter filter_True)

lemma split_cstr:
  assumes "(0::byte) \<in> set bs"
  obtains s t where "bs = s @ 0 # t" and "0 \<notin> set s"
  using split_list_first [OF assms] by blast

lemma get_string_ctx:
  "get_string (ctx bs) =
     (if 0 \<in> set bs
      then (takeWhile (\<lambda>b. b \<noteq> 0) bs, ctx (drop (length (takeWhile (\<lambda>b. b \<noteq> 0) bs) + 1) bs))
      else ([], failed bs (Client incomplete_message)))"
  by (auto simp: pc_defs Let_def takeWhile_full)

lemma check_size_and_advance_ctx [ctx_simps]:
  "check_size_and_advance n (ctx bs) =
     (if n > length bs then failed bs (Client incomplete_message) else ctx (drop n bs))"
  by (simp add: pc_defs)

lemma pc_check_ctx [ctx_simps]:
  "pc_check (ctx bs) = (if bs = [] then None else Some (Client extra_bytes))"
  by (simp add: pc_check_def pc_defs)

section \<open>Failed contexts stay failed\<close>

lemma failed_ops [ctx_simps]:
  "get_byte (failed bs e) = (0, failed bs e)"
  "get_integral n load (failed bs e) = (0, failed bs e)"
  "get_string (failed bs e) = ([], failed bs e)"
  "get_bytes n (failed bs e) = ([], failed bs e)"
  "get_byte_array n (failed bs e) = (replicate n 0, failed bs e)"
  "pc_add_error x (failed bs e) = failed bs e"
  "pc_check (failed bs e) = Some e"
  by (simp_all add: pc_check_def pc_defs Let_def)

lemma get_nonnegative_failed [ctx_simps]:
  "get_nonnegative_integral n load (failed bs e) = (0, failed bs e)"
  by (simp add: get_nonnegative_integral_def failed_ops)

lemma check_size_and_advance_failed [ctx_simps]:
  "check_size_and_advance n (failed bs e) = (if n > length bs then failed bs e else failed (drop n bs) e)"
  by (simp add: pc_defs)

lemma pc_add_error_ctx [ctx_simps]: "pc_add_error (Some e) (ctx bs) = failed bs e"
  by (simp add: pc_defs)

lemma pc_cases:
  fixes c :: parse_context
  obtains (healthy) bs where "c = ctx bs" | (broken) bs e where "c = failed bs e"
  by (cases c; cases "pc_ec c") auto

lemma parse_context_sticky:
  assumes "pc_ec c = Some e"
  shows "pc_ec (snd (get_byte c)) = Some e" and "pc_ec (snd (get_integral k load c)) = Some e"
    and "pc_ec (snd (get_nonnegative_integral k load' c)) = Some e"
    and "pc_ec (snd (get_string c)) = Some e" and "pc_ec (check_size_and_advance n c) = Some e"
    and "pc_ec (snd (get_bytes n c)) = Some e" and "pc_ec (snd (get_byte_array n c)) = Some e"
    and "pc_ec (pc_add_error x c) = Some e" and "pc_check c = Some e"
  using assms by (cases c rule: pc_cases; simp add: ctx_simps)+

section \<open>The remaining bytes only shrink\<close>

lemma get_string_suffix:
  assumes "get_string c = (s, c')"
  obtains pre where "pc_rest c = pre @ pc_rest c'"
proof -
  have "\<exists>n. pc_rest c' = drop n (pc_rest c)"
    using assms by (cases c rule: pc_cases)
      (auto simp: ctx_simps get_string_ctx split: if_splits intro: exI [of _ 0])
  then show ?thesis using that by (metis append_take_drop_id)
qed

end
