(* ===== verification/Pg_Views.thy ===== *)
theory Pg_Views
  imports Pg_Parse_Context
begin

text \<open>
  The lazily deserializing views of \<^verbatim>\<open>protocol/views.hpp\<close> and the traits that
  \<^verbatim>\<open>messages.cpp\<close> specializes for them. A view performs no validation of its own: its iterators
  read raw memory, and only the parser that built the view makes that safe. Reads outside the viewed
  bytes are undefined behaviour, the value \<open>None\<close> here. The locale \<open>forward_traits\<close> states what
  a pair of dereference and advance functions promises for a wire encoding of its items, and
  \<open>item_parser\<close> adds the validation step of the parser that creates the view; inside it the loop
  over all items is shown to accept exactly the encodings of item lists, so that the view built from
  a successful parse always iterates to its end.
\<close>

section \<open>Views\<close>

record forward_parsing_view =
  fpv_size :: nat
  fpv_data :: bytes

definition empty_forward_view :: forward_parsing_view where
  "empty_forward_view = \<lparr>fpv_size = 0, fpv_data = []\<rparr>"

text \<open>
  A range-based loop from \<^verbatim>\<open>begin()\<close> to \<^verbatim>\<open>end()\<close>: dereference, advance, compare with the end.
\<close>

partial_function (option) fpv_items ::
    "(bytes \<Rightarrow> 'a option) \<Rightarrow> (bytes \<Rightarrow> bytes option) \<Rightarrow> bytes \<Rightarrow> 'a list option" where
  "fpv_items dereference advance it =
     (if it = [] then Some []
      else Option.bind (dereference it) (\<lambda>x.
           Option.bind (advance it) (\<lambda>it'.
           Option.bind (fpv_items dereference advance it') (\<lambda>xs. Some (x # xs)))))"

lemma fpv_items_Nil [simp]: "fpv_items d a [] = Some []"
  by (subst fpv_items.simps) simp

lemma fpv_items_step:
  assumes "it \<noteq> []" and "d it = Some x" and "a it = Some it'"
  shows "fpv_items d a it = map_option ((#) x) (fpv_items d a it')"
  using assms by (subst fpv_items.simps) (simp add: map_option_case split: option.split)

text \<open>The random access view: a pointer to the first item and the number of items.\<close>

record random_access_parsing_view =
  rpv_data :: bytes
  rpv_size :: nat

definition empty_random_access_view :: random_access_parsing_view where
  "empty_random_access_view = \<lparr>rpv_data = [], rpv_size = 0\<rparr>"

text \<open>\<^verbatim>\<open>operator[]\<close> without its assertion: item size and item load are those of the traits.\<close>

definition rpv_unchecked_access ::
    "nat \<Rightarrow> (bytes \<Rightarrow> 'a) \<Rightarrow> random_access_parsing_view \<Rightarrow> nat \<Rightarrow> 'a option" where
  "rpv_unchecked_access item_size load v i =
     (if length (rpv_data v) < item_size * i + item_size then None
      else Some (load (drop (item_size * i) (rpv_data v))))"

text \<open>\<^verbatim>\<open>at()\<close>: the outer \<open>Inl\<close> is the \<^verbatim>\<open>std::out_of_range\<close> exception.\<close>

definition at_range_check :: "nat \<Rightarrow> nat \<Rightarrow> unit + unit" where
  "at_range_check i collection_size = (if i \<ge> collection_size then Inl () else Inr ())"

definition rpv_at ::
    "nat \<Rightarrow> (bytes \<Rightarrow> 'a) \<Rightarrow> random_access_parsing_view \<Rightarrow> nat \<Rightarrow> unit + 'a option" where
  "rpv_at item_size load v i =
     (case at_range_check i (rpv_size v) of
        Inl e \<Rightarrow> Inl e
      | Inr _ \<Rightarrow> Inr (rpv_unchecked_access item_size load v i))"

section \<open>Traits\<close>

text \<open>A column value: \<open>None\<close> is the SQL NULL.\<close>

type_synonym field_view = "bytes option"

definition field_view_dereference :: "bytes \<Rightarrow> field_view option" where
  "field_view_dereference data =
     (if length data < 4 then None
      else
        (let size = load_big_s32 data
         in if size = -1 then Some None
            else if sint size < 0 \<or> length data < 4 + unat size then None
            else Some (Some (take (unat size) (drop 4 data)))))"

definition field_view_advance :: "bytes \<Rightarrow> bytes option" where
  "field_view_advance data =
     (if length data < 4 then None
      else
        (let size = load_big_s32 data;
             n = 4 + (if sint size > 0 then unat size else 0)
         in if length data < n then None else Some (drop n data)))"

definition string_view_dereference :: "bytes \<Rightarrow> string_view option" where
  "string_view_dereference data = map_option fst (unchecked_get_string data)"

definition string_view_advance :: "bytes \<Rightarrow> bytes option" where
  "string_view_advance data = map_option snd (unchecked_get_string data)"

text \<open>Format codes are carried as the 16-bit value that was cast to the enumeration.\<close>

type_synonym format_code = int16

abbreviation format_text :: format_code where
  "format_text \<equiv> 0"

abbreviation format_binary :: format_code where
  "format_binary \<equiv> 1"

definition is_valid_format_code :: "format_code \<Rightarrow> bool" where
  "is_valid_format_code v \<longleftrightarrow> v = format_text \<or> v = format_binary"

record field_description =
  fd_name :: string_view
  fd_table_oid :: int32
  fd_column_attribute :: int16
  fd_type_oid :: int32
  fd_type_length :: int16
  fd_type_modifier :: int32
  fd_fmt_code :: format_code

definition field_description_fixed_size :: nat where
  "field_description_fixed_size = 18"

definition field_description_dereference :: "bytes \<Rightarrow> field_description option" where
  "field_description_dereference data =
     Option.bind (unchecked_get_string data) (\<lambda>(name, d1).
     Option.bind (unchecked_get_integral 4 load_big_s32 d1) (\<lambda>(table_oid, d2).
     Option.bind (unchecked_get_integral 2 load_big_s16 d2) (\<lambda>(column_attribute, d3).
     Option.bind (unchecked_get_integral 4 load_big_s32 d3) (\<lambda>(type_oid, d4).
     Option.bind (unchecked_get_integral 2 load_big_s16 d4) (\<lambda>(type_length, d5).
     Option.bind (unchecked_get_integral 4 load_big_s32 d5) (\<lambda>(type_modifier, d6).
     Option.bind (unchecked_get_integral 2 load_big_s16 d6) (\<lambda>(fmt_code, d7).
       Some \<lparr>fd_name = name, fd_table_oid = table_oid, fd_column_attribute = column_attribute,
             fd_type_oid = type_oid, fd_type_length = type_length,
             fd_type_modifier = type_modifier, fd_fmt_code = fmt_code\<rparr>)))))))"

definition field_description_advance :: "bytes \<Rightarrow> bytes option" where
  "field_description_advance data =
     Option.bind (unchecked_get_string data) (\<lambda>(name, d1).
       if length d1 < field_description_fixed_size then None
       else Some (drop field_description_fixed_size d1))"

section \<open>The wire encodings of the items\<close>

definition encode_field_view :: "field_view \<Rightarrow> bytes" where
  "encode_field_view v =
     (case v of None \<Rightarrow> store_big_s32 (-1)
      | Some bs \<Rightarrow> store_big_s32 (word_of_nat (length bs)) @ bs)"

definition wf_field_view :: "field_view \<Rightarrow> bool" where
  "wf_field_view v = (case v of None \<Rightarrow> True | Some bs \<Rightarrow> length bs \<le> int32_max)"

definition encode_cstr :: "string_view \<Rightarrow> bytes" where
  "encode_cstr s = s @ [0]"

definition wf_cstr :: "string_view \<Rightarrow> bool" where
  "wf_cstr s \<longleftrightarrow> 0 \<notin> set s"

definition encode_field_description :: "field_description \<Rightarrow> bytes" where
  "encode_field_description f =
     encode_cstr (fd_name f) @ store_big_s32 (fd_table_oid f) @
     store_big_s16 (fd_column_attribute f) @ store_big_s32 (fd_type_oid f) @
     store_big_s16 (fd_type_length f) @ store_big_s32 (fd_type_modifier f) @
     store_big_s16 (fd_fmt_code f)"

definition wf_field_description :: "field_description \<Rightarrow> bool" where
  "wf_field_description f \<longleftrightarrow> wf_cstr (fd_name f) \<and> is_valid_format_code (fd_fmt_code f)"

section \<open>The contract of a view\<close>

locale forward_traits =
  fixes dereference :: "bytes \<Rightarrow> 'a option"
    and advance :: "bytes \<Rightarrow> bytes option"
    and encode :: "'a \<Rightarrow> bytes"
    and wf :: "'a \<Rightarrow> bool"
  assumes dereference_encode: "wf x \<Longrightarrow> dereference (encode x @ bs) = Some x"
    and advance_encode: "wf x \<Longrightarrow> advance (encode x @ bs) = Some bs"
    and encode_nonempty: "encode x \<noteq> []"
begin

lemma items_encode:
  "\<forall>x \<in> set xs. wf x \<Longrightarrow> fpv_items dereference advance (concat (map encode xs)) = Some xs"
proof (induction xs)
  case Nil
  then show ?case by simp
next
  case (Cons x xs)
  let ?bs = "concat (map encode xs)"
  from Cons have "wf x" and rest: "fpv_items dereference advance ?bs = Some xs"
    by simp_all
  have "encode x @ ?bs \<noteq> []" by (simp add: encode_nonempty)
  then have "fpv_items dereference advance (encode x @ ?bs) = Some (x # xs)"
    using \<open>wf x\<close> rest
    by (simp add: fpv_items_step dereference_encode advance_encode)
  then show ?case by simp
qed

lemma concat_encode_inject:
  assumes "concat (map encode xs) = concat (map encode ys)"
    and "\<forall>x \<in> set xs. wf x" and "\<forall>y \<in> set ys. wf y"
  shows "xs = ys"
  using items_encode [OF assms(2)] items_encode [OF assms(3)] assms(1) by (metis option.inject)

end

primrec parse_loop :: "nat \<Rightarrow> (parse_context \<Rightarrow> parse_context) \<Rightarrow> parse_context \<Rightarrow> parse_context" where
  "parse_loop 0 step c = c"
| "parse_loop (Suc n) step c = parse_loop n step (step c)"

locale item_parser = forward_traits +
  fixes step :: "parse_context \<Rightarrow> parse_context"
  assumes step_encode: "wf x \<Longrightarrow> step (ctx (encode x @ bs)) = ctx bs"
    and step_decode: "step (ctx bs) = ctx bs' \<Longrightarrow> \<exists>x. wf x \<and> bs = encode x @ bs'"
    and step_failed: "\<exists>bs'. step (failed bs e) = failed bs' e"
begin

lemma loop_failed: "\<exists>bs'. parse_loop n step (failed bs e) = failed bs' e"
proof (induction n arbitrary: bs)
  case (Suc n)
  obtain bs1 where "step (failed bs e) = failed bs1 e" using step_failed by blast
  with Suc show ?case by simp
qed simp

lemma loop_encode:
  "\<forall>x \<in> set xs. wf x \<Longrightarrow>
     parse_loop (length xs) step (ctx (concat (map encode xs) @ bs)) = ctx bs"
  by (induction xs) (simp_all add: step_encode)

lemma loop_decode:
  "parse_loop n step (ctx bs) = ctx bs' \<Longrightarrow>
     \<exists>xs. length xs = n \<and> (\<forall>x \<in> set xs. wf x) \<and> bs = concat (map encode xs) @ bs'"
proof (induction n arbitrary: bs)
  case 0
  then show ?case by simp
next
  case (Suc n)
  show ?case
  proof (cases "step (ctx bs)" rule: pc_cases)
    case (healthy bs1)
    with Suc.prems have "parse_loop n step (ctx bs1) = ctx bs'" by simp
    then obtain xs where xs: "length xs = n" "\<forall>x \<in> set xs. wf x" "bs1 = concat (map encode xs) @ bs'"
      using Suc.IH by blast
    from step_decode [OF healthy] obtain x where "wf x" "bs = encode x @ bs1" by blast
    with xs show ?thesis by (intro exI [of _ "x # xs"]) simp
  next
    case (broken bs1 e)
    obtain bs2 where "parse_loop n step (failed bs1 e) = failed bs2 e" using loop_failed by blast
    with broken Suc.prems show ?thesis by simp
  qed
qed

lemma loop_check_iff:
  "pc_check (parse_loop n step (ctx bs)) = None \<longleftrightarrow>
     (\<exists>xs. length xs = n \<and> list_all wf xs \<and> bs = concat (map encode xs))"
proof
  assume ok: "pc_check (parse_loop n step (ctx bs)) = None"
  then have "parse_loop n step (ctx bs) = ctx []"
    by (cases "parse_loop n step (ctx bs)" rule: pc_cases) (auto simp: ctx_simps split: if_splits)
  from loop_decode [OF this]
  show "\<exists>xs. length xs = n \<and> list_all wf xs \<and> bs = concat (map encode xs)"
    by (auto simp: list_all_iff)
next
  assume "\<exists>xs. length xs = n \<and> list_all wf xs \<and> bs = concat (map encode xs)"
  then show "pc_check (parse_loop n step (ctx bs)) = None"
    using loop_encode [of _ "[]"] by (auto simp: list_all_iff ctx_simps)
qed

lemma loop_rest:
  "pc_check (parse_loop n step (ctx bs)) = None \<Longrightarrow> pc_rest (parse_loop n step (ctx bs)) = []"
  by (cases "parse_loop n step (ctx bs)" rule: pc_cases) (auto simp: ctx_simps split: if_splits)

lemma loop_check_failed: "pc_check (parse_loop n step (failed bs e)) \<noteq> None"
  using loop_failed [of n bs e] by (auto simp: ctx_simps)

end

section \<open>Interpretations\<close>

lemma unchecked_get_string_cstr [simp]:
  "wf_cstr s \<Longrightarrow> unchecked_get_string (encode_cstr s @ bs) = Some (s, bs)"
  by (simp add: unchecked_get_string_def encode_cstr_def wf_cstr_def takeWhile_cstr Let_def)

lemma unat_of_length:
  "n \<le> int32_max \<Longrightarrow> unat (word_of_nat n :: int32) = n"
  by (simp add: unat_of_nat take_bit_nat_eq_self int32_max_def)

lemma sint_of_length:
  assumes "n \<le> int32_max"
  shows "sint (word_of_nat n :: int32) = int n"
proof -
  have "signed_take_bit 31 (int n) = int n"
    using assms by (intro signed_take_bit_int_eq_self) (simp_all add: int32_max_def)
  moreover have "uint (word_of_nat n :: int32) = int n"
    using assms by (simp add: uint_nat unat_of_nat take_bit_nat_eq_self int32_max_def)
  ultimately show ?thesis by (simp add: sint_uint)
qed

lemma load_encode_field:
  "length bs \<le> int32_max \<Longrightarrow>
     load_big_s32 (store_big_s32 (word_of_nat (length bs)) @ cs) = word_of_nat (length bs)"
  by (rule s32.load_store_append)

lemma not_minus_one:
  assumes "n \<le> int32_max"
  shows "(word_of_nat n :: int32) \<noteq> -1"
proof
  assume "(word_of_nat n :: int32) = -1"
  then have "sint (word_of_nat n :: int32) = -1" by simp
  with sint_of_length [OF assms] show False by simp
qed

text \<open>The validation of one column by the parser of \<^verbatim>\<open>data_row\<close>.\<close>

definition data_row_step :: "parse_context \<Rightarrow> parse_context" where
  "data_row_step c =
     (case get_int32 c of (value_size, c1) \<Rightarrow>
        if value_size = -1 then c1
        else if 0 \<le> sint value_size then check_size_and_advance (unat value_size) c1
        else pc_add_error (Some (Client protocol_value_error)) c1)"

text \<open>The validation of one string, as in \<^verbatim>\<open>negotiate_protocol_version\<close>.\<close>

definition string_step :: "parse_context \<Rightarrow> parse_context" where
  "string_step c = snd (get_string c)"

text \<open>The validation of one field description by the parser of \<^verbatim>\<open>row_description\<close>.\<close>

definition row_description_step :: "parse_context \<Rightarrow> parse_context" where
  "row_description_step c =
     (let c1 = snd (get_string c);
          c2 = check_size_and_advance (field_description_fixed_size - 2) c1
      in case get_int16 c2 of (fmt_code, c3) \<Rightarrow>
           if is_valid_format_code fmt_code then c3
           else pc_add_error (Some (Client protocol_value_error)) c3)"

lemma data_row_step_encode:
  assumes "wf_field_view v"
  shows "data_row_step (ctx (encode_field_view v @ bs)) = ctx bs"
proof (cases v)
  case None
  then show ?thesis by (simp add: data_row_step_def encode_field_view_def ctx_simps)
next
  case (Some x)
  with assms have "length x \<le> int32_max" by (simp add: wf_field_view_def)
  with Some show ?thesis
    by (simp add: data_row_step_def encode_field_view_def ctx_simps not_minus_one sint_of_length
        unat_of_length)
qed

lemma unat_le_int32_max:
  assumes "0 \<le> sint (w :: int32)"
  shows "unat w \<le> int32_max"
proof -
  have "sint w < 2147483648" using sint_lt [of w] by simp
  with sint_nonneg_unat [OF assms] show ?thesis unfolding int32_max_def by linarith
qed

lemma data_row_step_decode:
  assumes "data_row_step (ctx bs) = ctx bs'"
  shows "\<exists>v. wf_field_view v \<and> bs = encode_field_view v @ bs'"
proof -
  define w where "w = load_big_s32 bs"
  from assms have len: "4 \<le> length bs"
    by (auto simp: data_row_step_def get_integral_ctx ctx_simps split: if_splits)
  from s32.load_decode [OF this] have bs: "bs = store_big_s32 w @ drop 4 bs"
    by (simp add: w_def)
  show ?thesis
  proof (cases "w = -1")
    case True
    with assms len have "bs' = drop 4 bs"
      by (simp add: data_row_step_def get_integral_ctx w_def)
    with True bs have "wf_field_view None \<and> bs = encode_field_view None @ bs'"
      by (simp add: encode_field_view_def wf_field_view_def)
    then show ?thesis by blast
  next
    case False
    with assms len have w: "0 \<le> sint w" "unat w \<le> length bs - 4" "bs' = drop (unat w) (drop 4 bs)"
      by (auto simp: data_row_step_def get_integral_ctx w_def [symmetric] ctx_simps split: if_splits)
    let ?v = "Some (take (unat w) (drop 4 bs))"
    have "wf_field_view ?v"
      using unat_le_int32_max [OF w(1)] by (simp add: wf_field_view_def)
    moreover have "bs = encode_field_view ?v @ bs'"
      using w bs by (simp add: encode_field_view_def min_absorb2 flip: drop_drop)
    ultimately show ?thesis by blast
  qed
qed

lemma data_row_step_failed: "\<exists>bs'. data_row_step (failed bs e) = failed bs' e"
  by (simp add: data_row_step_def ctx_simps)

interpretation columns: item_parser field_view_dereference field_view_advance encode_field_view
  wf_field_view data_row_step
proof unfold_locales
  fix x bs assume "wf_field_view x"
  then show "field_view_dereference (encode_field_view x @ bs) = Some x"
    by (cases x) (auto simp: field_view_dereference_def encode_field_view_def wf_field_view_def
        s32.load_store_append not_minus_one sint_of_length unat_of_length)
next
  fix x bs assume "wf_field_view x"
  then show "field_view_advance (encode_field_view x @ bs) = Some bs"
    by (cases x) (auto simp: field_view_advance_def encode_field_view_def wf_field_view_def
        s32.load_store_append sint_of_length unat_of_length Let_def)
next
  fix x show "encode_field_view x \<noteq> []"
    by (cases x) (simp_all add: encode_field_view_def store_big_s32_def)
qed (simp_all add: data_row_step_encode data_row_step_decode data_row_step_failed)

lemma string_step_decode:
  assumes "string_step (ctx bs) = ctx bs'"
  shows "\<exists>s. wf_cstr s \<and> bs = encode_cstr s @ bs'"
proof -
  from assms have "0 \<in> set bs"
    by (auto simp: string_step_def get_string_ctx split: if_splits)
  then obtain s t where "bs = s @ 0 # t" "0 \<notin> set s" by (rule split_cstr)
  with assms show ?thesis
    by (intro exI [of _ s]) (simp add: string_step_def ctx_simps wf_cstr_def encode_cstr_def)
qed

lemma string_step_encode: "wf_cstr s \<Longrightarrow> string_step (ctx (encode_cstr s @ bs)) = ctx bs"
  by (simp add: string_step_def wf_cstr_def encode_cstr_def ctx_simps)

lemma string_step_failed: "\<exists>bs'. string_step (failed bs e) = failed bs' e"
  by (simp add: string_step_def ctx_simps)

interpretation strings: item_parser string_view_dereference string_view_advance encode_cstr
  wf_cstr string_step
  by unfold_locales
    (simp_all add: string_view_dereference_def string_view_advance_def string_step_encode
      string_step_decode string_step_failed, simp add: encode_cstr_def)

lemma unchecked_get_int_store [simp]:
  "unchecked_get_integral 2 load_big_s16 (store_big_s16 a @ bs) = Some (a, bs)"
  "unchecked_get_integral 4 load_big_s32 (store_big_s32 b @ bs) = Some (b, bs)"
  "unchecked_get_integral 2 load_big_s16 (store_big_s16 a) = Some (a, [])"
  by (simp_all add: unchecked_get_integral_def s16.load_store_append s32.load_store_append
      load_store_s16)

lemma row_description_step_encode:
  assumes "wf_field_description f"
  shows "row_description_step (ctx (encode_field_description f @ bs)) = ctx bs"
  using assms
  by (simp add: row_description_step_def encode_field_description_def encode_cstr_def
      wf_field_description_def wf_cstr_def ctx_simps field_description_fixed_size_def)

lemma encode_field_descriptionI:
  assumes "length xs = 16" and "wf_cstr s"
  obtains f where "fd_name f = s" and "fd_fmt_code f = fmt"
    and "encode_field_description f = encode_cstr s @ xs @ store_big_s16 fmt"
proof -
  define f where "f = \<lparr>fd_name = s, fd_table_oid = load_big_s32 xs,
    fd_column_attribute = load_big_s16 (drop 4 xs), fd_type_oid = load_big_s32 (drop 6 xs),
    fd_type_length = load_big_s16 (drop 10 xs), fd_type_modifier = load_big_s32 (drop 12 xs),
    fd_fmt_code = fmt\<rparr>"
  have "take 4 xs @ take 2 (drop 4 xs) @ take 4 (drop 6 xs) @ take 2 (drop 10 xs) @ drop 12 xs = xs"
    using append_take_drop_id [of 4 xs] append_take_drop_id [of 2 "drop 4 xs"]
      append_take_drop_id [of 4 "drop 6 xs"] append_take_drop_id [of 2 "drop 10 xs"]
    by simp
  then have "encode_field_description f = encode_cstr s @ xs @ store_big_s16 fmt"
    using assms(1) by (simp add: encode_field_description_def f_def store_load_s16 store_load_s32)
  then show ?thesis using that [of f] by (simp add: f_def)
qed

lemma row_description_step_failed: "\<exists>bs'. row_description_step (failed bs e) = failed bs' e"
  by (simp add: row_description_step_def ctx_simps Let_def)

lemma row_description_step_decode:
  assumes "row_description_step (ctx bs) = ctx bs'"
  shows "\<exists>f. wf_field_description f \<and> bs = encode_field_description f @ bs'"
proof -
  from assms have "0 \<in> set bs"
    by (auto simp: row_description_step_def get_string_ctx ctx_simps Let_def split: if_splits)
  then obtain s t where bs: "bs = s @ 0 # t" and s: "0 \<notin> set s" by (rule split_cstr)
  define fmt where "fmt = load_big_s16 (drop 16 t)"
  have t: "18 \<le> length t" and fmt: "is_valid_format_code fmt" and bs': "bs' = drop 18 t"
    using assms s unfolding bs
    by (auto simp: row_description_step_def ctx_simps get_integral_ctx fmt_def
        field_description_fixed_size_def Let_def split: if_splits)
  from s have "wf_cstr s" by (simp add: wf_cstr_def)
  then obtain f where f: "fd_name f = s" "fd_fmt_code f = fmt"
    "encode_field_description f = encode_cstr s @ take 16 t @ store_big_s16 fmt"
    using encode_field_descriptionI [of "take 16 t" s fmt] t by auto
  have "store_big_s16 fmt @ drop 18 t = drop 16 t"
    using s16.load_decode [of "drop 16 t"] t by (simp add: fmt_def)
  then have "t = take 16 t @ store_big_s16 fmt @ drop 18 t" by simp
  then have "bs = encode_field_description f @ bs'"
    by (simp add: bs bs' f encode_cstr_def)
  with f fmt \<open>wf_cstr s\<close> show ?thesis
    by (auto simp: wf_field_description_def)
qed

interpretation fields: item_parser field_description_dereference field_description_advance
  encode_field_description wf_field_description row_description_step
proof unfold_locales
  fix f bs assume "wf_field_description f"
  then show "field_description_dereference (encode_field_description f @ bs) = Some f"
    by (simp add: field_description_dereference_def encode_field_description_def
        wf_field_description_def)
next
  fix f bs assume "wf_field_description f"
  then show "field_description_advance (encode_field_description f @ bs) = Some bs"
    by (simp add: field_description_advance_def encode_field_description_def
        wf_field_description_def field_description_fixed_size_def)
next
  fix f show "encode_field_description f \<noteq> []"
    by (simp add: encode_field_description_def encode_cstr_def)
qed (simp_all add: row_description_step_encode row_description_step_decode
    row_description_step_failed)

end
