(* ===== verification/Pg_Backend.thy ===== *)
theory Pg_Backend
  imports Pg_Views
begin

text \<open>
  The messages a backend may send and their parsers: the structures of the headers under
  \<^verbatim>\<open>protocol/\<close>, the hand-rolled variant \<^verbatim>\<open>any_backend_message\<close>, the parsing half of
  \<^verbatim>\<open>messages.cpp\<close> and the framing functions \<^verbatim>\<open>parse_header\<close>, \<^verbatim>\<open>parse_message\<close> and
  \<^verbatim>\<open>message_missing_bytes\<close>. A parser returns its error code and the structure it filled.
\<close>

section \<open>Structures\<close>

record backend_key_data =
  bkd_process_id :: int32
  bkd_secret_key :: int32

record notification_response =
  nr_process_id :: int32
  nr_channel_name :: string_view
  nr_payload :: string_view

record parameter_status =
  ps_name :: string_view
  ps_value :: string_view

record copy_response =
  cr_overall_fmt_code :: format_code
  cr_fmt_codes :: random_access_parsing_view

record negotiate_protocol_version =
  npv_minor_version :: int32
  npv_non_recognized_options :: forward_parsing_view

type_synonym transaction_status = byte

abbreviation status_idle :: transaction_status where
  "status_idle \<equiv> 0x49"

abbreviation status_in_transaction :: transaction_status where
  "status_in_transaction \<equiv> 0x54"

abbreviation status_failed :: transaction_status where
  "status_failed \<equiv> 0x45"

record error_notice_fields =
  enf_severity :: "string_view option"
  enf_localized_severity :: "string_view option"
  enf_sqlstate :: "string_view option"
  enf_message :: "string_view option"
  enf_detail :: "string_view option"
  enf_hint :: "string_view option"
  enf_position :: "string_view option"
  enf_internal_position :: "string_view option"
  enf_internal_query :: "string_view option"
  enf_where :: "string_view option"
  enf_schema_name :: "string_view option"
  enf_table_name :: "string_view option"
  enf_column_name :: "string_view option"
  enf_data_type_name :: "string_view option"
  enf_constraint_name :: "string_view option"
  enf_file_name :: "string_view option"
  enf_line_number :: "string_view option"
  enf_routine :: "string_view option"

definition no_error_fields :: error_notice_fields where
  "no_error_fields = \<lparr>enf_severity = None, enf_localized_severity = None, enf_sqlstate = None,
     enf_message = None, enf_detail = None, enf_hint = None, enf_position = None,
     enf_internal_position = None, enf_internal_query = None, enf_where = None,
     enf_schema_name = None, enf_table_name = None, enf_column_name = None,
     enf_data_type_name = None, enf_constraint_name = None, enf_file_name = None,
     enf_line_number = None, enf_routine = None\<rparr>"

datatype any_backend_message =
    No_message
  | Authentication_ok
  | Authentication_kerberos_v5
  | Authentication_cleartext_password
  | Authentication_md5_password bytes
  | Authentication_gss
  | Authentication_gss_continue bytes
  | Authentication_sspi
  | Authentication_sasl forward_parsing_view
  | Authentication_sasl_continue bytes
  | Authentication_sasl_final bytes
  | Backend_key_data backend_key_data
  | Bind_complete
  | Close_complete
  | Command_complete string_view
  | Copy_data bytes
  | Copy_done
  | Copy_fail string_view
  | Copy_in_response copy_response
  | Copy_out_response copy_response
  | Copy_both_response copy_response
  | Data_row forward_parsing_view
  | Empty_query_response
  | Error_response error_notice_fields
  | Negotiate_protocol_version negotiate_protocol_version
  | No_data
  | Notice_response error_notice_fields
  | Notification_response notification_response
  | Parameter_description random_access_parsing_view
  | Parameter_status parameter_status
  | Parse_complete
  | Portal_suspended
  | Ready_for_query transaction_status
  | Field_description field_description
  | Row_description forward_parsing_view

section \<open>Message type bytes\<close>

datatype backend_message_type =
    T_authentication_request
  | T_backend_key_data
  | T_bind_complete
  | T_close_complete
  | T_command_complete
  | T_copy_data
  | T_copy_done
  | T_copy_in_response
  | T_copy_out_response
  | T_copy_both_response
  | T_data_row
  | T_empty_query_response
  | T_error_response
  | T_negotiate_protocol_version
  | T_no_data
  | T_notice_response
  | T_notification_response
  | T_parameter_description
  | T_parameter_status
  | T_parse_complete
  | T_portal_suspended
  | T_ready_for_query
  | T_row_description

text \<open>The cast of a byte to the enumeration: the values of the enumerators, in their order.\<close>

definition backend_message_type_of :: "byte \<Rightarrow> backend_message_type option" where
  "backend_message_type_of = map_of
     [(of_char CHR ''R'', T_authentication_request), (of_char CHR ''K'', T_backend_key_data),
      (of_char CHR ''2'', T_bind_complete), (of_char CHR ''3'', T_close_complete),
      (of_char CHR ''C'', T_command_complete), (of_char CHR ''d'', T_copy_data),
      (of_char CHR ''c'', T_copy_done), (of_char CHR ''G'', T_copy_in_response),
      (of_char CHR ''H'', T_copy_out_response), (of_char CHR ''W'', T_copy_both_response),
      (of_char CHR ''D'', T_data_row), (of_char CHR ''I'', T_empty_query_response),
      (of_char CHR ''E'', T_error_response), (of_char CHR ''v'', T_negotiate_protocol_version),
      (of_char CHR ''n'', T_no_data), (of_char CHR ''N'', T_notice_response),
      (of_char CHR ''A'', T_notification_response), (of_char CHR ''t'', T_parameter_description),
      (of_char CHR ''S'', T_parameter_status), (of_char CHR ''1'', T_parse_complete),
      (of_char CHR ''s'', T_portal_suspended), (of_char CHR ''Z'', T_ready_for_query),
      (of_char CHR ''T'', T_row_description)]"

section \<open>Parsers of the individual messages\<close>

definition check_empty :: "bytes \<Rightarrow> error_code option" where
  "check_empty data = (if data = [] then None else Some (Client extra_bytes))"

definition parse_backend_key_data :: "bytes \<Rightarrow> error_code option \<times> backend_key_data" where
  "parse_backend_key_data data =
     (case get_int32 (parse_context_init data) of (pid, c1) \<Rightarrow>
      case get_int32 c1 of (key, c2) \<Rightarrow>
        (pc_check c2, \<lparr>bkd_process_id = pid, bkd_secret_key = key\<rparr>))"

definition parse_authentication_md5_password :: "bytes \<Rightarrow> error_code option \<times> bytes" where
  "parse_authentication_md5_password data =
     (case get_byte_array 4 (parse_context_init data) of (salt, c1) \<Rightarrow> (pc_check c1, salt))"

text \<open>The loop \<^verbatim>\<open>while (!ctx.get_string().empty()) ++num_items\<close>.\<close>

lemma get_string_shrinks:
  assumes "get_string c = (s, c')" and "s \<noteq> []"
  shows "length (pc_rest c') < length (pc_rest c)"
  using assms
  by (cases c rule: pc_cases)
    (auto simp: ctx_simps get_string_ctx split: if_splits intro!: diff_less length_pos_if_in_set)

function sasl_loop :: "nat \<Rightarrow> parse_context \<Rightarrow> nat \<times> parse_context" where
  "sasl_loop num_items c =
     (case get_string c of (s, c') \<Rightarrow>
        if s = [] then (num_items, c') else sasl_loop (Suc num_items) c')"
  by pat_completeness auto
termination
  by (relation "measure (\<lambda>(n, c). length (pc_rest c))") (auto dest: get_string_shrinks [OF sym])

declare sasl_loop.simps [simp del]

definition parse_authentication_sasl :: "bytes \<Rightarrow> error_code option \<times> forward_parsing_view" where
  "parse_authentication_sasl data =
     (let mechanisms_first = data
      in case sasl_loop 0 (parse_context_init data) of (num_items, c) \<Rightarrow>
           (pc_check c,
            \<lparr>fpv_size = num_items,
              fpv_data = (let span = span_between mechanisms_first (pc_rest c)
                          in take (length span - 1) span)\<rparr>))"

definition parse_command_complete :: "bytes \<Rightarrow> error_code option \<times> string_view" where
  "parse_command_complete data =
     (case get_string (parse_context_init data) of (tag, c1) \<Rightarrow> (pc_check c1, tag))"

text \<open>\<^verbatim>\<open>overall_format_code\<close> is a one-byte format code.\<close>

definition is_valid_overall_format_code :: "byte \<Rightarrow> bool" where
  "is_valid_overall_format_code v \<longleftrightarrow> v = 0 \<or> v = 1"

definition copy_code_step :: "bool \<Rightarrow> parse_context \<Rightarrow> parse_context" where
  "copy_code_step should_be_text c =
     (case get_int16 c of (code, c1) \<Rightarrow>
        if (should_be_text \<and> code \<noteq> format_text) \<or> \<not> is_valid_format_code code
        then pc_add_error (Some (Client protocol_value_error)) c1
        else c1)"

definition parse_copy_response :: "bytes \<Rightarrow> error_code option \<times> copy_response" where
  "parse_copy_response data =
     (case get_byte (parse_context_init data) of (overall_code, c1) \<Rightarrow>
        if \<not> is_valid_overall_format_code overall_code
        then (pc_check (pc_add_error (Some (Client protocol_value_error)) c1),
              \<lparr>cr_overall_fmt_code = 0, cr_fmt_codes = empty_random_access_view\<rparr>)
        else
          (let should_be_text = (overall_code = 0)
           in case get_nonneg_int16 c1 of (n, c2) \<Rightarrow>
                let num_items = unat n;
                    fmt_codes_first = pc_rest c2;
                    c3 = parse_loop num_items (copy_code_step should_be_text) c2
                in (pc_check c3,
                    \<lparr>cr_overall_fmt_code = ucast overall_code,
                      cr_fmt_codes = \<lparr>rpv_data = fmt_codes_first, rpv_size = num_items\<rparr>\<rparr>)))"

definition parse_data_row :: "bytes \<Rightarrow> error_code option \<times> forward_parsing_view" where
  "parse_data_row data =
     (case get_nonneg_int16 (parse_context_init data) of (n, c1) \<Rightarrow>
        let num_columns = unat n;
            values_begin = pc_rest c1;
            c2 = parse_loop num_columns data_row_step c1;
            values_end = pc_rest c2
        in (pc_check c2,
            \<lparr>fpv_size = num_columns, fpv_data = span_between values_begin values_end\<rparr>))"

definition parse_negotiate_protocol_version ::
    "bytes \<Rightarrow> error_code option \<times> negotiate_protocol_version" where
  "parse_negotiate_protocol_version data =
     (case get_nonneg_int32 (parse_context_init data) of (minor, c1) \<Rightarrow>
      case get_nonneg_int32 c1 of (n, c2) \<Rightarrow>
        let num_ops = unat n;
            opts_first = pc_rest c2;
            c3 = parse_loop num_ops string_step c2;
            opts_last = pc_rest c3
        in (pc_check c3,
            \<lparr>npv_minor_version = minor,
              npv_non_recognized_options =
                \<lparr>fpv_size = num_ops, fpv_data = span_between opts_first opts_last\<rparr>\<rparr>))"

text \<open>\<^verbatim>\<open>error_field_type\<close> and the assignment each of its values selects in \<^verbatim>\<open>populate_field\<close>.\<close>

definition error_field_setter ::
    "byte \<Rightarrow> (string_view \<Rightarrow> error_notice_fields \<Rightarrow> error_notice_fields) option" where
  "error_field_setter = map_of
     [(of_char CHR ''S'', \<lambda>s. enf_localized_severity_update (\<lambda>_. Some s)),
      (of_char CHR ''V'', \<lambda>s. enf_severity_update (\<lambda>_. Some s)),
      (of_char CHR ''C'', \<lambda>s. enf_sqlstate_update (\<lambda>_. Some s)),
      (of_char CHR ''M'', \<lambda>s. enf_message_update (\<lambda>_. Some s)),
      (of_char CHR ''D'', \<lambda>s. enf_detail_update (\<lambda>_. Some s)),
      (of_char CHR ''H'', \<lambda>s. enf_hint_update (\<lambda>_. Some s)),
      (of_char CHR ''P'', \<lambda>s. enf_position_update (\<lambda>_. Some s)),
      (of_char CHR ''p'', \<lambda>s. enf_internal_position_update (\<lambda>_. Some s)),
      (of_char CHR ''q'', \<lambda>s. enf_internal_query_update (\<lambda>_. Some s)),
      (of_char CHR ''W'', \<lambda>s. enf_where_update (\<lambda>_. Some s)),
      (of_char CHR ''s'', \<lambda>s. enf_schema_name_update (\<lambda>_. Some s)),
      (of_char CHR ''t'', \<lambda>s. enf_table_name_update (\<lambda>_. Some s)),
      (of_char CHR ''c'', \<lambda>s. enf_column_name_update (\<lambda>_. Some s)),
      (of_char CHR ''d'', \<lambda>s. enf_data_type_name_update (\<lambda>_. Some s)),
      (of_char CHR ''n'', \<lambda>s. enf_constraint_name_update (\<lambda>_. Some s)),
      (of_char CHR ''F'', \<lambda>s. enf_file_name_update (\<lambda>_. Some s)),
      (of_char CHR ''L'', \<lambda>s. enf_line_number_update (\<lambda>_. Some s)),
      (of_char CHR ''R'', \<lambda>s. enf_routine_update (\<lambda>_. Some s))]"

definition populate_field ::
    "byte \<Rightarrow> parse_context \<Rightarrow> error_notice_fields \<Rightarrow> error_notice_fields \<times> parse_context" where
  "populate_field type_byte c to =
     (case error_field_setter type_byte of
        Some set_field \<Rightarrow> (case get_string c of (s, c') \<Rightarrow> (set_field s to, c'))
      | None \<Rightarrow> (to, c))"

lemma get_string_le: "length (pc_rest (snd (get_string c))) \<le> length (pc_rest c)"
  by (cases c rule: pc_cases) (auto simp: ctx_simps get_string_ctx)

lemma populate_field_le: "length (pc_rest (snd (populate_field t c to))) \<le> length (pc_rest c)"
  using get_string_le [of c] by (auto simp: populate_field_def split: option.split prod.split)

lemma get_byte_shrinks:
  "get_byte c = (b, c') \<Longrightarrow> b \<noteq> 0 \<Longrightarrow> length (pc_rest c') < length (pc_rest c)"
proof (cases c rule: pc_cases)
  case (healthy bs)
  then show "get_byte c = (b, c') \<Longrightarrow> b \<noteq> 0 \<Longrightarrow> length (pc_rest c') < length (pc_rest c)"
    by (cases bs) (auto simp: ctx_simps)
qed (auto simp: ctx_simps)

function error_notice_loop ::
    "parse_context \<Rightarrow> error_notice_fields \<Rightarrow> error_notice_fields \<times> parse_context" where
  "error_notice_loop c to =
     (case get_byte c of (type_byte, c1) \<Rightarrow>
        if type_byte = 0 then (to, c1)
        else (case populate_field type_byte c1 to of (to', c2) \<Rightarrow> error_notice_loop c2 to'))"
  by pat_completeness auto
termination
proof (relation "measure (\<lambda>(c, to). length (pc_rest c))", simp, clarsimp)
  fix c to a c1 to' c2
  assume "(a, c1) = get_byte c" and "a \<noteq> 0" and "(to', c2) = populate_field a c1 to"
  then show "length (pc_rest c2) < length (pc_rest c)"
    using get_byte_shrinks [of c a c1] populate_field_le [of a c1 to] by (metis snd_conv order_le_less_trans)
qed

declare error_notice_loop.simps [simp del]

definition parse_error_notice :: "bytes \<Rightarrow> error_code option \<times> error_notice_fields" where
  "parse_error_notice data =
     (case error_notice_loop (parse_context_init data) no_error_fields of (to, c) \<Rightarrow>
        (pc_check c, to))"

definition parse_notification_response :: "bytes \<Rightarrow> error_code option \<times> notification_response" where
  "parse_notification_response data =
     (case get_int32 (parse_context_init data) of (pid, c1) \<Rightarrow>
      case get_string c1 of (channel_name, c2) \<Rightarrow>
      case get_string c2 of (payload, c3) \<Rightarrow>
        (pc_check c3,
         \<lparr>nr_process_id = pid, nr_channel_name = channel_name, nr_payload = payload\<rparr>))"

text \<open>
  The parser of \<^verbatim>\<open>parameter_description\<close> ignores its output argument, so the structure keeps the
  empty view its default constructor made.
\<close>

definition parse_parameter_description ::
    "bytes \<Rightarrow> error_code option \<times> random_access_parsing_view" where
  "parse_parameter_description data =
     (case get_nonneg_int16 (parse_context_init data) of (n, c1) \<Rightarrow>
        let c2 = check_size_and_advance (unat n * 4) c1
        in (pc_check c2, empty_random_access_view))"

definition parse_parameter_status :: "bytes \<Rightarrow> error_code option \<times> parameter_status" where
  "parse_parameter_status data =
     (case get_string (parse_context_init data) of (name, c1) \<Rightarrow>
      case get_string c1 of (val, c2) \<Rightarrow>
        (pc_check c2, \<lparr>ps_name = name, ps_value = val\<rparr>))"

definition is_valid_status :: "transaction_status \<Rightarrow> bool" where
  "is_valid_status v \<longleftrightarrow> v = status_idle \<or> v = status_in_transaction \<or> v = status_failed"

definition parse_ready_for_query :: "bytes \<Rightarrow> error_code option \<times> transaction_status" where
  "parse_ready_for_query data =
     (case get_byte (parse_context_init data) of (status, c1) \<Rightarrow>
        let c2 = (if is_valid_status status then c1
                  else pc_add_error (Some (Client protocol_value_error)) c1)
        in (pc_check c2, status))"

definition parse_row_description :: "bytes \<Rightarrow> error_code option \<times> forward_parsing_view" where
  "parse_row_description data =
     (case get_nonneg_int16 (parse_context_init data) of (n, c1) \<Rightarrow>
        let num_items = unat n;
            data_first = pc_rest c1;
            c2 = parse_loop num_items row_description_step c1;
            data_last = pc_rest c2
        in (pc_check c2,
            \<lparr>fpv_size = num_items, fpv_data = span_between data_first data_last\<rparr>))"

section \<open>Dispatch\<close>

text \<open>\<^verbatim>\<open>parse_any_message_impl\<close>: the output is assigned only when the parser succeeded.\<close>

definition parse_any_message_impl ::
    "('a \<Rightarrow> any_backend_message) \<Rightarrow> error_code option \<times> 'a \<Rightarrow> error_code + any_backend_message" where
  "parse_any_message_impl mk r = (case r of (Some ec, _) \<Rightarrow> Inl ec | (None, res) \<Rightarrow> Inr (mk res))"

definition parse_empty_message :: "any_backend_message \<Rightarrow> bytes \<Rightarrow> error_code + any_backend_message" where
  "parse_empty_message msg data = parse_any_message_impl (\<lambda>_. msg) (check_empty data, ())"

definition parse_authentication_request :: "bytes \<Rightarrow> error_code + any_backend_message" where
  "parse_authentication_request from =
     (if length from < 4 then Inl (Client incomplete_message)
      else
        (let auth_type = load_big_s32 from;
             data = drop 4 from
         in if auth_type = 0 then parse_empty_message Authentication_ok data
            else if auth_type = 2 then parse_empty_message Authentication_kerberos_v5 data
            else if auth_type = 3 then parse_empty_message Authentication_cleartext_password data
            else if auth_type = 5 then
              parse_any_message_impl Authentication_md5_password (parse_authentication_md5_password data)
            else if auth_type = 7 then parse_empty_message Authentication_gss data
            else if auth_type = 8 then Inr (Authentication_gss_continue data)
            else if auth_type = 9 then parse_empty_message Authentication_sspi data
            else if auth_type = 10 then
              parse_any_message_impl Authentication_sasl (parse_authentication_sasl data)
            else if auth_type = 11 then Inr (Authentication_sasl_continue data)
            else if auth_type = 12 then Inr (Authentication_sasl_final data)
            else Inl (Client protocol_value_error)))"

definition parse_any_message :: "byte \<Rightarrow> bytes \<Rightarrow> error_code + any_backend_message" where
  "parse_any_message message_type data =
     (case backend_message_type_of message_type of
        None \<Rightarrow> Inl (Client protocol_value_error)
      | Some t \<Rightarrow>
          (case t of
             T_authentication_request \<Rightarrow> parse_authentication_request data
           | T_backend_key_data \<Rightarrow>
               parse_any_message_impl Backend_key_data (parse_backend_key_data data)
           | T_bind_complete \<Rightarrow> parse_empty_message Bind_complete data
           | T_close_complete \<Rightarrow> parse_empty_message Close_complete data
           | T_command_complete \<Rightarrow>
               parse_any_message_impl Command_complete (parse_command_complete data)
           | T_copy_data \<Rightarrow> Inr (Copy_data data)
           | T_copy_done \<Rightarrow> parse_empty_message Copy_done data
           | T_copy_in_response \<Rightarrow>
               parse_any_message_impl Copy_in_response (parse_copy_response data)
           | T_copy_out_response \<Rightarrow>
               parse_any_message_impl Copy_out_response (parse_copy_response data)
           | T_copy_both_response \<Rightarrow>
               parse_any_message_impl Copy_both_response (parse_copy_response data)
           | T_data_row \<Rightarrow> parse_any_message_impl Data_row (parse_data_row data)
           | T_empty_query_response \<Rightarrow> parse_empty_message Empty_query_response data
           | T_error_response \<Rightarrow> parse_any_message_impl Error_response (parse_error_notice data)
           | T_negotiate_protocol_version \<Rightarrow>
               parse_any_message_impl Negotiate_protocol_version (parse_negotiate_protocol_version data)
           | T_no_data \<Rightarrow> parse_empty_message No_data data
           | T_notice_response \<Rightarrow> parse_any_message_impl Notice_response (parse_error_notice data)
           | T_notification_response \<Rightarrow>
               parse_any_message_impl Notification_response (parse_notification_response data)
           | T_parameter_description \<Rightarrow>
               parse_any_message_impl Parameter_description (parse_parameter_description data)
           | T_parameter_status \<Rightarrow>
               parse_any_message_impl Parameter_status (parse_parameter_status data)
           | T_parse_complete \<Rightarrow> parse_empty_message Parse_complete data
           | T_portal_suspended \<Rightarrow> parse_empty_message Portal_suspended data
           | T_ready_for_query \<Rightarrow>
               parse_any_message_impl Ready_for_query (parse_ready_for_query data)
           | T_row_description \<Rightarrow>
               parse_any_message_impl Row_description (parse_row_description data)))"

section \<open>Framing\<close>

record message_header =
  mh_type :: byte
  mh_size :: int32

definition parse_header :: "bytes \<Rightarrow> error_code + message_header" where
  "parse_header from =
     (let msg_type = from ! 0;
          size = load_big_s32 (drop 1 from)
      in if sint size < 4 then Inl (Client protocol_value_error)
         else Inr \<lparr>mh_type = msg_type, mh_size = size\<rparr>)"

definition serialize_header :: "message_header \<Rightarrow> error_code + bytes" where
  "serialize_header h =
     (if sint (mh_size h) > int int32_max - 4 then Inl (Client value_too_big)
      else Inr (mh_type h # store_big_s32 (mh_size h)))"

record parse_message_result =
  pmr_ec :: "error_code option"
  pmr_message :: any_backend_message
  pmr_size :: nat

definition parse_message :: "bytes \<Rightarrow> parse_message_result" where
  "parse_message data =
     (if length data < 5
      then \<lparr>pmr_ec = Some (Client needs_more), pmr_message = No_message, pmr_size = 5 - length data\<rparr>
      else
        (case parse_header (take 5 data) of
           Inl ec \<Rightarrow> \<lparr>pmr_ec = Some ec, pmr_message = No_message, pmr_size = 0\<rparr>
         | Inr header \<Rightarrow>
             (let required_size = unat (mh_size header + 1)
              in if length data < required_size
                 then \<lparr>pmr_ec = Some (Client needs_more), pmr_message = No_message,
                        pmr_size = required_size - length data\<rparr>
                 else
                   (case parse_any_message (mh_type header) (take (required_size - 5) (drop 5 data)) of
                      Inl ec \<Rightarrow> \<lparr>pmr_ec = Some ec, pmr_message = No_message, pmr_size = 0\<rparr>
                    | Inr msg \<Rightarrow> \<lparr>pmr_ec = None, pmr_message = msg, pmr_size = required_size\<rparr>))))"

definition message_missing_bytes :: "bytes \<Rightarrow> nat" where
  "message_missing_bytes data =
     (if length data < 5 then 5 - length data
      else
        (case parse_header (take 5 data) of
           Inl ec \<Rightarrow> 0
         | Inr header \<Rightarrow>
             (let required_size = unat (mh_size header + 1)
              in if length data < required_size then required_size - length data else 0)))"

end
