(* ===== verification/Pg_Framing.thy ===== *)
theory Pg_Framing
  imports Pg_Backend
begin

text \<open>
  Framing of the backend byte stream. The interface \<open>framing\<close> states what the network algorithms
  rely on: a complete message at the front of the buffer has a positive size within the buffer, its
  result does not depend on the bytes behind it, and an incomplete one asks for bytes that are really
  missing. The client lemmas are about the loop that takes messages off the front of a buffer until
  it needs more: the messages a stream yields do not depend on how the network cut it into reads.
  \<open>parse_message\<close> is shown to be such a framing.
\<close>

section \<open>Errors of the message parsers\<close>

definition not_needs_more :: "parse_context \<Rightarrow> bool" where
  "not_needs_more c \<longleftrightarrow> pc_ec c \<noteq> Some (Client needs_more)"

lemma not_needs_more_ctx [simp]: "not_needs_more (ctx bs)"
  by (simp add: not_needs_more_def)

lemma not_needs_more_failed [simp]:
  "not_needs_more (failed bs e) \<longleftrightarrow> e \<noteq> Client needs_more"
  by (simp add: not_needs_more_def)

lemma not_needs_more_ops:
  assumes "not_needs_more c"
  shows "not_needs_more (snd (get_byte c))" and "not_needs_more (snd (get_integral n load c))"
    and "not_needs_more (snd (get_nonnegative_integral n load' c))"
    and "not_needs_more (snd (get_string c))" and "not_needs_more (check_size_and_advance n c)"
    and "not_needs_more (snd (get_byte_array n c))"
    and "e \<noteq> Client needs_more \<Longrightarrow> not_needs_more (pc_add_error (Some e) c)"
    and "pc_check c \<noteq> Some (Client needs_more)"
  using assms
  by (auto simp: not_needs_more_def pc_defs pc_check_def Let_def split: prod.splits)

lemma not_needs_more_loop:
  assumes "\<And>c. not_needs_more c \<Longrightarrow> not_needs_more (step c)" and "not_needs_more c"
  shows "not_needs_more (parse_loop n step c)"
  using assms(2) by (induction n arbitrary: c) (simp_all add: assms(1))

lemma not_needs_more_steps:
  assumes "not_needs_more c"
  shows "not_needs_more (data_row_step c)" and "not_needs_more (string_step c)"
    and "not_needs_more (row_description_step c)" and "not_needs_more (copy_code_step b c)"
  using assms
  by (simp_all add: data_row_step_def string_step_def row_description_step_def copy_code_step_def
      Let_def split_def not_needs_more_ops)

lemma not_needs_more_sasl:
  "not_needs_more c \<Longrightarrow> not_needs_more (snd (sasl_loop k c))"
proof (induction k c rule: sasl_loop.induct)
  case (1 k c)
  show ?case
    using "1.IH" [OF prod.collapse] "1.prems"
    by (subst sasl_loop.simps) (simp add: split_def not_needs_more_ops)
qed

lemma not_needs_more_populate:
  "not_needs_more c \<Longrightarrow> not_needs_more (snd (populate_field t c to))"
  by (simp add: populate_field_def split_def not_needs_more_ops split: option.split)

lemma not_needs_more_error_notice:
  "not_needs_more c \<Longrightarrow> not_needs_more (snd (error_notice_loop c to))"
proof (induction c to rule: error_notice_loop.induct)
  case (1 c to)
  show ?case
    using "1.IH" [OF prod.collapse _ prod.collapse] "1.prems"
    by (subst error_notice_loop.simps)
      (simp add: split_def not_needs_more_ops not_needs_more_populate)
qed

lemmas not_needs_more_intros = not_needs_more_ops not_needs_more_loop not_needs_more_steps
  not_needs_more_sasl not_needs_more_error_notice

lemma parser_errors:
  "fst (parse_backend_key_data d) \<noteq> Some (Client needs_more)"
  "fst (parse_authentication_md5_password d) \<noteq> Some (Client needs_more)"
  "fst (parse_authentication_sasl d) \<noteq> Some (Client needs_more)"
  "fst (parse_command_complete d) \<noteq> Some (Client needs_more)"
  "fst (parse_copy_response d) \<noteq> Some (Client needs_more)"
  "fst (parse_data_row d) \<noteq> Some (Client needs_more)"
  "fst (parse_error_notice d) \<noteq> Some (Client needs_more)"
  "fst (parse_negotiate_protocol_version d) \<noteq> Some (Client needs_more)"
  "fst (parse_notification_response d) \<noteq> Some (Client needs_more)"
  "fst (parse_parameter_description d) \<noteq> Some (Client needs_more)"
  "fst (parse_parameter_status d) \<noteq> Some (Client needs_more)"
  "fst (parse_ready_for_query d) \<noteq> Some (Client needs_more)"
  "fst (parse_row_description d) \<noteq> Some (Client needs_more)"
  by (simp_all add: parse_backend_key_data_def parse_authentication_md5_password_def
      parse_authentication_sasl_def parse_command_complete_def parse_copy_response_def
      parse_data_row_def parse_error_notice_def parse_negotiate_protocol_version_def
      parse_notification_response_def parse_parameter_description_def parse_parameter_status_def
      parse_ready_for_query_def parse_row_description_def parse_context_init_ctx Let_def split_def
      not_needs_more_intros)

lemma impl_error:
  "fst r \<noteq> Some (Client needs_more) \<Longrightarrow> parse_any_message_impl mk r \<noteq> Inl (Client needs_more)"
  by (auto simp: parse_any_message_impl_def split: prod.splits option.splits)

lemma parse_any_message_error: "parse_any_message t d \<noteq> Inl (Client needs_more)"
proof -
  have "parse_authentication_request d \<noteq> Inl (Client needs_more)"
    by (auto simp: parse_authentication_request_def parse_empty_message_def check_empty_def Let_def
        intro!: impl_error parser_errors)
  then show ?thesis
    by (auto simp: parse_any_message_def parse_empty_message_def check_empty_def
        intro!: impl_error parser_errors split: option.splits backend_message_type.splits)
qed

section \<open>The framing interface\<close>

locale framing =
  fixes parse :: "bytes \<Rightarrow> parse_message_result"
  assumes complete_size: "pmr_ec (parse bs) = None \<Longrightarrow> 0 < pmr_size (parse bs) \<and> pmr_size (parse bs) \<le> length bs"
    and stable: "pmr_ec (parse bs) \<noteq> Some (Client needs_more) \<Longrightarrow> parse (bs @ cs) = parse bs"
    and missing_positive: "pmr_ec (parse bs) = Some (Client needs_more) \<Longrightarrow> 0 < pmr_size (parse bs)"
    and missing_exact: "pmr_ec (parse bs) = Some (Client needs_more) \<Longrightarrow> length cs < pmr_size (parse bs) \<Longrightarrow>
          pmr_ec (parse (bs @ cs)) = Some (Client needs_more)"

text \<open>
  The loop of the readers: parse at the front of the committed area, account for the size of the
  message, and go on until more bytes are needed or the stream is broken. The result is the messages,
  the bytes left and the error that ended the loop, if it is one.
\<close>

fun take_messages :: "(bytes \<Rightarrow> parse_message_result) \<Rightarrow> nat \<Rightarrow> bytes \<Rightarrow>
    any_backend_message list \<times> bytes \<times> error_code option" where
  "take_messages parse 0 bs = ([], bs, None)"
| "take_messages parse (Suc fuel) bs =
     (case pmr_ec (parse bs) of
        None \<Rightarrow>
          (case take_messages parse fuel (drop (pmr_size (parse bs)) bs) of
             (ms, rest, ec) \<Rightarrow> (pmr_message (parse bs) # ms, rest, ec))
      | Some ec \<Rightarrow> if ec = Client needs_more then ([], bs, None) else ([], bs, Some ec))"

definition drain :: "(bytes \<Rightarrow> parse_message_result) \<Rightarrow> bytes \<Rightarrow>
    any_backend_message list \<times> bytes \<times> error_code option" where
  "drain parse bs = take_messages parse (Suc (length bs)) bs"

context framing
begin

lemma take_messages_fuel:
  "length bs < n \<Longrightarrow> length bs < m \<Longrightarrow> take_messages parse n bs = take_messages parse m bs"
proof (induction n arbitrary: m bs)
  case (Suc n)
  obtain k where m: "m = Suc k" using Suc.prems(2) by (cases m) auto
  have "take_messages parse n (drop (pmr_size (parse bs)) bs) =
      take_messages parse k (drop (pmr_size (parse bs)) bs)" if "pmr_ec (parse bs) = None"
  proof (rule Suc.IH)
    have "0 < pmr_size (parse bs)" "pmr_size (parse bs) \<le> length bs"
      using complete_size [OF that] by auto
    then show "length (drop (pmr_size (parse bs)) bs) < n" "length (drop (pmr_size (parse bs)) bs) < k"
      using Suc.prems m by auto
  qed
  then show ?case by (simp add: m split: option.split)
qed simp

lemma drain_unfold:
  "drain parse bs =
     (case pmr_ec (parse bs) of
        None \<Rightarrow>
          (case drain parse (drop (pmr_size (parse bs)) bs) of
             (ms, rest, ec) \<Rightarrow> (pmr_message (parse bs) # ms, rest, ec))
      | Some ec \<Rightarrow> if ec = Client needs_more then ([], bs, None) else ([], bs, Some ec))"
proof -
  have "take_messages parse (length bs) (drop (pmr_size (parse bs)) bs) =
      take_messages parse (Suc (length (drop (pmr_size (parse bs)) bs))) (drop (pmr_size (parse bs)) bs)"
    if "pmr_ec (parse bs) = None"
    using complete_size [OF that] by (intro take_messages_fuel) auto
  then show ?thesis
    unfolding drain_def by (simp split: option.split)
qed

text \<open>
  Cutting the stream anywhere does not matter: draining a prefix and then the rest of it with the
  following bytes gives the messages of the whole.
\<close>

lemma drain_append:
  "drain parse (xs @ ys) =
     (case drain parse xs of
        (ms, rest, None) \<Rightarrow>
          (case drain parse (rest @ ys) of (ms', rest', ec) \<Rightarrow> (ms @ ms', rest', ec))
      | (ms, rest, Some ec) \<Rightarrow> (ms, rest @ ys, Some ec))"
proof (induction "length xs" arbitrary: xs rule: less_induct)
  case less
  show ?case
  proof (cases "pmr_ec (parse xs)")
    case None
    let ?n = "pmr_size (parse xs)"
    have n: "0 < ?n" "?n \<le> length xs" using complete_size [OF None] by auto
    have st: "parse (xs @ ys) = parse xs" using None by (intro stable) simp
    have "drain parse (drop ?n xs @ ys) =
        (case drain parse (drop ?n xs) of
           (ms, rest, None) \<Rightarrow>
             (case drain parse (rest @ ys) of (ms', rest', ec) \<Rightarrow> (ms @ ms', rest', ec))
         | (ms, rest, Some ec) \<Rightarrow> (ms, rest @ ys, Some ec))"
      using n by (intro less) auto
    then show ?thesis
      using None n
      by (simp add: drain_unfold [of "xs @ ys"] drain_unfold [of xs] st split: prod.split option.split)
  next
    case (Some ec)
    show ?thesis
    proof (cases "ec = Client needs_more")
      case True
      with Some show ?thesis by (simp add: drain_unfold [of xs] split: prod.split)
    next
      case False
      with Some have "parse (xs @ ys) = parse xs" by (intro stable) simp
      with Some False show ?thesis
        by (simp add: drain_unfold [of xs] drain_unfold [of "xs @ ys"])
    qed
  qed
qed

end

section \<open>Headers\<close>

lemma header_size:
  assumes "parse_header bs = Inr h"
  shows "4 \<le> unat (mh_size h)" and "unat (mh_size h + 1) = unat (mh_size h) + 1"
proof -
  from assms have s: "4 \<le> sint (mh_size h)"
    by (auto simp: parse_header_def Let_def split: if_splits)
  then have u: "sint (mh_size h) = int (unat (mh_size h))"
    by (intro sint_nonneg_unat) simp
  with s show "4 \<le> unat (mh_size h)" by linarith
  have "unat (mh_size h) \<le> int32_max"
    using s by (intro unat_le_int32_max) simp
  then show "unat (mh_size h + 1) = unat (mh_size h) + 1"
    by (simp add: unat_word_ariths int32_max_def)
qed

lemma parse_message_short:
  "length bs < 5 \<Longrightarrow> parse_message bs =
     \<lparr>pmr_ec = Some (Client needs_more), pmr_message = No_message, pmr_size = 5 - length bs\<rparr>"
  by (simp add: parse_message_def)

lemma parse_message_cases:
  obtains (short) "length bs < 5"
  | (bad_header) ec where "5 \<le> length bs" "parse_header (take 5 bs) = Inl ec" "ec \<noteq> Client needs_more"
  | (partial) h where "5 \<le> length bs" "parse_header (take 5 bs) = Inr h" "length bs < unat (mh_size h) + 1"
  | (whole) h where "5 \<le> length bs" "parse_header (take 5 bs) = Inr h" "unat (mh_size h) + 1 \<le> length bs"
proof (cases "length bs < 5")
  case False
  then show ?thesis
  proof (cases "parse_header (take 5 bs)")
    case (Inl ec)
    then have "ec \<noteq> Client needs_more" by (auto simp: parse_header_def Let_def split: if_splits)
    with Inl False show ?thesis using bad_header by simp
  next
    case (Inr h)
    with False show ?thesis using partial whole by (cases "length bs < unat (mh_size h) + 1") auto
  qed
qed (rule short)

lemma parse_message_bad_header:
  "5 \<le> length bs \<Longrightarrow> parse_header (take 5 bs) = Inl ec \<Longrightarrow>
     parse_message bs = \<lparr>pmr_ec = Some ec, pmr_message = No_message, pmr_size = 0\<rparr>"
  by (simp add: parse_message_def)

lemma parse_message_partial:
  "5 \<le> length bs \<Longrightarrow> parse_header (take 5 bs) = Inr h \<Longrightarrow> length bs < unat (mh_size h) + 1 \<Longrightarrow>
     parse_message bs = \<lparr>pmr_ec = Some (Client needs_more), pmr_message = No_message,
       pmr_size = unat (mh_size h) + 1 - length bs\<rparr>"
  by (simp add: parse_message_def header_size Let_def)

lemma parse_message_whole:
  "5 \<le> length bs \<Longrightarrow> parse_header (take 5 bs) = Inr h \<Longrightarrow> unat (mh_size h) + 1 \<le> length bs \<Longrightarrow>
     parse_message bs =
       (case parse_any_message (mh_type h) (take (unat (mh_size h) - 4) (drop 5 bs)) of
          Inl ec \<Rightarrow> \<lparr>pmr_ec = Some ec, pmr_message = No_message, pmr_size = 0\<rparr>
        | Inr msg \<Rightarrow> \<lparr>pmr_ec = None, pmr_message = msg, pmr_size = unat (mh_size h) + 1\<rparr>)"
  by (simp add: parse_message_def header_size Let_def split: sum.split)

lemma whole_not_needs_more:
  assumes "5 \<le> length bs" "parse_header (take 5 bs) = Inr h" "unat (mh_size h) + 1 \<le> length bs"
  shows "pmr_ec (parse_message bs) \<noteq> Some (Client needs_more)"
  using parse_message_whole [OF assms] parse_any_message_error by (auto split: sum.splits)

lemma needs_more_iff:
  "pmr_ec (parse_message bs) = Some (Client needs_more) \<longleftrightarrow> 0 < message_missing_bytes bs"
  and missing_bytes_eq:
  "0 < message_missing_bytes bs \<Longrightarrow> pmr_size (parse_message bs) = message_missing_bytes bs"
  by (cases bs rule: parse_message_cases;
      simp add: parse_message_short parse_message_bad_header parse_message_partial
        whole_not_needs_more message_missing_bytes_def header_size Let_def)+

lemma missing_bytes_append:
  "length cs < message_missing_bytes bs \<Longrightarrow> 0 < message_missing_bytes (bs @ cs)"
  by (cases bs rule: parse_message_cases)
    (auto simp: message_missing_bytes_def header_size Let_def split: sum.splits)

lemma parse_message_stable:
  assumes "pmr_ec (parse_message bs) \<noteq> Some (Client needs_more)"
  shows "parse_message (bs @ cs) = parse_message bs"
  using assms
  by (cases bs rule: parse_message_cases)
    (simp_all add: parse_message_short parse_message_bad_header parse_message_partial
      parse_message_whole)

interpretation msg: framing parse_message
proof unfold_locales
  fix bs assume "pmr_ec (parse_message bs) = None"
  then show "0 < pmr_size (parse_message bs) \<and> pmr_size (parse_message bs) \<le> length bs"
    by (cases bs rule: parse_message_cases)
      (auto simp: parse_message_short parse_message_bad_header parse_message_partial
        parse_message_whole split: sum.splits)
qed (use needs_more_iff missing_bytes_eq missing_bytes_append parse_message_stable in auto)

section \<open>Properties\<close>

text \<open>
  The two framing functions agree on every buffer: \<^verbatim>\<open>message_missing_bytes\<close> is zero exactly when
  \<^verbatim>\<open>parse_message\<close> has a verdict (a message or a protocol error), and otherwise both report the same
  number of missing bytes.
\<close>

theorem missing_bytes_agrees:
  "message_missing_bytes bs =
     (if pmr_ec (parse_message bs) = Some (Client needs_more) then pmr_size (parse_message bs) else 0)"
  using needs_more_iff [of bs] missing_bytes_eq [of bs] by simp

text \<open>
  The number of missing bytes is never too large and never zero when a message is incomplete:
  with fewer extra bytes than reported the message is still incomplete.
\<close>

lemma missing_bytes_minimal:
  assumes "pmr_ec (parse_message bs) = Some (Client needs_more)"
    and "length extra < pmr_size (parse_message bs)"
  shows "pmr_ec (parse_message (bs @ extra)) = Some (Client needs_more) \<and>
    0 < pmr_size (parse_message (bs @ extra))"
  using msg.missing_exact [OF assms] msg.missing_positive by simp

fun drain_chunks :: "(bytes \<Rightarrow> parse_message_result) \<Rightarrow> bytes \<Rightarrow> bytes list \<Rightarrow>
    any_backend_message list \<times> bytes \<times> error_code option" where
  "drain_chunks parse buf [] = drain parse buf"
| "drain_chunks parse buf (c # cs) =
     (case drain parse buf of
        (ms, rest, Some ec) \<Rightarrow> (ms, rest @ concat (c # cs), Some ec)
      | (ms, rest, None) \<Rightarrow>
          (case drain_chunks parse (rest @ c) cs of (ms', rest', ec) \<Rightarrow> (ms @ ms', rest', ec)))"

text \<open>
  C26. The messages decoded from a connection do not depend on how the network splits the stream into
  reads: taking the complete messages after every read gives the same messages, the same left-over
  bytes and the same error as one read of the whole stream.
\<close>

theorem chunking_independent:
  "drain_chunks parse_message buf chunks = drain parse_message (buf @ concat chunks)"
proof (induction chunks arbitrary: buf)
  case (Cons c cs)
  show ?case
    by (simp add: msg.drain_append [of buf] Cons split: prod.split option.split)
qed simp

lemma parse_framed:
  assumes "length body \<le> int32_max - 4"
  shows "parse_message (t # store_big_s32 (word_of_nat (length body + 4)) @ body @ rest) =
    (case parse_any_message t body of
       Inl ec \<Rightarrow> \<lparr>pmr_ec = Some ec, pmr_message = No_message, pmr_size = 0\<rparr>
     | Inr msg \<Rightarrow> \<lparr>pmr_ec = None, pmr_message = msg, pmr_size = length body + 5\<rparr>)"
proof -
  let ?w = "word_of_nat (length body + 4) :: int32"
  have n: "length body + 4 \<le> int32_max" using assms by (simp add: int32_max_def)
  have u: "unat ?w = length body + 4" "sint ?w = int (length body + 4)"
    using n by (simp_all only: sint_of_length unat_of_length)
  have h: "parse_header (take 5 (t # store_big_s32 ?w @ body @ rest)) = Inr \<lparr>mh_type = t, mh_size = ?w\<rparr>"
    using u by (simp add: parse_header_def load_store_s32 Let_def del: of_nat_add)
  show ?thesis
    using u by (subst parse_message_whole [OF _ h]) (simp_all del: of_nat_add split: sum.split)
qed

text \<open>
  A message with a well-formed frame is cut exactly at its end: whatever follows it in the buffer,
  the parser sees the message's own body and reports the frame's size.
\<close>

theorem parse_message_frame:
  assumes "length body \<le> int32_max - 4"
  shows "parse_message (t # store_big_s32 (word_of_nat (length body + 4)) @ body @ rest) =
    (case parse_any_message t body of
       Inl ec \<Rightarrow> \<lparr>pmr_ec = Some ec, pmr_message = No_message, pmr_size = 0\<rparr>
     | Inr msg \<Rightarrow> \<lparr>pmr_ec = None, pmr_message = msg, pmr_size = length body + 5\<rparr>)"
  using assms by (rule parse_framed)

theorem parse_message_frame_witness:
  "parse_message (0x5a # store_big_s32 (word_of_nat (length [0x49 :: byte] + 4)) @ [0x49] @ [1, 2]) =
    (case parse_any_message 0x5a [0x49] of
       Inl ec \<Rightarrow> \<lparr>pmr_ec = Some ec, pmr_message = No_message, pmr_size = 0\<rparr>
     | Inr msg \<Rightarrow> \<lparr>pmr_ec = None, pmr_message = msg, pmr_size = length [0x49 :: byte] + 5\<rparr>)"
  by (rule parse_message_frame) (simp add: int32_max_def)

end
