(* ===== verification/Pg_Read_Buffer.thy ===== *)
theory Pg_Read_Buffer
  imports Pg_Prelude
begin

text \<open>
  The read buffer of \<^verbatim>\<open>protocol/detail/read_buffer.hpp\<close>: one block of memory with a consumed, a
  committed and a prepared area. The contents of freshly allocated memory are indeterminate in C++;
  \<open>alloc\<close> stands for them, a function from the size of the allocation to its bytes. The locale
  \<open>stream_buffer\<close> is the interface the state machines use: what a reader sees is a queue of bytes.
\<close>

section \<open>Powers of two\<close>

text \<open>\<^verbatim>\<open>std::bit_ceil\<close>.\<close>

fun bit_ceil :: "nat \<Rightarrow> nat" where
  "bit_ceil n = (if n \<le> 1 then 1 else 2 * bit_ceil ((n + 1) div 2))"

declare bit_ceil.simps [simp del]

definition next_power_of_2 :: "nat \<Rightarrow> nat" where
  "next_power_of_2 n = (if n \<le> size_max div 2 + 1 then bit_ceil n else size_max)"

lemma bit_ceil_ge: "n \<le> bit_ceil n"
  by (induction n rule: bit_ceil.induct) (subst bit_ceil.simps, auto)

lemma bit_ceil_power: "\<exists>k. bit_ceil n = 2 ^ k"
  by (induction n rule: bit_ceil.induct)
    (subst bit_ceil.simps, metis power_0 power_Suc)

lemma bit_ceil_least: "n \<le> 2 ^ k \<Longrightarrow> bit_ceil n \<le> 2 ^ k"
proof (induction n arbitrary: k rule: bit_ceil.induct)
  case (1 n)
  show ?case
  proof (cases "n \<le> 1")
    case True
    then show ?thesis by (subst bit_ceil.simps) simp
  next
    case False
    then obtain j where k: "k = Suc j" using "1.prems" by (cases k) auto
    then have "(n + 1) div 2 \<le> 2 ^ j" using "1.prems" by simp
    then show ?thesis using "1.IH" [OF False, of j] False by (subst bit_ceil.simps) (simp add: k)
  qed
qed

lemma next_power_of_2_ge: "n \<le> size_max \<Longrightarrow> n \<le> next_power_of_2 n"
  by (simp add: next_power_of_2_def bit_ceil_ge)

text \<open>
  \<^verbatim>\<open>next_power_of_2\<close> returns a value that fits \<^verbatim>\<open>size_t\<close> and is not less than its argument: the
  least power of two with this property up to \<^verbatim>\<open>2^63\<close>, and the largest \<^verbatim>\<open>size_t\<close> above, where no
  power of two fits.
\<close>

theorem next_power_of_2_correct:
  assumes "n \<le> size_max"
  shows "n \<le> next_power_of_2 n \<and> next_power_of_2 n \<le> size_max \<and> 0 < next_power_of_2 n \<and>
    (if n \<le> 2 ^ 63 then (\<exists>k. next_power_of_2 n = 2 ^ k) \<and> (\<forall>k. n \<le> 2 ^ k \<longrightarrow> next_power_of_2 n \<le> 2 ^ k)
     else \<forall>k. n \<le> 2 ^ k \<longrightarrow> size_max < 2 ^ k)"
proof (cases "n \<le> 2 ^ 63")
  case True
  then have eq: "next_power_of_2 n = bit_ceil n" by (simp add: next_power_of_2_def size_max_def)
  obtain k where "bit_ceil n = 2 ^ k" using bit_ceil_power by blast
  moreover have "bit_ceil n \<le> 2 ^ 63" by (rule bit_ceil_least [OF True])
  ultimately show ?thesis
    using True bit_ceil_ge [of n] bit_ceil_least [of n]
    by (simp add: eq size_max_def del: power_increasing_iff)
next
  case False
  have "size_max < 2 ^ k" if "n \<le> 2 ^ k" for k
  proof -
    have "(2::nat) ^ 63 < 2 ^ k" using False that by simp
    then have "64 \<le> k" by (simp add: power_strict_increasing_iff del: power_numeral)
    then have "(2::nat) ^ 64 \<le> 2 ^ k" by (rule power_increasing) simp
    then show ?thesis by (simp add: size_max_def)
  qed
  then show ?thesis using False assms by (auto simp: next_power_of_2_def size_max_def)
qed

theorem next_power_of_2_correct_witness:
  "100 \<le> next_power_of_2 100 \<and> next_power_of_2 100 \<le> size_max \<and> 0 < next_power_of_2 100 \<and>
   (\<exists>k. next_power_of_2 100 = 2 ^ k) \<and> next_power_of_2 100 \<le> 2 ^ 7"
proof -
  have "100 \<le> size_max" "(100::nat) \<le> 2 ^ 63" "(100::nat) \<le> 2 ^ 7" by (simp_all add: size_max_def)
  then show ?thesis using next_power_of_2_correct [of 100] by metis
qed

section \<open>The buffer\<close>

record read_buffer =
  rb_size :: nat
  rb_committed_offset :: nat
  rb_prepared_offset :: nat
  rb_buffer :: bytes

definition read_buffer_init :: "(nat \<Rightarrow> bytes) \<Rightarrow> nat \<Rightarrow> read_buffer" where
  "read_buffer_init alloc initial_size =
     (let size = next_power_of_2 initial_size
      in \<lparr>rb_size = size, rb_committed_offset = 0, rb_prepared_offset = 0, rb_buffer = alloc size\<rparr>)"

definition rb_reset :: "read_buffer \<Rightarrow> read_buffer" where
  "rb_reset b = b\<lparr>rb_committed_offset := 0, rb_prepared_offset := 0\<rparr>"

definition committed_area :: "read_buffer \<Rightarrow> bytes" where
  "committed_area b =
     take (rb_prepared_offset b - rb_committed_offset b) (drop (rb_committed_offset b) (rb_buffer b))"

definition prepared_area_size :: "read_buffer \<Rightarrow> nat" where
  "prepared_area_size b = rb_size b - rb_prepared_offset b"

definition prepare :: "(nat \<Rightarrow> bytes) \<Rightarrow> nat \<Rightarrow> read_buffer \<Rightarrow> read_buffer" where
  "prepare alloc required b =
     (let old_prepared_size = prepared_area_size b
      in if old_prepared_size \<ge> required then b
         else
           (let consumed_size = rb_committed_offset b;
                committed = committed_area b
            in if consumed_size + old_prepared_size \<ge> required
               then b\<lparr>rb_buffer := store_at 0 committed (rb_buffer b),
                       rb_committed_offset := 0,
                       rb_prepared_offset := rb_prepared_offset b - consumed_size\<rparr>
               else
                 (let new_size = next_power_of_2 ((length committed + required) mod 2 ^ 64);
                      new_data = store_at 0 committed (alloc new_size)
                  in \<lparr>rb_size = new_size, rb_committed_offset = 0,
                       rb_prepared_offset = length committed, rb_buffer = new_data\<rparr>)))"

definition rb_commit :: "nat \<Rightarrow> read_buffer \<Rightarrow> read_buffer" where
  "rb_commit n b = b\<lparr>rb_prepared_offset := rb_prepared_offset b + min n (prepared_area_size b)\<rparr>"

definition rb_consume :: "nat \<Rightarrow> read_buffer \<Rightarrow> read_buffer" where
  "rb_consume n b =
     b\<lparr>rb_committed_offset := rb_committed_offset b + min n (length (committed_area b))\<rparr>"

text \<open>A read operation of the transport fills the start of the prepared area.\<close>

definition fill_prepared :: "bytes \<Rightarrow> read_buffer \<Rightarrow> read_buffer" where
  "fill_prepared bs b = b\<lparr>rb_buffer := store_at (rb_prepared_offset b) bs (rb_buffer b)\<rparr>"

section \<open>The invariant\<close>

definition rb_inv :: "read_buffer \<Rightarrow> bool" where
  "rb_inv b \<longleftrightarrow> rb_committed_offset b \<le> rb_prepared_offset b \<and> rb_prepared_offset b \<le> rb_size b \<and>
     length (rb_buffer b) = rb_size b"

lemma length_committed_area:
  "rb_inv b \<Longrightarrow> length (committed_area b) = rb_prepared_offset b - rb_committed_offset b"
  by (auto simp: rb_inv_def committed_area_def min_def)

lemma init_inv:
  "(\<And>n. length (alloc n) = n) \<Longrightarrow>
   rb_inv (read_buffer_init alloc n) \<and> committed_area (read_buffer_init alloc n) = []"
  by (simp add: read_buffer_init_def rb_inv_def committed_area_def Let_def)

lemma reset_inv: "rb_inv b \<Longrightarrow> rb_inv (rb_reset b) \<and> committed_area (rb_reset b) = []"
  by (simp add: rb_reset_def rb_inv_def committed_area_def)

lemma consume_inv:
  assumes "rb_inv b"
  shows "rb_inv (rb_consume n b) \<and> committed_area (rb_consume n b) = drop n (committed_area b)"
proof
  show "rb_inv (rb_consume n b)"
    using assms length_committed_area [OF assms] by (auto simp: rb_consume_def rb_inv_def)
  show "committed_area (rb_consume n b) = drop n (committed_area b)"
    using length_committed_area [OF assms]
    by (simp add: rb_consume_def committed_area_def drop_take add.commute min_def)
qed

lemma fill_commit_inv:
  assumes "rb_inv b" and "length bs \<le> prepared_area_size b"
  shows "rb_inv (rb_commit (length bs) (fill_prepared bs b)) \<and>
    committed_area (rb_commit (length bs) (fill_prepared bs b)) = committed_area b @ bs"
proof -
  let ?c = "rb_committed_offset b" and ?p = "rb_prepared_offset b"
  have le: "?c \<le> ?p" "?p + length bs \<le> length (rb_buffer b)"
    using assms by (auto simp: rb_inv_def prepared_area_size_def)
  have "take (?p + length bs - ?c) (drop ?c (store_at ?p bs (rb_buffer b))) =
      take (?p - ?c) (drop ?c (rb_buffer b)) @ bs"
    using le by (simp add: store_at_def drop_take take_append)
  then show ?thesis
    using assms le
    by (simp add: rb_commit_def fill_prepared_def rb_inv_def prepared_area_size_def committed_area_def
        store_at_def)
qed

text \<open>The buffer after the committed area was moved to the start of a block of memory.\<close>

lemma packed_inv:
  assumes "b = \<lparr>rb_size = s, rb_committed_offset = 0, rb_prepared_offset = length c, rb_buffer = store_at 0 c mem\<rparr>"
    and "length c \<le> s" and "length mem = s"
  shows "rb_inv b \<and> committed_area b = c \<and> prepared_area_size b = s - length c"
  using assms by (simp add: rb_inv_def committed_area_def prepared_area_size_def store_at_def)

lemma prepare_inv:
  assumes alloc: "\<And>n. length (alloc n) = n" and inv: "rb_inv b"
    and fits: "length (committed_area b) + required \<le> size_max"
  shows "rb_inv (prepare alloc required b) \<and>
    committed_area (prepare alloc required b) = committed_area b \<and>
    required \<le> prepared_area_size (prepare alloc required b)"
proof -
  note len = length_committed_area [OF inv]
  let ?c = "committed_area b"
  consider "required \<le> prepared_area_size b"
    | "prepared_area_size b < required" "required \<le> rb_committed_offset b + prepared_area_size b"
    | "rb_committed_offset b + prepared_area_size b < required" by linarith
  then show ?thesis
  proof cases
    case 1
    then show ?thesis using inv by (simp add: prepare_def)
  next
    case 2
    have "prepare alloc required b = \<lparr>rb_size = rb_size b, rb_committed_offset = 0,
        rb_prepared_offset = length ?c, rb_buffer = store_at 0 ?c (rb_buffer b)\<rparr>"
      using 2 len by (simp add: prepare_def)
    moreover have "length ?c \<le> rb_size b" "length (rb_buffer b) = rb_size b"
      using inv len by (auto simp: rb_inv_def)
    ultimately have "rb_inv (prepare alloc required b) \<and> committed_area (prepare alloc required b) = ?c \<and>
      prepared_area_size (prepare alloc required b) = rb_size b - length ?c"
      by (rule packed_inv)
    then show ?thesis
      using 2(2) inv len unfolding prepared_area_size_def [of b] by (auto simp: rb_inv_def)
  next
    case 3
    define m where "m = next_power_of_2 ((length ?c + required) mod 2 ^ 64)"
    have eq: "prepare alloc required b = \<lparr>rb_size = m, rb_committed_offset = 0,
        rb_prepared_offset = length ?c, rb_buffer = store_at 0 ?c (alloc m)\<rparr>"
      using 3 by (simp add: prepare_def m_def Let_def)
    have "(length ?c + required) mod 2 ^ 64 = length ?c + required"
      using fits by (simp add: size_max_def)
    then have "length ?c + required \<le> m"
      unfolding m_def using next_power_of_2_ge [OF fits] by simp
    then show ?thesis using packed_inv [OF eq] alloc by simp
  qed
qed

section \<open>The interface\<close>

text \<open>
  A stream buffer: making room and consuming leave the rest of the content alone, and received bytes
  are appended to it. What a client may do with it is the queue of bytes it would be.
\<close>

locale stream_buffer =
  fixes inv :: "'b \<Rightarrow> bool"
    and content :: "'b \<Rightarrow> bytes"
    and room :: "'b \<Rightarrow> nat"
    and make_room :: "nat \<Rightarrow> 'b \<Rightarrow> 'b"
    and receive :: "bytes \<Rightarrow> 'b \<Rightarrow> 'b"
    and discard :: "nat \<Rightarrow> 'b \<Rightarrow> 'b"
    and limit :: nat
  assumes make_room: "inv b \<Longrightarrow> length (content b) + n \<le> limit \<Longrightarrow>
      inv (make_room n b) \<and> content (make_room n b) = content b \<and> n \<le> room (make_room n b)"
    and receive: "inv b \<Longrightarrow> length bs \<le> room b \<Longrightarrow>
      inv (receive bs b) \<and> content (receive bs b) = content b @ bs"
    and discard: "inv b \<Longrightarrow> inv (discard n b) \<and> content (discard n b) = drop n (content b)"
begin

text \<open>Receiving into room made for a hint, with a transfer of any size that fits.\<close>

lemma make_room_receive:
  assumes "inv b" and "length (content b) + n \<le> limit" and "length bs \<le> room (make_room n b)"
  shows "inv (receive bs (make_room n b)) \<and> content (receive bs (make_room n b)) = content b @ bs"
  using assms make_room receive by simp

end

text \<open>
  The buffer of the program is such a stream buffer, whatever the contents of fresh memory: the
  allocator is carried along with the buffer and only has to return blocks of the size it was asked
  for.
\<close>

definition rb_env_inv :: "(nat \<Rightarrow> bytes) \<times> read_buffer \<Rightarrow> bool" where
  "rb_env_inv = (\<lambda>(alloc, b). (\<forall>n. length (alloc n) = n) \<and> rb_inv b)"

interpretation rb: stream_buffer rb_env_inv "committed_area \<circ> snd" "prepared_area_size \<circ> snd"
  "\<lambda>n (alloc, b). (alloc, prepare alloc n b)"
  "\<lambda>bs (alloc, b). (alloc, rb_commit (length bs) (fill_prepared bs b))"
  "\<lambda>n (alloc, b). (alloc, rb_consume n b)" size_max
proof
  show "rb_env_inv b \<Longrightarrow> length ((committed_area \<circ> snd) b) + n \<le> size_max \<Longrightarrow>
    rb_env_inv (case b of (alloc, b) \<Rightarrow> (alloc, prepare alloc n b)) \<and>
    (committed_area \<circ> snd) (case b of (alloc, b) \<Rightarrow> (alloc, prepare alloc n b)) = (committed_area \<circ> snd) b \<and>
    n \<le> (prepared_area_size \<circ> snd) (case b of (alloc, b) \<Rightarrow> (alloc, prepare alloc n b))" for b n
    using prepare_inv by (cases b) (auto simp: rb_env_inv_def)
qed (auto simp: rb_env_inv_def fill_commit_inv consume_inv split: prod.splits)

text \<open>
  C28. The read buffer loses and invents no byte: \<^verbatim>\<open>prepare\<close> keeps the committed bytes and makes the
  room it was asked for, whether it moves or reallocates, a transfer of any size that fits appends
  exactly the received bytes, and \<^verbatim>\<open>consume\<close> removes exactly the first bytes; all keep the offsets
  inside the block.
\<close>

theorem read_buffer_is_byte_queue:
  assumes "\<And>n. length (alloc n) = n" and "rb_inv b"
    and "length (committed_area b) + required \<le> size_max"
    and "length bs \<le> prepared_area_size (prepare alloc required b)"
  shows "required \<le> prepared_area_size (prepare alloc required b) \<and>
    rb_inv (rb_commit (length bs) (fill_prepared bs (prepare alloc required b))) \<and>
    committed_area (rb_commit (length bs) (fill_prepared bs (prepare alloc required b))) =
      committed_area b @ bs \<and>
    rb_inv (rb_consume n b) \<and> committed_area (rb_consume n b) = drop n (committed_area b)"
  using rb.make_room_receive [of "(alloc, b)" required bs] prepare_inv [OF assms(1-3)]
    rb.discard [of "(alloc, b)" n] assms by (simp add: rb_env_inv_def)

theorem read_buffer_is_byte_queue_witness:
  "2 \<le> prepared_area_size (prepare (\<lambda>n. replicate n 0) 2 \<lparr>rb_size = 2, rb_committed_offset = 1,
     rb_prepared_offset = 2, rb_buffer = [7, 8]\<rparr>)"
  using read_buffer_is_byte_queue [of "\<lambda>n. replicate n 0" "\<lparr>rb_size = 2, rb_committed_offset = 1,
     rb_prepared_offset = 2, rb_buffer = [7, 8]\<rparr>" 2 "[]"]
  by (simp add: rb_inv_def committed_area_def size_max_def)

end
