(* ===== verification/Pg_Serialization.thy ===== *)
theory Pg_Serialization
  imports Pg_Backend
begin

text \<open>
  The writer of \<^verbatim>\<open>detail/serialization_context.hpp\<close>, the structures of the messages a frontend may
  send and the serializing half of \<^verbatim>\<open>messages.cpp\<close>. A serializer appends to the caller's buffer and
  returns an error code. Offsets into the buffer are 64-bit words, because the code uses the value
  \<^verbatim>\<open>size_t(-1)\<close> for "no message in progress" and computes with it.
\<close>

section \<open>The serialization context\<close>

record serialization_context =
  sc_buffer :: bytes
  sc_header_offset :: uint64
  sc_err :: "error_code option"

definition no_offset :: uint64 where
  "no_offset = -1"

definition serialization_context_init :: "bytes \<Rightarrow> serialization_context" where
  "serialization_context_init buff =
     \<lparr>sc_buffer = buff, sc_header_offset = no_offset, sc_err = None\<rparr>"

definition sc_add_error :: "error_code option \<Rightarrow> serialization_context \<Rightarrow> serialization_context" where
  "sc_add_error ec c = c\<lparr>sc_err := keep_first (sc_err c) ec\<rparr>"

definition add_bytes :: "bytes \<Rightarrow> serialization_context \<Rightarrow> serialization_context" where
  "add_bytes contents c = c\<lparr>sc_buffer := sc_buffer c @ contents\<rparr>"

definition add_byte :: "byte \<Rightarrow> serialization_context \<Rightarrow> serialization_context" where
  "add_byte b c = c\<lparr>sc_buffer := sc_buffer c @ [b]\<rparr>"

definition add_int16 :: "int16 \<Rightarrow> serialization_context \<Rightarrow> serialization_context" where
  "add_int16 v = add_bytes (store_big_s16 v)"

definition add_int32 :: "int32 \<Rightarrow> serialization_context \<Rightarrow> serialization_context" where
  "add_int32 v = add_bytes (store_big_s32 v)"

definition add_string :: "string_view \<Rightarrow> serialization_context \<Rightarrow> serialization_context" where
  "add_string s c = add_byte 0 (add_bytes s c)"

definition add_header :: "byte \<Rightarrow> serialization_context \<Rightarrow> serialization_context" where
  "add_header msg_type c =
     (let c1 = c\<lparr>sc_header_offset := word_of_nat (length (sc_buffer c))\<rparr>;
          c2 = add_byte msg_type c1
      in add_bytes [0, 0, 0, 0] c2)"

definition finalize_message :: "serialization_context \<Rightarrow> error_code option \<times> serialization_context" where
  "finalize_message c =
     (if sc_err c \<noteq> None then (sc_err c, c)
      else
        (let size = word_of_nat (length (sc_buffer c)) - sc_header_offset c - 1
         in if unat size > int32_max then (sc_err c, c)
            else (None,
              c\<lparr>sc_buffer := store_at (unat (sc_header_offset c + 1)) (store_big_s32 (ucast size)) (sc_buffer c),
                sc_header_offset := no_offset\<rparr>)))"

text \<open>The common end of the serializers: the error code and the caller's buffer.\<close>

definition finish :: "serialization_context \<Rightarrow> error_code option \<times> bytes" where
  "finish c = (case finalize_message c of (ec, c') \<Rightarrow> (ec, sc_buffer c'))"

section \<open>Frontend messages\<close>

datatype portal_or_statement = statement | portal

definition portal_or_statement_byte :: "portal_or_statement \<Rightarrow> byte" where
  "portal_or_statement_byte t = (case t of statement \<Rightarrow> of_char CHR ''S'' | portal \<Rightarrow> of_char CHR ''P'')"

record describe =
  describe_type :: portal_or_statement
  describe_name :: string_view

record close =
  close_type :: portal_or_statement
  close_name :: string_view

record parse_t =
  parse_statement_name :: string_view
  parse_query :: string_view
  parse_parameter_type_oids :: "int32 list"

record execute =
  execute_portal_name :: string_view
  execute_max_num_rows :: int32

record startup_message =
  startup_user :: string_view
  startup_database :: "string_view option"
  startup_params :: "(string_view \<times> string_view) list"

record cancel_request =
  cancel_process_id :: int32
  cancel_secret_key :: int32

text \<open>\<^verbatim>\<open>format_codes\<close>: one code for all elements, or a list.\<close>

datatype format_codes = all_text | all_binary | format_list "format_code list"

definition format_codes_of :: "format_code \<Rightarrow> format_codes" where
  "format_codes_of v = (if v = format_text then all_text else all_binary)"

definition serialize_describe :: "describe \<Rightarrow> bytes \<Rightarrow> error_code option \<times> bytes" where
  "serialize_describe msg to =
     finish (add_string (describe_name msg)
       (add_byte (portal_or_statement_byte (describe_type msg))
         (add_header (of_char CHR ''D'') (serialization_context_init to))))"

definition serialize_close :: "close \<Rightarrow> bytes \<Rightarrow> error_code option \<times> bytes" where
  "serialize_close msg to =
     finish (add_string (close_name msg)
       (add_byte (portal_or_statement_byte (close_type msg))
         (add_header (of_char CHR ''C'') (serialization_context_init to))))"

definition serialize_parse :: "parse_t \<Rightarrow> bytes \<Rightarrow> error_code option \<times> bytes" where
  "serialize_parse msg to =
     (let c1 = add_header (of_char CHR ''P'') (serialization_context_init to);
          c2 = add_string (parse_statement_name msg) c1;
          c3 = add_string (parse_query msg) c2
      in if length (parse_parameter_type_oids msg) > int16_max
         then (let c4 = sc_add_error (Some (Client value_too_big)) c3 in (sc_err c4, sc_buffer c4))
         else
           (let c4 = add_int16 (word_of_nat (length (parse_parameter_type_oids msg))) c3
            in finish (fold add_int32 (parse_parameter_type_oids msg) c4)))"

definition serialize_copy_fail :: "string_view \<Rightarrow> bytes \<Rightarrow> error_code option \<times> bytes" where
  "serialize_copy_fail error_message to =
     finish (add_string error_message (add_header (of_char CHR ''f'') (serialization_context_init to)))"

definition serialize_copy_done :: "bytes \<Rightarrow> error_code option \<times> bytes" where
  "serialize_copy_done to = finish (add_header (of_char CHR ''c'') (serialization_context_init to))"

definition serialize_execute :: "execute \<Rightarrow> bytes \<Rightarrow> error_code option \<times> bytes" where
  "serialize_execute msg to =
     finish (add_int32 (execute_max_num_rows msg)
       (add_string (execute_portal_name msg)
         (add_header (of_char CHR ''E'') (serialization_context_init to))))"

definition serialize_header_only :: "byte \<Rightarrow> bytes \<Rightarrow> error_code option \<times> bytes" where
  "serialize_header_only header to =
     (case serialize_header \<lparr>mh_type = header, mh_size = 4\<rparr> of
        Inl ec \<Rightarrow> (Some ec, to)
      | Inr buff \<Rightarrow> (None, to @ buff))"

definition serialize_flush :: "bytes \<Rightarrow> error_code option \<times> bytes" where
  "serialize_flush to = serialize_header_only (of_char CHR ''H'') to"

definition serialize_sync :: "bytes \<Rightarrow> error_code option \<times> bytes" where
  "serialize_sync to = serialize_header_only (of_char CHR ''S'') to"

definition serialize_terminate :: "bytes \<Rightarrow> error_code option \<times> bytes" where
  "serialize_terminate to = serialize_header_only (of_char CHR ''X'') to"

definition serialize_password :: "string_view \<Rightarrow> bytes \<Rightarrow> error_code option \<times> bytes" where
  "serialize_password pw to =
     finish (add_string pw (add_header (of_char CHR ''p'') (serialization_context_init to)))"

definition serialize_query :: "string_view \<Rightarrow> bytes \<Rightarrow> error_code option \<times> bytes" where
  "serialize_query q to =
     finish (add_string q (add_header (of_char CHR ''Q'') (serialization_context_init to)))"

definition serialize_startup_message :: "startup_message \<Rightarrow> bytes \<Rightarrow> error_code option \<times> bytes" where
  "serialize_startup_message msg to =
     (let length_offset = length to;
          c1 = add_bytes [0, 0, 0, 0] (serialization_context_init to);
          c2 = add_int32 196608 c1;
          c3 = add_string (startup_user msg) (add_string (of_str ''user'') c2);
          c4 = (case startup_database msg of
                  None \<Rightarrow> c3
                | Some db \<Rightarrow> add_string db (add_string (of_str ''database'') c3));
          c5 = fold (\<lambda>p c. add_string (snd p) (add_string (fst p) c)) (startup_params msg) c4;
          c6 = add_byte 0 c5;
          msg_length = length (sc_buffer c6) - length_offset;
          c7 = (if msg_length > int32_max then sc_add_error (Some (Client value_too_big)) c6 else c6)
      in if sc_err c7 \<noteq> None then (sc_err c7, sc_buffer c7)
         else (None, store_at length_offset (store_big_s32 (word_of_nat msg_length)) (sc_buffer c7)))"

definition serialize_cancel_request :: "cancel_request \<Rightarrow> bytes \<Rightarrow> error_code option \<times> bytes" where
  "serialize_cancel_request msg to =
     finish (add_int32 (cancel_secret_key msg)
       (add_int32 (cancel_process_id msg)
         (add_int32 80877102 (add_int32 16 (serialization_context_init to)))))"

definition serialize_ssl_request :: "bytes \<Rightarrow> error_code option \<times> bytes" where
  "serialize_ssl_request to = finish (add_int32 80877103 (serialization_context_init to))"

section \<open>Bind\<close>

record bind_context =
  bc_num_params :: nat
  bc_param_offset :: uint64
  bc_buff :: bytes
  bc_err :: "error_code option"

definition bind_context_init :: "bytes \<Rightarrow> bind_context" where
  "bind_context_init buff =
     \<lparr>bc_num_params = 0, bc_param_offset = no_offset, bc_buff = buff, bc_err = None\<rparr>"

definition bc_add_error :: "error_code option \<Rightarrow> bind_context \<Rightarrow> bind_context" where
  "bc_add_error ec b = b\<lparr>bc_err := keep_first (bc_err b) ec\<rparr>"

definition maybe_finish_parameter :: "bind_context \<Rightarrow> bind_context" where
  "maybe_finish_parameter b =
     (if bc_param_offset b = no_offset then b
      else
        (let param_size = word_of_nat (length (bc_buff b)) - bc_param_offset b - 4
         in if unat param_size > int32_max then bc_add_error (Some (Client value_too_big)) b
            else b\<lparr>bc_buff := store_at (unat (bc_param_offset b)) (store_big_s32 (ucast param_size)) (bc_buff b),
                    bc_param_offset := no_offset\<rparr>))"

definition start_parameter :: "bind_context \<Rightarrow> bind_context" where
  "start_parameter b =
     (let b1 = maybe_finish_parameter b
      in b1\<lparr>bc_num_params := bc_num_params b1 + 1,
             bc_param_offset := word_of_nat (length (bc_buff b1)),
             bc_buff := bc_buff b1 @ [0, 0, 0, 0]\<rparr>)"

record bind =
  bind_portal_name :: string_view
  bind_statement_name :: string_view
  bind_parameter_fmt_codes :: format_codes
  bind_parameters_fn :: "bind_context \<Rightarrow> bind_context"
  bind_result_fmt_codes :: format_codes

definition serialize_fmt_codes :: "format_codes \<Rightarrow> serialization_context \<Rightarrow> serialization_context" where
  "serialize_fmt_codes fmt c =
     (case fmt of
        all_text \<Rightarrow> add_int16 0 c
      | all_binary \<Rightarrow> add_int16 1 (add_int16 1 c)
      | format_list codes \<Rightarrow>
          if length codes > int16_max then sc_add_error (Some (Client value_too_big)) c
          else fold add_int16 codes (add_int16 (word_of_nat (length codes)) c))"

definition serialize_params ::
    "(bind_context \<Rightarrow> bind_context) \<Rightarrow> serialization_context \<Rightarrow> serialization_context" where
  "serialize_params parameters_fn c =
     (let num_params_offset = length (sc_buffer c);
          b = maybe_finish_parameter (parameters_fn (bind_context_init (sc_buffer c @ [0, 0])));
          c1 = sc_add_error (bc_err b) (c\<lparr>sc_buffer := bc_buff b\<rparr>)
      in if bc_num_params b > int16_max then sc_add_error (Some (Client value_too_big)) c1
         else c1\<lparr>sc_buffer := store_at num_params_offset
                  (store_big_s16 (word_of_nat (bc_num_params b))) (sc_buffer c1)\<rparr>)"

definition serialize_bind :: "bind \<Rightarrow> bytes \<Rightarrow> error_code option \<times> bytes" where
  "serialize_bind msg to =
     (let c1 = add_header (of_char CHR ''B'') (serialization_context_init to);
          c2 = add_string (bind_portal_name msg) c1;
          c3 = add_string (bind_statement_name msg) c2;
          c4 = serialize_fmt_codes (bind_parameter_fmt_codes msg) c3;
          c5 = serialize_params (bind_parameters_fn msg) c4;
          c6 = serialize_fmt_codes (bind_result_fmt_codes msg) c5
      in finish c6)"

end
