(* ===== verification/Pg_Serialization_Facts.thy ===== *)
theory Pg_Serialization_Facts
  imports Pg_Serialization Pg_Framing
begin

text \<open>
  What the serializers write. A context with a message in progress is described by the bytes the
  caller had, the type of the message and the body written so far; every writer extends the body and
  \<open>finish\<close> turns it into a frame whose length field counts the body and itself. Two defects of the
  code are theorems here: the messages without a type byte go through the same \<^verbatim>\<open>finalize_message\<close>
  although no header was recorded, and a message too big for its length field is reported as
  serialized.
\<close>

section \<open>Frames\<close>

definition frame :: "byte \<Rightarrow> bytes \<Rightarrow> bytes" where
  "frame t body = t # store_big_s32 (word_of_nat (length body + 4)) @ body"

lemma drain_frame:
  assumes "length body \<le> int32_max - 4" and "parse_any_message t body = Inr m"
  shows "drain parse_message (frame t body @ rest) = (case drain parse_message rest of (ms, r, e) \<Rightarrow> (m # ms, r, e))"
proof -
  have eq: "frame t body @ rest = t # store_big_s32 (word_of_nat (length body + 4)) @ body @ rest"
    by (simp add: frame_def)
  have p: "parse_message (frame t body @ rest) = \<lparr>pmr_ec = None, pmr_message = m, pmr_size = length body + 5\<rparr>"
    unfolding eq by (simp only: parse_framed [OF assms(1)] assms(2) sum.case)
  have d: "drop (length body + 5) (frame t body @ rest) = rest"
    by (simp add: frame_def drop_Cons')
  show ?thesis by (subst msg.drain_unfold) (simp add: p d del: drop_append)
qed

abbreviation in_progress :: "bytes \<Rightarrow> byte \<Rightarrow> bytes \<Rightarrow> serialization_context" where
  "in_progress to t body \<equiv>
     \<lparr>sc_buffer = to @ t # 0 # 0 # 0 # 0 # body, sc_header_offset = word_of_nat (length to), sc_err = None\<rparr>"

lemma add_header_init [ser_simps]:
  "add_header t (serialization_context_init to) = in_progress to t []"
  by (simp add: add_header_def serialization_context_init_def add_byte_def add_bytes_def Let_def)

lemma writers_in_progress [ser_simps]:
  "add_bytes bs (in_progress to t body) = in_progress to t (body @ bs)"
  "add_byte b (in_progress to t body) = in_progress to t (body @ [b])"
  "add_int16 v (in_progress to t body) = in_progress to t (body @ store_big_s16 v)"
  "add_int32 w (in_progress to t body) = in_progress to t (body @ store_big_s32 w)"
  "add_string s (in_progress to t body) = in_progress to t (body @ encode_cstr s)"
  by (simp_all add: add_bytes_def add_byte_def add_int16_def add_int32_def add_string_def
      encode_cstr_def)

lemma fold_int32_in_progress [ser_simps]:
  "fold add_int32 xs (in_progress to t body) = in_progress to t (body @ concat (map store_big_s32 xs))"
  by (induction xs arbitrary: body) (simp_all add: ser_simps)

lemma fold_int16_in_progress [ser_simps]:
  "fold add_int16 xs (in_progress to t body) = in_progress to t (body @ concat (map store_big_s16 xs))"
  by (induction xs arbitrary: body) (simp_all add: ser_simps)

lemma unat_of_nat64: "n \<le> size_max \<Longrightarrow> unat (word_of_nat n :: uint64) = n"
  by (simp add: unat_of_nat take_bit_nat_eq_self size_max_def)

lemma int32_le_size_max: "n \<le> int32_max \<Longrightarrow> n \<le> size_max"
  by (simp add: int32_max_def size_max_def)

lemma ucast_of_nat64:
  "n \<le> size_max \<Longrightarrow> (ucast (word_of_nat n :: uint64) :: int32) = word_of_nat n"
  by (simp add: unsigned_of_nat take_bit_nat_eq_self size_max_def)

lemma message_size:
  "word_of_nat (length (to @ t # 0 # 0 # 0 # 0 # body)) - word_of_nat (length to) - 1 =
     (word_of_nat (length body + 4) :: uint64)"
  by simp

lemma header_position:
  assumes "length to < size_max"
  shows "unat (word_of_nat (length to) + 1 :: uint64) = length to + 1"
proof -
  have eq: "(word_of_nat (length to) + 1 :: uint64) = word_of_nat (length to + 1)" by simp
  show ?thesis unfolding eq by (rule unat_of_nat64) (use assms in simp)
qed

lemma finish_in_progress:
  assumes "length to < size_max" and "length body + 4 \<le> size_max"
  shows "finish (in_progress to t body) =
    (None, if length body + 4 > int32_max then to @ t # 0 # 0 # 0 # 0 # body else to @ frame t body)"
proof -
  have st: "store_at (length to + 1) bs (to @ t # 0 # 0 # 0 # 0 # body) = to @ t # bs @ body"
    if "length bs = 4" for bs
    using that by (simp add: store_at_def)
  have "finalize_message (in_progress to t body) =
      (if unat (word_of_nat (length body + 4) :: uint64) > int32_max then (None, in_progress to t body)
       else (None, \<lparr>sc_buffer = store_at (unat (word_of_nat (length to) + 1 :: uint64))
          (store_big_s32 (ucast (word_of_nat (length body + 4) :: uint64))) (to @ t # 0 # 0 # 0 # 0 # body),
        sc_header_offset = no_offset, sc_err = None\<rparr>))"
    unfolding finalize_message_def by (simp only: serialization_context.simps message_size Let_def simp_thms if_False)
  then show ?thesis
    using st [of "store_big_s32 (word_of_nat (length body + 4))"]
    by (simp add: finish_def frame_def unat_of_nat64 [OF assms(2)] ucast_of_nat64 [OF assms(2)]
        header_position [OF assms(1)] del: of_nat_add)
qed

lemma finish_frame:
  assumes "length to < size_max" and "length body + 4 \<le> int32_max"
  shows "finish (in_progress to t body) = (None, to @ frame t body)"
  using assms finish_in_progress [OF assms(1) int32_le_size_max [OF assms(2)]] by simp

section \<open>The messages\<close>

lemmas serializer_defs = serialize_query_def serialize_describe_def serialize_close_def
  serialize_execute_def serialize_parse_def serialize_password_def serialize_copy_fail_def
  serialize_copy_done_def serialize_flush_def serialize_sync_def serialize_terminate_def

lemma serialize_header_only_frame: "serialize_header_only t to = (None, to @ frame t [])"
  by (simp add: serialize_header_only_def serialize_header_def frame_def int32_max_def)

lemma header_only_frames:
  "serialize_flush to = (None, to @ frame (of_char CHR ''H'') [])"
  "serialize_sync to = (None, to @ frame (of_char CHR ''S'') [])"
  "serialize_terminate to = (None, to @ frame (of_char CHR ''X'') [])"
  by (simp_all add: serializer_defs serialize_header_only_frame)

lemma string_frames:
  assumes "length to < size_max" and "length s + 10 \<le> int32_max"
  shows "serialize_query s to = (None, to @ frame (of_char CHR ''Q'') (encode_cstr s))"
    and "serialize_password s to = (None, to @ frame (of_char CHR ''p'') (encode_cstr s))"
    and "serialize_copy_fail s to = (None, to @ frame (of_char CHR ''f'') (encode_cstr s))"
    and "serialize_describe \<lparr>describe_type = k, describe_name = s\<rparr> to =
      (None, to @ frame (of_char CHR ''D'') (portal_or_statement_byte k # encode_cstr s))"
    and "serialize_close \<lparr>close_type = k, close_name = s\<rparr> to =
      (None, to @ frame (of_char CHR ''C'') (portal_or_statement_byte k # encode_cstr s))"
    and "serialize_execute \<lparr>execute_portal_name = s, execute_max_num_rows = rows\<rparr> to =
      (None, to @ frame (of_char CHR ''E'') (encode_cstr s @ store_big_s32 rows))"
  using assms(2)
  by (simp_all add: serializer_defs ser_simps finish_frame [OF assms(1)] encode_cstr_def)

lemma parse_frame:
  assumes "length to < size_max" and "length name + length q + 4 * length oids + 12 \<le> int32_max"
    and "length oids \<le> int16_max"
  shows "serialize_parse \<lparr>parse_statement_name = name, parse_query = q, parse_parameter_type_oids = oids\<rparr> to =
      (None, to @ frame (of_char CHR ''P'') (encode_cstr name @ encode_cstr q @
         store_big_s16 (word_of_nat (length oids)) @ concat (map store_big_s32 oids)))"
  using assms(2,3)
  by (simp add: serialize_parse_def ser_simps Let_def finish_frame [OF assms(1)] encode_cstr_def
      length_concat sum_list_triv comp_def)

text \<open>
  Every serializer of a message with a type byte appends exactly one frame to the buffer, with
  the message's type and its fields in wire order, and keeps the bytes that were there, as long as
  the frame's length fits its Int32 field.
\<close>

theorem serializers_append_frame:
  assumes "length to < size_max" and "length name + length q + 4 * length oids + 12 \<le> int32_max"
    and "length oids \<le> int16_max"
  shows "serialize_query q to = (None, to @ frame (of_char CHR ''Q'') (encode_cstr q)) \<and>
    serialize_describe \<lparr>describe_type = k, describe_name = name\<rparr> to =
      (None, to @ frame (of_char CHR ''D'') (portal_or_statement_byte k # encode_cstr name)) \<and>
    serialize_close \<lparr>close_type = k, close_name = name\<rparr> to =
      (None, to @ frame (of_char CHR ''C'') (portal_or_statement_byte k # encode_cstr name)) \<and>
    serialize_execute \<lparr>execute_portal_name = name, execute_max_num_rows = rows\<rparr> to =
      (None, to @ frame (of_char CHR ''E'') (encode_cstr name @ store_big_s32 rows)) \<and>
    serialize_parse \<lparr>parse_statement_name = name, parse_query = q, parse_parameter_type_oids = oids\<rparr> to =
      (None, to @ frame (of_char CHR ''P'') (encode_cstr name @ encode_cstr q @
         store_big_s16 (word_of_nat (length oids)) @ concat (map store_big_s32 oids))) \<and>
    serialize_password name to = (None, to @ frame (of_char CHR ''p'') (encode_cstr name)) \<and>
    serialize_copy_fail name to = (None, to @ frame (of_char CHR ''f'') (encode_cstr name)) \<and>
    serialize_copy_done to = (None, to @ frame (of_char CHR ''c'') []) \<and>
    serialize_flush to = (None, to @ frame (of_char CHR ''H'') []) \<and>
    serialize_sync to = (None, to @ frame (of_char CHR ''S'') []) \<and>
    serialize_terminate to = (None, to @ frame (of_char CHR ''X'') [])"
proof -
  have "length name + 10 \<le> int32_max" "length q + 10 \<le> int32_max" using assms(2) by simp_all
  note frames = string_frames [OF assms(1) this(1)] string_frames(1) [OF assms(1) this(2)]
    parse_frame [OF assms] header_only_frames
  have "serialize_copy_done to = (None, to @ frame (of_char CHR ''c'') [])"
    using finish_frame [OF assms(1), of "[]"]
    by (simp add: serialize_copy_done_def ser_simps int32_max_def)
  then show ?thesis by (simp add: frames)
qed

theorem serializers_append_frame_witness:
  "serialize_query (of_str ''SELECT 1'') [] =
     (None, [] @ frame (of_char CHR ''Q'') (encode_cstr (of_str ''SELECT 1'')))"
  using serializers_append_frame [of "[]" "[]" "of_str ''SELECT 1''" "[]" statement 0]
  by (simp add: size_max_def int32_max_def int16_max_def of_str_def)

text \<open>
  A query too long for the Int32 length field is reported as serialized: the serializer returns
  no error and leaves the placeholder zero in the length field.
\<close>

theorem oversized_query_reported_ok:
  assumes "length to < size_max" and "length q + 5 > int32_max" and "length q + 5 \<le> size_max"
  shows "serialize_query q to = (None, to @ of_char CHR ''Q'' # 0 # 0 # 0 # 0 # encode_cstr q)"
  using assms finish_in_progress [of to "encode_cstr q" "of_char CHR ''Q''"]
  by (simp add: serialize_query_def ser_simps encode_cstr_def)

theorem oversized_query_reported_ok_witness:
  "serialize_query (replicate 2147483647 65) [] =
     (None, [] @ of_char CHR ''Q'' # 0 # 0 # 0 # 0 # encode_cstr (replicate 2147483647 65))"
proof (rule oversized_query_reported_ok)
  show "length [] < size_max" by (simp add: size_max_def)
  show "length (replicate 2147483647 (65::byte)) + 5 > int32_max"
    unfolding length_replicate int32_max_def by simp
  show "length (replicate 2147483647 (65::byte)) + 5 \<le> size_max"
    unfolding length_replicate size_max_def by simp
qed

section \<open>Messages without a type byte\<close>

lemma finish_without_header:
  assumes "4 \<le> length buf" and "length buf \<le> int32_max"
  shows "finish \<lparr>sc_buffer = buf, sc_header_offset = no_offset, sc_err = None\<rparr> =
    (None, store_big_s32 (word_of_nat (length buf)) @ drop 4 buf)"
  using unat_of_nat64 [OF int32_le_size_max [OF assms(2)]]
    ucast_of_nat64 [OF int32_le_size_max [OF assms(2)]] assms
  by (simp add: finish_def finalize_message_def no_offset_def store_at_def Let_def)

text \<open>
  \<^verbatim>\<open>SSLRequest\<close> is not what is sent: \<^verbatim>\<open>finalize_message\<close> runs without a header, takes the offset
  \<^verbatim>\<open>size_t(-1)\<close> plus one and overwrites the request code at the start of the buffer with the number of
  bytes in it. On an empty buffer the four bytes 0, 0, 0, 4 are left.
\<close>

theorem ssl_request_code_overwritten:
  "serialize_ssl_request [] = (None, [0, 0, 0, 4])"
proof -
  have "serialize_ssl_request [] = (None, store_big_s32 (word_of_nat 4))"
    using finish_without_header [of "store_big_s32 80877103"]
    by (simp add: serialize_ssl_request_def serialization_context_init_def add_int32_def add_bytes_def
        int32_max_def)
  also have "store_big_s32 (word_of_nat 4) = [0, 0, 0, 4]" by code_simp
  finally show ?thesis .
qed

text \<open>
  \<^verbatim>\<open>CancelRequest\<close> is correct only on an empty buffer: whatever the buffer held before, its first
  four bytes are replaced by the total length.
\<close>

lemma cancel_request_overwrites_buffer:
  assumes "length to + 16 \<le> int32_max"
  shows "serialize_cancel_request \<lparr>cancel_process_id = pid, cancel_secret_key = key\<rparr> to =
    (None, store_big_s32 (word_of_nat (length to + 16)) @
       drop 4 (to @ store_big_s32 16 @ store_big_s32 80877102 @ store_big_s32 pid @ store_big_s32 key))"
  using assms finish_without_header
    [of "to @ store_big_s32 16 @ store_big_s32 80877102 @ store_big_s32 pid @ store_big_s32 key"]
  by (simp add: serialize_cancel_request_def serialization_context_init_def add_int32_def add_bytes_def)

end
