(* ===== verification/Pg_Request.thy ===== *)
theory Pg_Request
  imports Pg_Serialization_Facts
begin

text \<open>
  The request builder of \<^verbatim>\<open>request.hpp\<close> and \<^verbatim>\<open>request.cpp\<close>, the type-erased parameters of
  \<^verbatim>\<open>parameter_ref.hpp\<close> and the validity check of \<^verbatim>\<open>check_request.hpp\<close>. A builder method throws when
  a serializer fails; the model returns the error together with the request as the exception leaves it.
\<close>

section \<open>Parameters\<close>

datatype request_message_type =
    msg_bind
  | msg_close
  | msg_describe
  | msg_execute
  | msg_flush
  | msg_parse
  | msg_query
  | msg_sync

text \<open>
  A \<^verbatim>\<open>parameter_ref\<close> holds the type's OID and two function pointers, here with the value they are
  applied to already supplied. Each serializes into a buffer and returns an error code.
\<close>

record parameter_ref =
  pr_oid :: int32
  pr_serialize_text :: "bytes \<Rightarrow> error_code option \<times> bytes"
  pr_serialize_binary :: "bytes \<Rightarrow> error_code option \<times> bytes"

section \<open>The request\<close>

record request =
  req_buffer :: bytes
  req_types :: "request_message_type list"
  req_autosync :: bool

type_synonym request_result = "error_code option \<times> request"

definition request_init :: "bool \<Rightarrow> request" where
  "request_init autosync = \<lparr>req_buffer = [], req_types = [], req_autosync = autosync\<rparr>"

definition set_autosync :: "bool \<Rightarrow> request \<Rightarrow> request" where
  "set_autosync v r = r\<lparr>req_autosync := v\<rparr>"

text \<open>Sequencing of two calls: an exception of the first one leaves the second one out.\<close>

definition and_then :: "request_result \<Rightarrow> (request \<Rightarrow> request_result) \<Rightarrow> request_result" where
  "and_then res f = (case res of (Some ec, r) \<Rightarrow> (Some ec, r) | (None, r) \<Rightarrow> f r)"

definition add_advanced_impl ::
    "(bytes \<Rightarrow> error_code option \<times> bytes) \<Rightarrow> request_message_type \<Rightarrow> request \<Rightarrow> request_result" where
  "add_advanced_impl serialize type r =
     (case serialize (req_buffer r) of
        (Some ec, buf) \<Rightarrow> (Some ec, r\<lparr>req_buffer := buf\<rparr>)
      | (None, buf) \<Rightarrow> (None, r\<lparr>req_buffer := buf, req_types := req_types r @ [type]\<rparr>))"

definition add_bind_message :: "bind \<Rightarrow> request \<Rightarrow> request_result" where
  "add_bind_message v = add_advanced_impl (serialize_bind v) msg_bind"

definition add_close_message :: "close \<Rightarrow> request \<Rightarrow> request_result" where
  "add_close_message v = add_advanced_impl (serialize_close v) msg_close"

definition add_describe_message :: "describe \<Rightarrow> request \<Rightarrow> request_result" where
  "add_describe_message v = add_advanced_impl (serialize_describe v) msg_describe"

definition add_execute_message :: "execute \<Rightarrow> request \<Rightarrow> request_result" where
  "add_execute_message v = add_advanced_impl (serialize_execute v) msg_execute"

definition add_flush_message :: "request \<Rightarrow> request_result" where
  "add_flush_message = add_advanced_impl serialize_flush msg_flush"

definition add_parse_message :: "parse_t \<Rightarrow> request \<Rightarrow> request_result" where
  "add_parse_message v = add_advanced_impl (serialize_parse v) msg_parse"

definition add_query_message :: "string_view \<Rightarrow> request \<Rightarrow> request_result" where
  "add_query_message q = add_advanced_impl (serialize_query q) msg_query"

definition add_sync :: "request \<Rightarrow> request_result" where
  "add_sync = add_advanced_impl serialize_sync msg_sync"

definition maybe_add_sync :: "request \<Rightarrow> request_result" where
  "maybe_add_sync r = (if req_autosync r then add_sync r else (None, r))"

definition add_simple_query :: "string_view \<Rightarrow> request \<Rightarrow> request_result" where
  "add_simple_query q = add_query_message q"

definition add_prepare :: "string_view \<Rightarrow> string_view \<Rightarrow> int32 list \<Rightarrow> request \<Rightarrow> request_result" where
  "add_prepare query statement_name parameter_type_oids r =
     and_then (add_parse_message \<lparr>parse_statement_name = statement_name, parse_query = query,
         parse_parameter_type_oids = parameter_type_oids\<rparr> r)
       maybe_add_sync"

text \<open>The lambda \<^verbatim>\<open>add_bind\<close> passes as \<^verbatim>\<open>parameters_fn\<close>, one iteration and the loop.\<close>

definition bind_param :: "format_code \<Rightarrow> parameter_ref \<Rightarrow> bind_context \<Rightarrow> bind_context" where
  "bind_param param_format param b =
     (let b1 = start_parameter b
      in case (if param_format = format_binary then pr_serialize_binary param (bc_buff b1)
               else pr_serialize_text param (bc_buff b1)) of
           (ec, buf) \<Rightarrow>
             let b2 = b1\<lparr>bc_buff := buf\<rparr>
             in if ec \<noteq> None then bc_add_error ec b2 else b2)"

definition bind_params :: "format_code \<Rightarrow> parameter_ref list \<Rightarrow> bind_context \<Rightarrow> bind_context" where
  "bind_params param_format params b = fold (bind_param param_format) params b"

definition add_bind ::
    "string_view \<Rightarrow> parameter_ref list \<Rightarrow> format_code \<Rightarrow> string_view \<Rightarrow> format_code \<Rightarrow>
     request \<Rightarrow> request_result" where
  "add_bind statement_name params param_format portal_name result_format =
     add_bind_message \<lparr>bind_portal_name = portal_name, bind_statement_name = statement_name,
       bind_parameter_fmt_codes = format_codes_of param_format,
       bind_parameters_fn = bind_params param_format params,
       bind_result_fmt_codes = format_codes_of result_format\<rparr>"

definition add_execute ::
    "string_view \<Rightarrow> parameter_ref list \<Rightarrow> format_code \<Rightarrow> format_code \<Rightarrow> int32 \<Rightarrow>
     request \<Rightarrow> request_result" where
  "add_execute statement_name params param_format result_format max_num_rows r =
     and_then (and_then (and_then
       (add_bind statement_name params param_format [] result_format r)
       (add_describe_message \<lparr>describe_type = portal, describe_name = []\<rparr>))
       (add_execute_message \<lparr>execute_portal_name = [], execute_max_num_rows = max_num_rows\<rparr>))
       maybe_add_sync"

definition add_query ::
    "string_view \<Rightarrow> parameter_ref list \<Rightarrow> format_code \<Rightarrow> format_code \<Rightarrow> int32 \<Rightarrow>
     request \<Rightarrow> request_result" where
  "add_query q params param_format result_format max_num_rows r =
     and_then
       (add_parse_message \<lparr>parse_statement_name = [], parse_query = q,
          parse_parameter_type_oids = map pr_oid params\<rparr> r)
       (add_execute [] params param_format result_format max_num_rows)"

definition add_describe_statement :: "string_view \<Rightarrow> request \<Rightarrow> request_result" where
  "add_describe_statement name r =
     and_then (add_describe_message \<lparr>describe_type = statement, describe_name = name\<rparr> r) maybe_add_sync"

definition add_describe_portal :: "string_view \<Rightarrow> request \<Rightarrow> request_result" where
  "add_describe_portal name r =
     and_then (add_describe_message \<lparr>describe_type = portal, describe_name = name\<rparr> r) maybe_add_sync"

definition add_close_statement :: "string_view \<Rightarrow> request \<Rightarrow> request_result" where
  "add_close_statement name r =
     and_then (add_close_message \<lparr>close_type = statement, close_name = name\<rparr> r) maybe_add_sync"

definition add_close_portal :: "string_view \<Rightarrow> request \<Rightarrow> request_result" where
  "add_close_portal name r =
     and_then (add_close_message \<lparr>close_type = portal, close_name = name\<rparr> r) maybe_add_sync"

section \<open>The validity check\<close>

text \<open>The loop of \<^verbatim>\<open>check_request\<close>, with \<^verbatim>\<open>is_extended_batch\<close> as its accumulator.\<close>

fun check_loop :: "bool \<Rightarrow> request_message_type list \<Rightarrow> error_code option" where
  "check_loop is_extended_batch [] =
     (if is_extended_batch then Some (Client request_ends_without_sync) else None)"
| "check_loop is_extended_batch (t # ts) =
     (case t of
        msg_query \<Rightarrow>
          if is_extended_batch then Some (Client request_mixes_simple_advanced_protocols)
          else check_loop is_extended_batch ts
      | msg_sync \<Rightarrow> check_loop False ts
      | _ \<Rightarrow> check_loop True ts)"

definition check_request :: "request \<Rightarrow> error_code option" where
  "check_request req =
     (if req_types req = [] then Some (Client empty_request) else check_loop False (req_types req))"

end
