(* ===== verification/Pg_Request_Facts.thy ===== *)
theory Pg_Request_Facts
  imports Pg_Request
begin

text \<open>
  What the request builder promises: which sequences of messages \<^verbatim>\<open>check_request\<close> accepts, that
  requests built with the high-level methods are accepted, and the bytes a query puts on the wire.
\<close>

section \<open>Batches\<close>

definition is_ext :: "request_message_type \<Rightarrow> bool" where
  "is_ext t \<longleftrightarrow> t \<noteq> msg_query \<and> t \<noteq> msg_sync"

text \<open>
  The shape the comment of \<^verbatim>\<open>check_request\<close> asks for: units of a simple query or of extended
  messages that end with a sync.
\<close>

inductive batches :: "request_message_type list \<Rightarrow> bool" where
  batches_Nil: "batches []"
| batches_query: "batches ts \<Longrightarrow> batches (msg_query # ts)"
| batches_ext: "list_all is_ext es \<Longrightarrow> batches ts \<Longrightarrow> batches (es @ msg_sync # ts)"

lemmas batches_intros = batches_Nil batches_query batches_ext

lemma check_loop_ext:
  "list_all is_ext es \<Longrightarrow> check_loop b (es @ ts) = check_loop (b \<or> es \<noteq> []) ts"
  by (induction es arbitrary: b) (auto simp: is_ext_def split: request_message_type.splits)

lemma check_loop_batches: "batches ts \<Longrightarrow> check_loop False (ts @ us) = check_loop False us"
  by (induction rule: batches.induct) (simp_all add: check_loop_ext)

lemma batches_append: "batches ts \<Longrightarrow> batches us \<Longrightarrow> batches (ts @ us)"
  by (induction rule: batches.induct) (auto intro: batches_intros)

text \<open>Every list is a prefix of batches and what is left of an unfinished one.\<close>

lemma batches_decompose:
  obtains ts es rest where "types = ts @ es @ rest" and "batches ts" and "list_all is_ext es"
    and "(es = [] \<and> rest = []) \<or> (es \<noteq> [] \<and> (rest = [] \<or> hd rest = msg_query))"
proof (induction types arbitrary: thesis rule: length_induct)
  case (1 types)
  define es where "es = takeWhile is_ext types"
  define us where "us = dropWhile is_ext types"
  have types: "types = es @ us" and ext: "list_all is_ext es"
    by (simp_all add: es_def us_def list_all_iff) (meson set_takeWhileD)
  show ?case
  proof (cases us)
    case Nil
    then show ?thesis using 1(2) [of "[]" es "[]"] types ext by (auto intro: batches_Nil)
  next
    case (Cons t us')
    then have "\<not> is_ext t" by (metis us_def hd_dropWhile list.distinct(1) list.sel(1))
    then have t: "t = msg_query \<or> t = msg_sync" by (simp add: is_ext_def)
    show ?thesis
    proof (cases "t = msg_query \<and> es \<noteq> []")
      case True
      then show ?thesis using 1(2) [of "[]" es us] types ext Cons by (auto intro: batches_Nil)
    next
      case False
      have "length us' < length types" by (simp add: types Cons)
      then obtain ts' es' rest where "us' = ts' @ es' @ rest" "batches ts'" "list_all is_ext es'"
        "(es' = [] \<and> rest = []) \<or> (es' \<noteq> [] \<and> (rest = [] \<or> hd rest = msg_query))"
        using 1(1) by blast
      moreover from this have "batches (es @ t # ts')"
        using False t ext by (auto intro: batches_intros)
      ultimately show ?thesis
        using 1(2) [of "es @ t # ts'" es' rest] types Cons by simp
    qed
  qed
qed

lemma check_loop_query:
  "hd rest = msg_query \<Longrightarrow> rest \<noteq> [] \<Longrightarrow>
   check_loop True rest = Some (Client request_mixes_simple_advanced_protocols)"
  by (cases rest) auto

lemma check_loop_decomposed:
  assumes "batches ts" and "list_all is_ext es"
  shows "check_loop False (ts @ es) = (if es = [] then None else Some (Client request_ends_without_sync))"
    and "es \<noteq> [] \<Longrightarrow> check_loop False (ts @ es @ msg_query # rest) =
      Some (Client request_mixes_simple_advanced_protocols)"
  using assms check_loop_ext [of es False "[]"] check_loop_ext [of es False "msg_query # rest"]
  by (simp_all add: check_loop_batches)

lemma check_loop_None_iff: "check_loop False types = None \<longleftrightarrow> batches types"
proof
  assume *: "check_loop False types = None"
  obtain ts es rest where d: "types = ts @ es @ rest" "batches ts" "list_all is_ext es"
    "(es = [] \<and> rest = []) \<or> (es \<noteq> [] \<and> (rest = [] \<or> hd rest = msg_query))"
    by (rule batches_decompose)
  then show "batches types"
    using * check_loop_decomposed [of ts es]
    by (cases rest) (auto split: if_splits)
next
  assume "batches types"
  then show "check_loop False types = None" using check_loop_batches [of types "[]"] by simp
qed

text \<open>
  C25. \<^verbatim>\<open>check_request\<close> accepts exactly the non-empty sequences of batches. It reports a missing sync
  exactly when complete batches are followed by an unfinished extended one, and mixed protocols exactly
  when a simple query stands inside an extended batch.
\<close>

theorem check_request_characterization:
  "(check_request r = None \<longleftrightarrow> req_types r \<noteq> [] \<and> batches (req_types r)) \<and>
   (check_request r = Some (Client request_ends_without_sync) \<longleftrightarrow>
      (\<exists>ts es. req_types r = ts @ es \<and> batches ts \<and> es \<noteq> [] \<and> list_all is_ext es)) \<and>
   (check_request r = Some (Client request_mixes_simple_advanced_protocols) \<longleftrightarrow>
      (\<exists>ts es rest. req_types r = ts @ es @ msg_query # rest \<and> batches ts \<and> es \<noteq> [] \<and>
         list_all is_ext es)) \<and>
   (check_request r = Some (Client empty_request) \<longleftrightarrow> req_types r = [])"
proof -
  obtain ts es rest where d: "req_types r = ts @ es @ rest" "batches ts" "list_all is_ext es"
    and c: "(es = [] \<and> rest = []) \<or> (es \<noteq> [] \<and> (rest = [] \<or> hd rest = msg_query))"
    by (rule batches_decompose)
  have out: "check_loop False (req_types r) =
      (if es = [] then None else if rest = [] then Some (Client request_ends_without_sync)
       else Some (Client request_mixes_simple_advanced_protocols))"
    using d c check_loop_decomposed [of ts es] by (cases rest) auto
  have 1: "(\<exists>ts es. req_types r = ts @ es \<and> batches ts \<and> es \<noteq> [] \<and> list_all is_ext es) \<longleftrightarrow>
      check_loop False (req_types r) = Some (Client request_ends_without_sync)"
    using d c out check_loop_decomposed(1) by (auto split: if_splits)
  have 2: "(\<exists>ts es rest. req_types r = ts @ es @ msg_query # rest \<and> batches ts \<and> es \<noteq> [] \<and>
      list_all is_ext es) \<longleftrightarrow>
      check_loop False (req_types r) = Some (Client request_mixes_simple_advanced_protocols)"
  proof
    assume "check_loop False (req_types r) = Some (Client request_mixes_simple_advanced_protocols)"
    then have "es \<noteq> []" "rest = msg_query # tl rest"
      using out c by (cases rest; auto split: if_splits)+
    then show "\<exists>ts es rest. req_types r = ts @ es @ msg_query # rest \<and> batches ts \<and> es \<noteq> [] \<and>
      list_all is_ext es" using d by metis
  qed (use check_loop_decomposed(2) in auto)
  have 3: "check_loop False (req_types r) \<noteq> Some (Client empty_request)" using out by simp
  show ?thesis
    unfolding 1 2 using 3 check_loop_None_iff [of "req_types r"] by (simp add: check_request_def)
qed

section \<open>Requests built by the high-level methods\<close>

text \<open>The messages an operation that succeeds appends, and that it keeps the autosync setting.\<close>

definition appends :: "request_message_type list \<Rightarrow> (request \<Rightarrow> request_result) \<Rightarrow> bool" where
  "appends ts f \<longleftrightarrow> (\<forall>r r'. f r = (None, r') \<longrightarrow>
     req_types r' = req_types r @ ts @ (if req_autosync r \<and> ts \<noteq> [msg_query] then [msg_sync] else []) \<and>
     req_autosync r' = req_autosync r)"

lemma add_advanced_impl_None:
  "add_advanced_impl ser t r = (None, r') \<longleftrightarrow>
    (\<exists>buf. ser (req_buffer r) = (None, buf) \<and>
       r' = r\<lparr>req_buffer := buf, req_types := req_types r @ [t]\<rparr>)"
  by (auto simp: add_advanced_impl_def split: prod.splits option.splits)

lemma and_then_None:
  "and_then res f = (None, r') \<longleftrightarrow> (\<exists>r1. res = (None, r1) \<and> f r1 = (None, r'))"
  by (auto simp: and_then_def split: prod.splits option.splits)

lemma maybe_add_sync_None:
  "maybe_add_sync r = (None, r') \<Longrightarrow>
    req_types r' = req_types r @ (if req_autosync r then [msg_sync] else []) \<and>
    req_autosync r' = req_autosync r"
  by (auto simp: maybe_add_sync_def add_sync_def add_advanced_impl_None split: if_splits)

lemmas builder_defs = add_simple_query_def add_query_def add_prepare_def add_execute_def add_bind_def
  add_describe_statement_def add_describe_portal_def add_close_statement_def add_close_portal_def
  add_bind_message_def add_close_message_def add_describe_message_def add_execute_message_def
  add_parse_message_def add_query_message_def add_flush_message_def

text \<open>A request under construction: what calls of the high-level methods that do not throw make of it.\<close>

inductive built :: "request \<Rightarrow> request \<Rightarrow> bool" where
  built_refl: "built r r"
| built_simple_query: "built r0 r \<Longrightarrow> add_simple_query q r = (None, r') \<Longrightarrow> built r0 r'"
| built_query: "built r0 r \<Longrightarrow> add_query q ps pf rf n r = (None, r') \<Longrightarrow> built r0 r'"
| built_prepare: "built r0 r \<Longrightarrow> add_prepare q name oids r = (None, r') \<Longrightarrow> built r0 r'"
| built_execute: "built r0 r \<Longrightarrow> add_execute name ps pf rf n r = (None, r') \<Longrightarrow> built r0 r'"
| built_describe_statement: "built r0 r \<Longrightarrow> add_describe_statement name r = (None, r') \<Longrightarrow> built r0 r'"
| built_describe_portal: "built r0 r \<Longrightarrow> add_describe_portal name r = (None, r') \<Longrightarrow> built r0 r'"
| built_close_statement: "built r0 r \<Longrightarrow> add_close_statement name r = (None, r') \<Longrightarrow> built r0 r'"
| built_close_portal: "built r0 r \<Longrightarrow> add_close_portal name r = (None, r') \<Longrightarrow> built r0 r'"

lemma high_level_appends:
  "appends [msg_query] (add_simple_query q)"
  "appends [msg_parse, msg_bind, msg_describe, msg_execute] (add_query q ps pf rf n)"
  "appends [msg_parse] (add_prepare q name oids)"
  "appends [msg_bind, msg_describe, msg_execute] (add_execute name ps pf rf n)"
  "appends [msg_describe] (add_describe_statement name)"
  "appends [msg_describe] (add_describe_portal name)"
  "appends [msg_close] (add_close_statement name)"
  "appends [msg_close] (add_close_portal name)"
  by (auto simp: appends_def builder_defs add_advanced_impl_None and_then_None
      dest!: maybe_add_sync_None)

lemma appends_batches:
  assumes "appends ts f" and "ts = [msg_query] \<or> list_all is_ext ts" and "f r = (None, r')"
    and "req_autosync r" and "batches (req_types r)"
  shows "batches (req_types r') \<and> req_autosync r'"
proof -
  have "batches (ts @ (if ts \<noteq> [msg_query] then [msg_sync] else []))"
    using assms(2) batches_ext [of ts "[]"] by (auto intro: batches_intros)
  then show ?thesis using assms batches_append unfolding appends_def by fastforce
qed

text \<open>
  A request that has autosync enabled and is built with the high-level methods only passes
  \<^verbatim>\<open>check_request\<close>, unless it is empty.
\<close>

theorem autosync_requests_valid:
  assumes "built (request_init True) r"
  shows "check_request r = None \<or> req_types r = []"
proof -
  have "built r0 r \<Longrightarrow> req_autosync r0 \<and> batches (req_types r0) \<Longrightarrow>
    batches (req_types r) \<and> req_autosync r" for r0
    by (induction rule: built.induct)
      (use appends_batches [OF high_level_appends(1)] appends_batches [OF high_level_appends(2)]
        appends_batches [OF high_level_appends(3)] appends_batches [OF high_level_appends(4)]
        appends_batches [OF high_level_appends(5)] appends_batches [OF high_level_appends(6)]
        appends_batches [OF high_level_appends(7)] appends_batches [OF high_level_appends(8)]
        in \<open>auto simp: is_ext_def\<close>)
  from this [OF assms] show ?thesis
    using check_loop_None_iff [of "req_types r"]
    by (simp add: request_init_def check_request_def batches_Nil)
qed

theorem autosync_requests_valid_witness:
  "fst (add_close_portal [65] (request_init True)) = None \<and>
   (check_request (snd (add_close_portal [65] (request_init True))) = None \<or>
    req_types (snd (add_close_portal [65] (request_init True))) = [])"
proof
  show ok: "fst (add_close_portal [65] (request_init True)) = None"
    by (simp add: add_close_portal_def add_close_message_def add_advanced_impl_def and_then_def
        maybe_add_sync_def add_sync_def request_init_def string_frames(5) header_only_frames
        size_max_def int32_max_def)
  have "add_close_portal [65] (request_init True) =
      (None, snd (add_close_portal [65] (request_init True)))"
    using ok by (simp only: prod_eq_iff fst_conv snd_conv simp_thms)
  then show "check_request (snd (add_close_portal [65] (request_init True))) = None \<or>
    req_types (snd (add_close_portal [65] (request_init True))) = []"
    by (intro autosync_requests_valid built_close_portal [OF built_refl])
qed

section \<open>Bytes on the wire\<close>

fun request_type_byte :: "request_message_type \<Rightarrow> byte" where
  "request_type_byte msg_bind = of_char CHR ''B''"
| "request_type_byte msg_close = of_char CHR ''C''"
| "request_type_byte msg_describe = of_char CHR ''D''"
| "request_type_byte msg_execute = of_char CHR ''E''"
| "request_type_byte msg_flush = of_char CHR ''H''"
| "request_type_byte msg_parse = of_char CHR ''P''"
| "request_type_byte msg_query = of_char CHR ''Q''"
| "request_type_byte msg_sync = of_char CHR ''S''"

text \<open>
  The abstract request: the messages with their bodies. The builder keeps the types in one vector and
  the frames, back to back, in another.
\<close>

type_synonym wire_messages = "(request_message_type \<times> bytes) list"

definition wire :: "wire_messages \<Rightarrow> bytes" where
  "wire ms = concat (map (\<lambda>(t, body). frame (request_type_byte t) body) ms)"

definition represents :: "request \<Rightarrow> wire_messages \<Rightarrow> bool" where
  "represents r ms \<longleftrightarrow> req_types r = map fst ms \<and> req_buffer r = wire ms"

definition encode_fmt :: "format_code \<Rightarrow> bytes" where
  "encode_fmt f = (if f = format_text then store_big_s16 0 else store_big_s16 1 @ store_big_s16 1)"

definition encode_params :: "bytes list \<Rightarrow> bytes" where
  "encode_params vs = concat (map (\<lambda>v. encode_field_view (Some v)) vs)"

lemma encode_params_simps [simp]:
  "encode_params [] = []"
  "encode_params (v # vs) = encode_field_view (Some v) @ encode_params vs"
  by (simp_all add: encode_params_def)

definition bind_body ::
    "string_view \<Rightarrow> string_view \<Rightarrow> format_code \<Rightarrow> bytes list \<Rightarrow> format_code \<Rightarrow> bytes" where
  "bind_body portal_name statement_name pf vs rf =
     encode_cstr portal_name @ encode_cstr statement_name @ encode_fmt pf @
     store_big_s16 (word_of_nat (length vs)) @ encode_params vs @ encode_fmt rf"

text \<open>A parameter whose serializer for a format appends the bytes \<open>v\<close>.\<close>

definition param_encodes :: "format_code \<Rightarrow> parameter_ref \<Rightarrow> bytes \<Rightarrow> bool" where
  "param_encodes pf p v \<longleftrightarrow> (\<forall>buf.
     (if pf = format_binary then pr_serialize_binary p buf else pr_serialize_text p buf) = (None, buf @ v))"

subsection \<open>Parameters of a bind\<close>

text \<open>A bind context with a parameter in progress: its length bytes are zero until it is finished.\<close>

definition bind_pending :: "nat \<Rightarrow> bytes \<Rightarrow> bytes \<Rightarrow> bind_context" where
  "bind_pending n pre v = \<lparr>bc_num_params = n, bc_param_offset = word_of_nat (length pre),
     bc_buff = pre @ 0 # 0 # 0 # 0 # v, bc_err = None\<rparr>"

lemma of_nat64_no_offset: "n < size_max \<Longrightarrow> (word_of_nat n :: uint64) \<noteq> no_offset"
proof
  assume "n < size_max" and "(word_of_nat n :: uint64) = no_offset"
  then have "unat (no_offset :: uint64) = n" using unat_of_nat64 [of n] by simp
  then show False
    using \<open>n < size_max\<close>
    by (simp add: no_offset_def size_max_def unsigned_minus_1_eq_mask mask_eq_exp_minus_1)
qed

lemma finish_pending:
  assumes "length pre < size_max" and "length v \<le> int32_max"
  shows "maybe_finish_parameter (bind_pending n pre v) =
    \<lparr>bc_num_params = n, bc_param_offset = no_offset, bc_buff = pre @ encode_field_view (Some v),
      bc_err = None\<rparr>"
proof -
  have sz: "word_of_nat (length (pre @ 0 # 0 # 0 # 0 # v)) - word_of_nat (length pre) - 4 =
      (word_of_nat (length v) :: uint64)" by simp
  have st: "store_at (length pre) (store_big_s32 x) (pre @ 0 # 0 # 0 # 0 # v) = pre @ store_big_s32 x @ v"
    for x by (simp add: store_at_def)
  have le: "length v \<le> size_max" "length pre \<le> size_max"
    using assms int32_le_size_max by simp_all
  show ?thesis
    using assms(2)
    by (simp add: maybe_finish_parameter_def bind_pending_def sz [simplified] Let_def
        of_nat64_no_offset [OF assms(1)] unat_of_nat64 [OF le(1)] unat_of_nat64 [OF le(2)]
        ucast_of_nat64 [OF le(1)] st encode_field_view_def)
qed

lemma start_after_finished:
  "start_parameter \<lparr>bc_num_params = n, bc_param_offset = no_offset, bc_buff = buf, bc_err = None\<rparr> =
    bind_pending (n + 1) buf []"
  by (simp add: start_parameter_def maybe_finish_parameter_def bind_pending_def)

lemma start_pending:
  assumes "length pre < size_max" and "length v \<le> int32_max"
  shows "start_parameter (bind_pending n pre v) =
    bind_pending (n + 1) (pre @ encode_field_view (Some v)) []"
  using start_after_finished [of n "pre @ encode_field_view (Some v)"] finish_pending [OF assms, of n]
  by (simp add: start_parameter_def maybe_finish_parameter_def)

lemma bind_param_pending:
  assumes "param_encodes pf p w" and "length pre < size_max" and "length v \<le> int32_max"
  shows "bind_param pf p (bind_pending n pre v) =
    bind_pending (n + 1) (pre @ encode_field_view (Some v)) w"
  using assms(1) start_pending [OF assms(2,3), of n]
  by (simp add: bind_param_def param_encodes_def Let_def) (simp add: bind_pending_def)

lemma bind_params_pending:
  assumes "list_all2 (param_encodes pf) ps vs"
    and "length pre + length v + length (encode_params vs) + 8 \<le> int32_max"
  shows "maybe_finish_parameter (bind_params pf ps (bind_pending n pre v)) =
    \<lparr>bc_num_params = n + length ps, bc_param_offset = no_offset,
      bc_buff = pre @ encode_field_view (Some v) @ encode_params vs, bc_err = None\<rparr>"
  using assms
proof (induction arbitrary: n pre v rule: list_all2_induct)
  case Nil
  have "length pre < size_max" using Nil int32_max_def size_max_def by linarith
  then show ?case using Nil finish_pending [of pre v n] by (simp add: bind_params_def)
next
  case (Cons p ps w vs)
  have "length pre < size_max" using Cons.prems int32_max_def size_max_def by linarith
  moreover have "length v \<le> int32_max" using Cons.prems by simp
  moreover have "length (pre @ encode_field_view (Some v)) + length w + length (encode_params vs) + 8
      \<le> int32_max"
    using Cons.prems by (simp add: encode_field_view_def)
  ultimately show ?case
    using Cons.IH bind_param_pending [OF Cons(1)] by (simp add: bind_params_def)
qed

lemma bind_params_encode:
  assumes "list_all2 (param_encodes pf) ps vs"
    and "length pre + length (encode_params vs) + 8 \<le> int32_max"
  shows "maybe_finish_parameter (bind_params pf ps (bind_context_init pre)) =
    \<lparr>bc_num_params = length ps, bc_param_offset = no_offset, bc_buff = pre @ encode_params vs,
      bc_err = None\<rparr>"
proof (cases ps)
  case Nil
  then show ?thesis
    using assms by (simp add: bind_params_def bind_context_init_def maybe_finish_parameter_def)
next
  case (Cons p ps')
  then obtain v vs' where vs: "vs = v # vs'" "param_encodes pf p v" "list_all2 (param_encodes pf) ps' vs'"
    using assms(1) by (auto simp: list_all2_Cons1)
  have "bind_param pf p (bind_context_init pre) = bind_pending 1 pre v"
    using vs(2) start_after_finished [of 0 pre]
    by (simp add: bind_param_def bind_context_init_def param_encodes_def Let_def) (simp add: bind_pending_def)
  moreover have "length pre + length v + length (encode_params vs') + 8 \<le> int32_max"
    using assms(2) vs(1) by (simp add: encode_field_view_def)
  ultimately show ?thesis
    using bind_params_pending [OF vs(3), of pre v 1] by (simp add: bind_params_def Cons vs(1))
qed

lemma serialize_fmt_codes_in_progress:
  "serialize_fmt_codes (format_codes_of f) (in_progress to t body) = in_progress to t (body @ encode_fmt f)"
  by (simp add: serialize_fmt_codes_def format_codes_of_def encode_fmt_def ser_simps)

lemma serialize_params_in_progress:
  assumes "list_all2 (param_encodes pf) ps vs"
    and "length to + length body + length (encode_params vs) + 32 \<le> int32_max"
    and "length ps \<le> int16_max"
  shows "serialize_params (bind_params pf ps) (in_progress to t body) =
    in_progress to t (body @ store_big_s16 (word_of_nat (length ps)) @ encode_params vs)"
proof -
  let ?buf = "to @ t # 0 # 0 # 0 # 0 # body"
  have enc: "maybe_finish_parameter (bind_params pf ps (bind_context_init (?buf @ [0, 0]))) =
      \<lparr>bc_num_params = length ps, bc_param_offset = no_offset,
        bc_buff = (?buf @ [0, 0]) @ encode_params vs, bc_err = None\<rparr>"
    by (rule bind_params_encode [OF assms(1)]) (use assms(2) in simp)
  have st: "store_at (length ?buf) (store_big_s16 x) ((?buf @ [0, 0]) @ encode_params vs) =
      ?buf @ store_big_s16 x @ encode_params vs" for x
    using store_at_exact [of "[0, 0]" "store_big_s16 x" ?buf "encode_params vs"] by simp
  show ?thesis
    unfolding serialize_params_def Let_def serialization_context.simps enc bind_context.simps
    using assms(3) st [of "word_of_nat (length ps)"] by (simp add: sc_add_error_def)
qed

lemma bind_frame:
  assumes "list_all2 (param_encodes pf) ps vs"
    and "length to + length portal_name + length name + length (encode_params vs) + 64 \<le> int32_max"
    and "length ps \<le> int16_max"
  shows "serialize_bind \<lparr>bind_portal_name = portal_name, bind_statement_name = name,
      bind_parameter_fmt_codes = format_codes_of pf, bind_parameters_fn = bind_params pf ps,
      bind_result_fmt_codes = format_codes_of rf\<rparr> to =
    (None, to @ frame (of_char CHR ''B'') (bind_body portal_name name pf vs rf))"
proof -
  let ?b = "encode_cstr portal_name @ encode_cstr name @ encode_fmt pf"
  have len: "length ps = length vs" using assms(1) by (rule list_all2_lengthD)
  have "length (encode_fmt f) \<le> 4" for f by (simp add: encode_fmt_def)
  from this [of pf] this [of rf] have
    "length to + length ?b + length (encode_params vs) + 32 \<le> int32_max"
    and "length (bind_body portal_name name pf vs rf) + 4 \<le> int32_max"
    using assms(2) by (simp_all add: encode_cstr_def bind_body_def)
  moreover have "length to < size_max" using assms(2) int32_max_def size_max_def by linarith
  ultimately show ?thesis
    using serialize_params_in_progress [OF assms(1) _ assms(3), of to ?b "of_char CHR ''B''"]
      finish_frame [of to "bind_body portal_name name pf vs rf" "of_char CHR ''B''"]
    by (simp add: serialize_bind_def Let_def ser_simps serialize_fmt_codes_in_progress bind_body_def
        encode_cstr_def len)
qed

subsection \<open>Queries\<close>

text \<open>Adding a message whose serializer appends a frame.\<close>

lemma represents_add:
  assumes "represents r ms" and "ser (req_buffer r) = (None, req_buffer r @ frame b body)"
    and "request_type_byte t = b"
  shows "\<exists>r'. add_advanced_impl ser t r = (None, r') \<and> represents r' (ms @ [(t, body)]) \<and>
    req_autosync r' = req_autosync r"
  using assms by (simp add: add_advanced_impl_def represents_def wire_def)

lemma represents_maybe_sync:
  assumes "represents r ms"
  shows "\<exists>r'. maybe_add_sync r = (None, r') \<and>
    represents r' (ms @ (if req_autosync r then [(msg_sync, [])] else [])) \<and> req_autosync r' = req_autosync r"
  using assms represents_add [where ser = serialize_sync, OF assms header_only_frames(2), of msg_sync]
  by (auto simp: maybe_add_sync_def add_sync_def)

definition execute_messages ::
    "string_view \<Rightarrow> format_code \<Rightarrow> bytes list \<Rightarrow> format_code \<Rightarrow> int32 \<Rightarrow> wire_messages" where
  "execute_messages name pf vs rf n =
     [(msg_bind, bind_body [] name pf vs rf),
      (msg_describe, of_char CHR ''P'' # encode_cstr []),
      (msg_execute, encode_cstr [] @ store_big_s32 n)]"

lemma add_execute_wire:
  assumes "represents r ms" and "list_all2 (param_encodes pf) ps vs" and "length ps \<le> int16_max"
    and "length (req_buffer r) + length name + length (encode_params vs) + 256 \<le> int32_max"
  shows "\<exists>r'. add_execute name ps pf rf n r = (None, r') \<and>
    represents r' (ms @ execute_messages name pf vs rf n @
      (if req_autosync r then [(msg_sync, [])] else [])) \<and> req_autosync r' = req_autosync r"
proof -
  have len: "length ps = length vs" using assms(2) by (rule list_all2_lengthD)
  have small: "length m < size_max" if "length m \<le> int32_max" for m :: bytes
    using that int32_max_def size_max_def by linarith
  have ten: "length ([]::bytes) + 10 \<le> int32_max" by (simp add: int32_max_def)
  define msg where "msg = \<lparr>bind_portal_name = [], bind_statement_name = name,
      bind_parameter_fmt_codes = format_codes_of pf, bind_parameters_fn = bind_params pf ps,
      bind_result_fmt_codes = format_codes_of rf\<rparr>"
  have "serialize_bind msg (req_buffer r) =
      (None, req_buffer r @ frame (of_char CHR ''B'') (bind_body [] name pf vs rf))"
    unfolding msg_def by (rule bind_frame [OF assms(2) _ assms(3)]) (use assms(4) in simp)
  from represents_add [where ser = "serialize_bind msg", OF assms(1) this, of msg_bind]
  obtain r1 where r1: "add_bind name ps pf [] rf r = (None, r1)"
    "represents r1 (ms @ [(msg_bind, bind_body [] name pf vs rf)])" "req_autosync r1 = req_autosync r"
    by (auto simp: add_bind_def add_bind_message_def msg_def)
  have b1: "req_buffer r1 = req_buffer r @ frame (of_char CHR ''B'') (bind_body [] name pf vs rf)"
    using r1(2) assms(1) by (simp add: represents_def wire_def)
  have "length (req_buffer r1) + 64 \<le> int32_max"
    using assms(4) by (simp add: b1 frame_def bind_body_def encode_cstr_def encode_fmt_def)
  then have l1: "length (req_buffer r1) + 64 \<le> int32_max" .
  obtain r2 where r2: "add_describe_message \<lparr>describe_type = portal, describe_name = []\<rparr> r1 = (None, r2)"
    "represents r2 ((ms @ [(msg_bind, bind_body [] name pf vs rf)]) @
       [(msg_describe, of_char CHR ''P'' # encode_cstr [])])" "req_autosync r2 = req_autosync r"
    using represents_add [where ser = "serialize_describe \<lparr>describe_type = portal, describe_name = []\<rparr>",
        OF r1(2) string_frames(4) [OF small ten], of msg_describe] l1 r1(3)
    by (auto simp: add_describe_message_def portal_or_statement_byte_def)
  have "length (req_buffer r2) \<le> int32_max"
    using l1 r2(2) r1(2) by (simp add: represents_def wire_def frame_def encode_cstr_def)
  then obtain r3 where r3: "add_execute_message \<lparr>execute_portal_name = [], execute_max_num_rows = n\<rparr> r2 = (None, r3)"
    "represents r3 (ms @ execute_messages name pf vs rf n)" "req_autosync r3 = req_autosync r"
    using represents_add [where ser = "serialize_execute \<lparr>execute_portal_name = [], execute_max_num_rows = n\<rparr>",
        OF r2(2) string_frames(6) [OF small ten], of msg_execute] r2(3)
    by (auto simp: add_execute_message_def execute_messages_def)
  show ?thesis
    using represents_maybe_sync [OF r3(2)] r1 r2 r3 by (simp add: add_execute_def and_then_def)
qed

text \<open>
  C27. \<^verbatim>\<open>add_query\<close> puts a Parse with the OIDs of the parameters, a Bind with their values in the chosen
  format, a Describe and an Execute of the unnamed portal and, with autosync, a Sync on the wire, in
  this order and after what the request had, and records their types, as long as the request stays
  below the Int32 limit.
\<close>

theorem add_query_wire:
  assumes "represents r ms" and "list_all2 (param_encodes pf) ps vs" and "length ps \<le> int16_max"
    and "length (req_buffer r) + length q + 4 * length ps + length (encode_params vs) + 300 \<le> int32_max"
  shows "\<exists>r'. add_query q ps pf rf n r = (None, r') \<and>
    represents r' (ms @
      (msg_parse, encode_cstr [] @ encode_cstr q @ store_big_s16 (word_of_nat (length ps)) @
         concat (map (store_big_s32 \<circ> pr_oid) ps)) #
      execute_messages [] pf vs rf n @ (if req_autosync r then [(msg_sync, [])] else []))"
proof -
  let ?body = "encode_cstr [] @ encode_cstr q @ store_big_s16 (word_of_nat (length ps)) @
    concat (map (store_big_s32 \<circ> pr_oid) ps)"
  have "length (req_buffer r) < size_max" using assms(4) int32_max_def size_max_def by linarith
  then have "serialize_parse \<lparr>parse_statement_name = [], parse_query = q,
      parse_parameter_type_oids = map pr_oid ps\<rparr> (req_buffer r) =
    (None, req_buffer r @ frame (of_char CHR ''P'') ?body)"
    using parse_frame [of "req_buffer r" "[]" q "map pr_oid ps"] assms(3,4) by simp
  from represents_add [where ser = "serialize_parse \<lparr>parse_statement_name = [], parse_query = q,
      parse_parameter_type_oids = map pr_oid ps\<rparr>", OF assms(1) this, of msg_parse] obtain r1 where
    r1: "add_parse_message \<lparr>parse_statement_name = [], parse_query = q,
      parse_parameter_type_oids = map pr_oid ps\<rparr> r = (None, r1)"
    "represents r1 (ms @ [(msg_parse, ?body)])" "req_autosync r1 = req_autosync r"
    by (auto simp: add_parse_message_def)
  have "length (req_buffer r1) + length (encode_params vs) + 256 \<le> int32_max"
    using assms(1,4) r1(2)
    by (simp add: represents_def wire_def frame_def encode_cstr_def length_concat sum_list_triv comp_def)
  then show ?thesis
    using add_execute_wire [OF r1(2) assms(2,3), of "[]" rf n] r1
    by (auto simp: add_query_def and_then_def)
qed

theorem add_query_wire_witness:
  "\<exists>r'. add_query [65] [\<lparr>pr_oid = 25, pr_serialize_text = \<lambda>buf. (None, buf @ [66]),
      pr_serialize_binary = \<lambda>buf. (None, buf @ [67])\<rparr>] format_binary format_text 0 (request_init True) = (None, r') \<and>
    represents r' ([] @
      (msg_parse, encode_cstr [] @ encode_cstr [65] @ store_big_s16 (word_of_nat (length [()])) @
         concat (map store_big_s32 [25])) #
      execute_messages [] format_binary [[67]] format_text 0 @ [(msg_sync, [])])"
  using add_query_wire [of "request_init True" "[]" format_binary
      "[\<lparr>pr_oid = 25, pr_serialize_text = \<lambda>buf. (None, buf @ [66]),
         pr_serialize_binary = \<lambda>buf. (None, buf @ [67])\<rparr>]" "[[67]]" "[65]" format_text 0]
  by (simp add: represents_def request_init_def wire_def param_encodes_def int16_max_def int32_max_def
      encode_field_view_def)

end
