(* ===== verification/Pg_Read_Response_Fsm.thy ===== *)
theory Pg_Read_Response_Fsm
  imports Pg_Request_Facts
begin

text \<open>
  The state machine of \<^verbatim>\<open>read_response_fsm.hpp\<close> and \<^verbatim>\<open>read_response_fsm.cpp\<close>, which matches the
  messages of the server with the messages of a request and hands them to a response handler. The
  handler is type-erased in the code; here it is a state of any type and a function \<open>on_message\<close>
  that updates it. A step returns \<open>None\<close> where the code would violate a \<^verbatim>\<open>BOOST_ASSERT\<close> or read
  past the end of the request's messages.
\<close>

section \<open>Messages for handlers\<close>

datatype any_request_message =
    Rm_bind_complete
  | Rm_close_complete
  | Rm_command_complete string_view
  | Rm_data_row forward_parsing_view
  | Rm_parameter_description random_access_parsing_view
  | Rm_row_description forward_parsing_view
  | Rm_empty_query_response
  | Rm_portal_suspended
  | Rm_error_response error_notice_fields
  | Rm_parse_complete
  | Rm_message_skipped

type_synonym 'h handler_fn = "any_request_message \<Rightarrow> nat \<Rightarrow> 'h \<Rightarrow> 'h"

section \<open>The state machine\<close>

datatype state_t =
    msg_first
  | query_first
  | query_needs_ready
  | query_rows
  | exec_copy_out
  | exec_copy_out_needs_command_complete
  | query_copy_out
  | query_copy_out_needs_command_complete

datatype fsm_result = Fsm_done "error_code option" | Fsm_read

record 'h read_response_fsm =
  rr_messages :: "request_message_type list"
  rr_handler :: 'h
  rr_current :: nat
  rr_state :: state_t
  rr_allow_copy :: bool

type_synonym 'h step_result = "(fsm_result \<times> 'h read_response_fsm) option"

definition read_response_fsm_init :: "request \<Rightarrow> 'h \<Rightarrow> bool \<Rightarrow> 'h read_response_fsm" where
  "read_response_fsm_init req handler allow_copy =
     \<lparr>rr_messages = req_types req, rr_handler = handler, rr_current = 0, rr_state = msg_first,
       rr_allow_copy = allow_copy\<rparr>"

definition get_remaining_messages :: "'h read_response_fsm \<Rightarrow> request_message_type list" where
  "get_remaining_messages f = drop (rr_current f) (rr_messages f)"

definition call_handler :: "'h handler_fn \<Rightarrow> any_request_message \<Rightarrow> 'h read_response_fsm \<Rightarrow> 'h read_response_fsm" where
  "call_handler on_message msg f = f\<lparr>rr_handler := on_message msg (rr_current f) (rr_handler f)\<rparr>"

abbreviation unexpected :: "'h read_response_fsm \<Rightarrow> 'h step_result" where
  "unexpected f \<equiv> Some (Fsm_done (Some (Client unexpected_message)), f)"

text \<open>The loop of \<^verbatim>\<open>handle_error\<close>.\<close>

function skip_to_sync :: "'h handler_fn \<Rightarrow> 'h read_response_fsm \<Rightarrow> 'h step_result" where
  "skip_to_sync on_message f =
     (if rr_current f < length (rr_messages f)
      then (case rr_messages f ! rr_current f of
              msg_sync \<Rightarrow> Some (Fsm_read, f)
            | msg_flush \<Rightarrow> skip_to_sync on_message (f\<lparr>rr_current := rr_current f + 1\<rparr>)
            | _ \<Rightarrow> skip_to_sync on_message
                     ((call_handler on_message Rm_message_skipped f)\<lparr>rr_current := rr_current f + 1\<rparr>))
      else None)"
  by pat_completeness auto
termination
  by (relation "measure (\<lambda>(on_message, f). length (rr_messages f) - rr_current f)")
    (auto simp: call_handler_def)

declare skip_to_sync.simps [simp del]

definition handle_error :: "'h handler_fn \<Rightarrow> error_notice_fields \<Rightarrow> 'h read_response_fsm \<Rightarrow> 'h step_result" where
  "handle_error on_message err f =
     skip_to_sync on_message
       ((call_handler on_message (Rm_error_response err) f)\<lparr>rr_current := rr_current f + 1, rr_state := msg_first\<rparr>)"

definition advance :: "'h read_response_fsm \<Rightarrow> 'h step_result" where
  "advance f =
     (let f' = f\<lparr>rr_current := rr_current f + 1\<rparr>
      in if rr_current f' \<ge> length (rr_messages f') then Some (Fsm_done None, f')
         else Some (Fsm_read, f'))"

definition handle_bind :: "'h handler_fn \<Rightarrow> any_backend_message \<Rightarrow> 'h read_response_fsm \<Rightarrow> 'h step_result" where
  "handle_bind on_message msg f =
     (if rr_state f \<noteq> msg_first then None
      else (case msg of
              Error_response err \<Rightarrow> handle_error on_message err f
            | Bind_complete \<Rightarrow> advance (call_handler on_message Rm_bind_complete f)
            | _ \<Rightarrow> unexpected f))"

definition handle_close :: "'h handler_fn \<Rightarrow> any_backend_message \<Rightarrow> 'h read_response_fsm \<Rightarrow> 'h step_result" where
  "handle_close on_message msg f =
     (if rr_state f \<noteq> msg_first then None
      else (case msg of
              Error_response err \<Rightarrow> handle_error on_message err f
            | Close_complete \<Rightarrow> advance (call_handler on_message Rm_close_complete f)
            | _ \<Rightarrow> unexpected f))"

definition handle_describe :: "'h handler_fn \<Rightarrow> any_backend_message \<Rightarrow> 'h read_response_fsm \<Rightarrow> 'h step_result" where
  "handle_describe on_message msg f =
     (if rr_state f \<noteq> msg_first then None
      else (case msg of
              Error_response err \<Rightarrow> handle_error on_message err f
            | Row_description descr \<Rightarrow> advance (call_handler on_message (Rm_row_description descr) f)
            | No_data \<Rightarrow> advance (call_handler on_message (Rm_row_description empty_forward_view) f)
            | _ \<Rightarrow> unexpected f))"

definition handle_execute :: "'h handler_fn \<Rightarrow> any_backend_message \<Rightarrow> 'h read_response_fsm \<Rightarrow> 'h step_result" where
  "handle_execute on_message msg f =
     (case rr_state f of
        msg_first \<Rightarrow>
          (case msg of
             Copy_out_response cr \<Rightarrow>
               if \<not> rr_allow_copy f then Some (Fsm_done (Some (Client copy_not_allowed)), f)
               else Some (Fsm_read, (call_handler on_message (Rm_row_description empty_forward_view) f)
                              \<lparr>rr_state := exec_copy_out\<rparr>)
           | Error_response err \<Rightarrow> handle_error on_message err f
           | Command_complete tag \<Rightarrow> advance (call_handler on_message (Rm_command_complete tag) f)
           | Empty_query_response \<Rightarrow> advance (call_handler on_message Rm_empty_query_response f)
           | Portal_suspended \<Rightarrow> advance (call_handler on_message Rm_portal_suspended f)
           | Data_row columns \<Rightarrow> Some (Fsm_read, call_handler on_message (Rm_data_row columns) f)
           | _ \<Rightarrow> unexpected f)
      | exec_copy_out \<Rightarrow>
          (case msg of
             Copy_data data \<Rightarrow> Some (Fsm_read, f)
           | Error_response err \<Rightarrow> handle_error on_message err f
           | Copy_done \<Rightarrow> Some (Fsm_read, f\<lparr>rr_state := exec_copy_out_needs_command_complete\<rparr>)
           | _ \<Rightarrow> unexpected f)
      | exec_copy_out_needs_command_complete \<Rightarrow>
          (case msg of
             Error_response err \<Rightarrow> handle_error on_message err f
           | Command_complete tag \<Rightarrow>
               advance ((call_handler on_message (Rm_command_complete tag) f)\<lparr>rr_state := msg_first\<rparr>)
           | _ \<Rightarrow> unexpected f)
      | _ \<Rightarrow> unexpected f)"

definition handle_parse :: "'h handler_fn \<Rightarrow> any_backend_message \<Rightarrow> 'h read_response_fsm \<Rightarrow> 'h step_result" where
  "handle_parse on_message msg f =
     (if rr_state f \<noteq> msg_first then None
      else (case msg of
              Error_response err \<Rightarrow> handle_error on_message err f
            | Parse_complete \<Rightarrow> advance (call_handler on_message Rm_parse_complete f)
            | _ \<Rightarrow> unexpected f))"

definition handle_sync :: "'h handler_fn \<Rightarrow> any_backend_message \<Rightarrow> 'h read_response_fsm \<Rightarrow> 'h step_result" where
  "handle_sync on_message msg f =
     (if rr_state f \<noteq> msg_first then None
      else (case msg of Ready_for_query status \<Rightarrow> advance f | _ \<Rightarrow> unexpected f))"

text \<open>An error inside a query: \<^verbatim>\<open>ReadyForQuery\<close> has to follow.\<close>

abbreviation query_error :: "'h handler_fn \<Rightarrow> error_notice_fields \<Rightarrow> 'h read_response_fsm \<Rightarrow> 'h step_result" where
  "query_error on_message err f \<equiv>
     Some (Fsm_read, call_handler on_message (Rm_error_response err) (f\<lparr>rr_state := query_needs_ready\<rparr>))"

definition handle_query_first :: "'h handler_fn \<Rightarrow> any_backend_message \<Rightarrow> 'h read_response_fsm \<Rightarrow> 'h step_result" where
  "handle_query_first on_message msg f =
     (case msg of
        Copy_out_response cr \<Rightarrow>
          if \<not> rr_allow_copy f then Some (Fsm_done (Some (Client copy_not_allowed)), f)
          else Some (Fsm_read, (call_handler on_message (Rm_row_description empty_forward_view) f)
                         \<lparr>rr_state := query_copy_out\<rparr>)
      | Error_response err \<Rightarrow> query_error on_message err f
      | Row_description descr \<Rightarrow>
          Some (Fsm_read, call_handler on_message (Rm_row_description descr) (f\<lparr>rr_state := query_rows\<rparr>))
      | Command_complete tag \<Rightarrow>
          Some (Fsm_read, call_handler on_message (Rm_command_complete tag)
            (call_handler on_message (Rm_row_description empty_forward_view) (f\<lparr>rr_state := query_first\<rparr>)))
      | Empty_query_response \<Rightarrow>
          if rr_state f \<noteq> msg_first then unexpected f
          else Some (Fsm_read, call_handler on_message Rm_empty_query_response (f\<lparr>rr_state := query_needs_ready\<rparr>))
      | Ready_for_query status \<Rightarrow>
          if rr_state f \<noteq> query_first then unexpected f
          else advance (f\<lparr>rr_state := msg_first\<rparr>)
      | _ \<Rightarrow> unexpected f)"

definition handle_query :: "'h handler_fn \<Rightarrow> any_backend_message \<Rightarrow> 'h read_response_fsm \<Rightarrow> 'h step_result" where
  "handle_query on_message msg f =
     (case rr_state f of
        msg_first \<Rightarrow> handle_query_first on_message msg f
      | query_first \<Rightarrow> handle_query_first on_message msg f
      | query_rows \<Rightarrow>
          (case msg of
             Error_response err \<Rightarrow> query_error on_message err f
           | Data_row columns \<Rightarrow> Some (Fsm_read, call_handler on_message (Rm_data_row columns) f)
           | Command_complete tag \<Rightarrow>
               Some (Fsm_read, call_handler on_message (Rm_command_complete tag) (f\<lparr>rr_state := query_first\<rparr>))
           | _ \<Rightarrow> unexpected f)
      | query_needs_ready \<Rightarrow>
          (case msg of
             Ready_for_query status \<Rightarrow> advance (f\<lparr>rr_state := msg_first\<rparr>)
           | _ \<Rightarrow> unexpected f)
      | query_copy_out \<Rightarrow>
          (case msg of
             Copy_data data \<Rightarrow> Some (Fsm_read, f)
           | Error_response err \<Rightarrow> query_error on_message err f
           | Copy_done \<Rightarrow> Some (Fsm_read, f\<lparr>rr_state := query_copy_out_needs_command_complete\<rparr>)
           | _ \<Rightarrow> unexpected f)
      | query_copy_out_needs_command_complete \<Rightarrow>
          (case msg of
             Error_response err \<Rightarrow> query_error on_message err f
           | Command_complete tag \<Rightarrow>
               Some (Fsm_read, (call_handler on_message (Rm_command_complete tag) f)\<lparr>rr_state := query_first\<rparr>)
           | _ \<Rightarrow> unexpected f)
      | _ \<Rightarrow> None)"

text \<open>The messages that may arrive at any moment and are skipped.\<close>

definition is_async_message :: "any_backend_message \<Rightarrow> bool" where
  "is_async_message msg =
     (case msg of
        Notice_response _ \<Rightarrow> True
      | Notification_response _ \<Rightarrow> True
      | Parameter_status _ \<Rightarrow> True
      | _ \<Rightarrow> False)"

text \<open>The loop of \<^verbatim>\<open>resume\<close>: flushes expect nothing and are passed over.\<close>

function resume_loop :: "'h handler_fn \<Rightarrow> any_backend_message \<Rightarrow> 'h read_response_fsm \<Rightarrow> 'h step_result" where
  "resume_loop on_message msg f =
     (if rr_current f < length (rr_messages f)
      then (case rr_messages f ! rr_current f of
              msg_bind \<Rightarrow> handle_bind on_message msg f
            | msg_close \<Rightarrow> handle_close on_message msg f
            | msg_describe \<Rightarrow> handle_describe on_message msg f
            | msg_execute \<Rightarrow> handle_execute on_message msg f
            | msg_flush \<Rightarrow> resume_loop on_message msg (f\<lparr>rr_current := rr_current f + 1\<rparr>)
            | msg_parse \<Rightarrow> handle_parse on_message msg f
            | msg_query \<Rightarrow> handle_query on_message msg f
            | msg_sync \<Rightarrow> handle_sync on_message msg f)
      else None)"
  by pat_completeness auto
termination
  by (relation "measure (\<lambda>(on_message, msg, f). length (rr_messages f) - rr_current f)") auto

declare resume_loop.simps [simp del]

definition rr_resume :: "'h handler_fn \<Rightarrow> any_backend_message \<Rightarrow> 'h read_response_fsm \<Rightarrow> 'h step_result" where
  "rr_resume on_message msg f =
     (if is_async_message msg then Some (Fsm_read, f) else resume_loop on_message msg f)"

text \<open>
  A caller resumes the machine with the messages it parses until the machine is done. The result keeps
  the messages that were not used.
\<close>

fun rr_run :: "'h handler_fn \<Rightarrow> any_backend_message list \<Rightarrow> 'h read_response_fsm \<Rightarrow>
    (fsm_result \<times> 'h read_response_fsm \<times> any_backend_message list) option" where
  "rr_run on_message [] f = Some (Fsm_read, f, [])"
| "rr_run on_message (m # ms) f =
     (case rr_resume on_message m f of
        None \<Rightarrow> None
      | Some (Fsm_read, f') \<Rightarrow> rr_run on_message ms f'
      | Some (Fsm_done ec, f') \<Rightarrow> Some (Fsm_done ec, f', ms))"

end
