(* ===== verification/Pg_Read_Response_Facts.thy ===== *)
theory Pg_Read_Response_Facts
  imports Pg_Read_Response_Fsm
begin

text \<open>
  Correctness of the response state machine for requests that \<^verbatim>\<open>check_request\<close> accepts: it never
  violates an assertion, it counts \<^verbatim>\<open>ReadyForQuery\<close> messages exactly, and a server that follows the
  protocol drives it to the end of the request with every handler call the request is entitled to.
\<close>

section \<open>Handler calls\<close>

type_synonym call_log = "(any_request_message \<times> nat) list"

definition deliver :: "'h handler_fn \<Rightarrow> call_log \<Rightarrow> 'h \<Rightarrow> 'h" where
  "deliver on_message cs h = fold (\<lambda>(m, n). on_message m n) cs h"

lemma deliver_simps [simp]:
  "deliver on_message [] h = h"
  "deliver on_message ((m, n) # cs) h = deliver on_message cs (on_message m n h)"
  "deliver on_message (cs @ ds) h = deliver on_message ds (deliver on_message cs h)"
  by (simp_all add: deliver_def)

fun skipped_calls :: "nat \<Rightarrow> request_message_type list \<Rightarrow> call_log" where
  "skipped_calls n [] = []"
| "skipped_calls n (t # ts) =
     (if t = msg_flush then skipped_calls (Suc n) ts else (Rm_message_skipped, n) # skipped_calls (Suc n) ts)"

lemma call_handler_simps [simp]:
  "rr_messages (call_handler on_message m f) = rr_messages f"
  "rr_current (call_handler on_message m f) = rr_current f"
  "rr_state (call_handler on_message m f) = rr_state f"
  "rr_allow_copy (call_handler on_message m f) = rr_allow_copy f"
  "rr_handler (call_handler on_message m f) = on_message m (rr_current f) (rr_handler f)"
  by (simp_all add: call_handler_def)

lemma skip_to_sync_found:
  assumes "rr_messages f = pre @ es @ msg_sync # rest" and "rr_current f = length pre"
    and "list_all is_ext es"
  shows "skip_to_sync on_message f = Some (Fsm_read, f\<lparr>rr_current := length pre + length es,
    rr_handler := deliver on_message (skipped_calls (length pre) es) (rr_handler f)\<rparr>)"
  using assms
proof (induction es arbitrary: pre f)
  case Nil
  then show ?case by (subst skip_to_sync.simps) (simp add: nth_append)
next
  case (Cons t es)
  have at: "rr_messages f ! rr_current f = t" "rr_current f < length (rr_messages f)"
    using Cons.prems by (simp_all add: nth_append)
  let ?g = "(if t = msg_flush then f else call_handler on_message Rm_message_skipped f)
    \<lparr>rr_current := rr_current f + 1\<rparr>"
  have "skip_to_sync on_message f = skip_to_sync on_message ?g"
    using at Cons.prems(3)
    by (subst skip_to_sync.simps) (auto simp: is_ext_def split: request_message_type.splits)
  also have "\<dots> = Some (Fsm_read, ?g\<lparr>rr_current := length (pre @ [t]) + length es,
      rr_handler := deliver on_message (skipped_calls (length (pre @ [t])) es) (rr_handler ?g)\<rparr>)"
    by (rule Cons.IH) (use Cons.prems in auto)
  finally show ?case using Cons.prems by (auto simp: call_handler_def)
qed

section \<open>The invariant\<close>

definition state_fits :: "state_t \<Rightarrow> request_message_type \<Rightarrow> bool" where
  "state_fits s t =
     (case s of
        msg_first \<Rightarrow> True
      | exec_copy_out \<Rightarrow> t = msg_execute
      | exec_copy_out_needs_command_complete \<Rightarrow> t = msg_execute
      | _ \<Rightarrow> t = msg_query)"

definition rr_inv :: "'h read_response_fsm \<Rightarrow> bool" where
  "rr_inv f \<longleftrightarrow> rr_current f < length (rr_messages f) \<and> batches (get_remaining_messages f) \<and>
     state_fits (rr_state f) (rr_messages f ! rr_current f)"

definition expects_rfq :: "request_message_type \<Rightarrow> bool" where
  "expects_rfq t \<longleftrightarrow> t = msg_query \<or> t = msg_sync"

text \<open>\<^verbatim>\<open>get_expected_rfqs\<close> of the multiplexer.\<close>

definition get_expected_rfqs :: "request_message_type list \<Rightarrow> nat" where
  "get_expected_rfqs msgs = length (filter expects_rfq msgs)"

lemma get_expected_rfqs_simps [simp]:
  "get_expected_rfqs [] = 0"
  "get_expected_rfqs (t # ts) = (if expects_rfq t then 1 else 0) + get_expected_rfqs ts"
  "get_expected_rfqs (ts @ us) = get_expected_rfqs ts + get_expected_rfqs us"
  by (simp_all add: get_expected_rfqs_def)

lemma no_rfqs_ext: "list_all is_ext es \<Longrightarrow> get_expected_rfqs es = 0"
  by (induction es) (auto simp: is_ext_def expects_rfq_def)

definition is_ready :: "any_backend_message \<Rightarrow> bool" where
  "is_ready m \<longleftrightarrow> (\<exists>s. m = Ready_for_query s)"

lemma batches_tl:
  assumes "batches (t # ts)"
  shows "batches ts \<and> (\<not> expects_rfq t \<longrightarrow> (\<exists>es rest. ts = es @ msg_sync # rest \<and> list_all is_ext es \<and> batches rest))"
  using assms
proof (cases rule: batches.cases)
  case (batches_ext es us)
  then show ?thesis
    by (cases es) (auto simp: expects_rfq_def is_ext_def intro: batches.batches_ext)
qed (simp_all add: expects_rfq_def)

text \<open>
  What a step may do: it returns, keeps the invariant while more messages are needed, and accounts for
  a \<^verbatim>\<open>ReadyForQuery\<close> message exactly when it consumes one.
\<close>

definition good_step ::
    "any_backend_message \<Rightarrow> request_message_type list \<Rightarrow> nat \<Rightarrow> 'h step_result \<Rightarrow> bool" where
  "good_step m types cur r \<longleftrightarrow> (\<exists>res f'. r = Some (res, f') \<and> rr_messages f' = types \<and>
     (case res of
        Fsm_read \<Rightarrow> rr_inv f' \<and> get_expected_rfqs (drop cur types) =
          get_expected_rfqs (get_remaining_messages f') + (if is_ready m then 1 else 0)
      | Fsm_done None \<Rightarrow> is_ready m \<and> get_expected_rfqs (drop cur types) = 1 \<and> get_remaining_messages f' = []
      | Fsm_done (Some e) \<Rightarrow> e = Client unexpected_message \<or> e = Client copy_not_allowed))"

lemma good_step_cong:
  "get_expected_rfqs (drop cur types) = get_expected_rfqs (drop cur' types) \<Longrightarrow>
   good_step m types cur r = good_step m types cur' r"
  by (simp only: good_step_def)

lemma good_refused:
  "rr_messages f = types \<Longrightarrow> e = Client unexpected_message \<or> e = Client copy_not_allowed \<Longrightarrow>
   good_step m types cur (Some (Fsm_done (Some e), f))"
  by (auto simp: good_step_def)

lemma good_stay:
  "rr_messages f = types \<Longrightarrow> rr_inv f \<Longrightarrow> rr_current f = cur \<Longrightarrow> \<not> is_ready m \<Longrightarrow>
   good_step m types cur (Some (Fsm_read, f))"
  by (simp add: good_step_def get_remaining_messages_def)

lemma rr_inv_drop:
  assumes "rr_inv f"
  obtains pre ts where "rr_messages f = pre @ (rr_messages f ! rr_current f) # ts"
    "rr_current f = length pre" "batches ((rr_messages f ! rr_current f) # ts)"
    "drop (rr_current f) (rr_messages f) = (rr_messages f ! rr_current f) # ts"
proof (rule that)
  have "rr_current f < length (rr_messages f)" using assms by (simp add: rr_inv_def)
  note eqs = id_take_nth_drop [OF this] Cons_nth_drop_Suc [OF this]
  show "rr_messages f = take (rr_current f) (rr_messages f) @ (rr_messages f ! rr_current f) #
      drop (Suc (rr_current f)) (rr_messages f)"
    and "drop (rr_current f) (rr_messages f) =
      (rr_messages f ! rr_current f) # drop (Suc (rr_current f)) (rr_messages f)"
    by (rule eqs(1), rule eqs(2) [symmetric])
  show "rr_current f = length (take (rr_current f) (rr_messages f))"
    and "batches ((rr_messages f ! rr_current f) # drop (Suc (rr_current f)) (rr_messages f))"
    using assms eqs(2) by (simp_all add: rr_inv_def get_remaining_messages_def)
qed

lemma good_advance:
  assumes "rr_inv f" and "rr_state f = msg_first"
    and "is_ready m \<longleftrightarrow> expects_rfq (rr_messages f ! rr_current f)"
  shows "good_step m (rr_messages f) (rr_current f) (advance f)"
proof -
  obtain pre ts where f: "rr_messages f = pre @ (rr_messages f ! rr_current f) # ts"
    "rr_current f = length pre" "batches ((rr_messages f ! rr_current f) # ts)"
    "drop (rr_current f) (rr_messages f) = (rr_messages f ! rr_current f) # ts"
    by (rule rr_inv_drop [OF assms(1)])
  have d: "drop (Suc (rr_current f)) (rr_messages f) = ts" using f(4) by (metis drop_Suc list.sel(3) tl_drop)
  note tl = batches_tl [OF f(3)]
  show ?thesis
  proof (cases ts)
    case Nil
    then have "is_ready m" using tl assms(3) by auto
    moreover have "length (rr_messages f) \<le> Suc (rr_current f)" using Nil d by simp
    ultimately show ?thesis
      using assms(3) Nil f(4) by (simp add: advance_def good_step_def get_remaining_messages_def)
  next
    case (Cons u us)
    then have "Suc (rr_current f) < length (rr_messages f)" using d by (metis drop_eq_Nil linorder_not_less list.distinct(1))
    then show ?thesis
      using tl assms d f(4)
      by (simp add: advance_def good_step_def get_remaining_messages_def rr_inv_def state_fits_def)
  qed
qed

lemma good_handle_error:
  assumes "rr_inv f" and "\<not> expects_rfq (rr_messages f ! rr_current f)" and "\<not> is_ready m"
  shows "good_step m (rr_messages f) (rr_current f) (handle_error on_message err f)"
proof -
  obtain pre ts where f: "rr_messages f = pre @ (rr_messages f ! rr_current f) # ts"
    "rr_current f = length pre" "batches ((rr_messages f ! rr_current f) # ts)"
    "drop (rr_current f) (rr_messages f) = (rr_messages f ! rr_current f) # ts"
    by (rule rr_inv_drop [OF assms(1)])
  obtain es rest where ts: "ts = es @ msg_sync # rest" "list_all is_ext es" "batches rest"
    using batches_tl [OF f(3)] assms(2) by blast
  let ?t = "rr_messages f ! rr_current f"
  let ?g = "(call_handler on_message (Rm_error_response err) f)\<lparr>rr_current := rr_current f + 1, rr_state := msg_first\<rparr>"
  have eq: "rr_messages f = (pre @ [?t]) @ es @ msg_sync # rest" using f(1) ts(1) by simp
  have d: "drop (length (pre @ [?t]) + length es) (rr_messages f) = msg_sync # rest"
    by (subst eq) simp
  have "handle_error on_message err f = Some (Fsm_read, ?g\<lparr>rr_current := length (pre @ [?t]) + length es,
      rr_handler := deliver on_message (skipped_calls (length (pre @ [?t])) es) (rr_handler ?g)\<rparr>)"
    unfolding handle_error_def
    by (rule skip_to_sync_found [where rest = rest]) (use eq f(2) ts(2) in simp_all)
  moreover have "batches (msg_sync # rest)" using batches_ext [of "[]" rest] ts(3) by simp
  moreover have "length (pre @ [?t]) + length es < length (rr_messages f)"
    by (subst eq) simp
  ultimately show ?thesis
    using assms(2,3) d f(4) ts(1) no_rfqs_ext [OF ts(2)]
    by (simp add: good_step_def rr_inv_def get_remaining_messages_def state_fits_def)
qed

lemma batches_expects: "batches ts \<Longrightarrow> ts \<noteq> [] \<Longrightarrow> \<exists>t \<in> set ts. expects_rfq t"
  by (cases rule: batches.cases) (auto simp: expects_rfq_def)

lemma batches_rfqs: "batches ts \<Longrightarrow> ts \<noteq> [] \<Longrightarrow> 0 < get_expected_rfqs ts"
  using batches_expects by (auto simp: get_expected_rfqs_def filter_empty_conv)

lemma rr_inv_rfqs: "rr_inv f \<Longrightarrow> 0 < get_expected_rfqs (get_remaining_messages f)"
  by (rule batches_rfqs) (simp_all add: rr_inv_def get_remaining_messages_def)

lemma checked_rfqs: "check_request req = None \<Longrightarrow> 0 < get_expected_rfqs (req_types req)"
  by (rule batches_rfqs) (auto simp: check_request_def check_loop_None_iff split: if_splits)

section \<open>Every step is good\<close>

lemma rr_inv_update [simp]:
  "rr_inv (call_handler on_message m f) = rr_inv f"
  by (simp add: rr_inv_def get_remaining_messages_def)

lemma rr_handler_update [simp]:
  "rr_inv (f\<lparr>rr_handler := h\<rparr>) = rr_inv f"
  "get_remaining_messages (f\<lparr>rr_handler := h\<rparr>) = get_remaining_messages f"
  by (simp_all add: rr_inv_def get_remaining_messages_def)

lemma rr_inv_state:
  "rr_inv f \<Longrightarrow> state_fits s (rr_messages f ! rr_current f) \<Longrightarrow> rr_inv (f\<lparr>rr_state := s\<rparr>)"
  by (simp add: rr_inv_def get_remaining_messages_def)

lemma is_ready_simps [simp]:
  "is_ready (Ready_for_query s)" "\<not> is_ready (Error_response e)" "\<not> is_ready Bind_complete"
  "\<not> is_ready Close_complete" "\<not> is_ready (Row_description d)" "\<not> is_ready No_data"
  "\<not> is_ready (Copy_out_response c)" "\<not> is_ready (Command_complete t)" "\<not> is_ready Empty_query_response"
  "\<not> is_ready Portal_suspended" "\<not> is_ready (Data_row d)" "\<not> is_ready (Copy_data b)"
  "\<not> is_ready Copy_done" "\<not> is_ready Parse_complete"
  by (simp_all add: is_ready_def)

text \<open>Steps that go on from a machine that differs in its handler and its state only.\<close>

lemma good_via:
  assumes "good_step m (rr_messages g) (rr_current g) r" and "rr_messages g = rr_messages f"
    and "rr_current g = rr_current f"
  shows "good_step m (rr_messages f) (rr_current f) r"
  using assms by simp

lemma good_advance_via:
  assumes "rr_inv f" and "rr_messages g = rr_messages f" and "rr_current g = rr_current f"
    and "rr_state g = msg_first" and "is_ready m \<longleftrightarrow> expects_rfq (rr_messages f ! rr_current f)"
  shows "good_step m (rr_messages f) (rr_current f) (advance g)"
proof -
  have "rr_inv g" using assms(1-4) by (simp add: rr_inv_def get_remaining_messages_def state_fits_def)
  then show ?thesis using good_advance [of g m] assms by simp
qed

lemma good_stay_via:
  assumes "rr_inv f" and "rr_messages g = rr_messages f" and "rr_current g = rr_current f"
    and "state_fits (rr_state g) (rr_messages f ! rr_current f)" and "\<not> is_ready m"
  shows "good_step m (rr_messages f) (rr_current f) (Some (Fsm_read, g))"
  using assms by (intro good_stay) (simp_all add: rr_inv_def get_remaining_messages_def)

lemmas good_intros = good_refused good_advance_via good_stay_via good_handle_error

lemma good_simple_handlers:
  assumes "rr_inv f" and "rr_state f = msg_first"
  shows "rr_messages f ! rr_current f = msg_bind \<Longrightarrow>
      good_step m (rr_messages f) (rr_current f) (handle_bind on_message m f)"
    and "rr_messages f ! rr_current f = msg_close \<Longrightarrow>
      good_step m (rr_messages f) (rr_current f) (handle_close on_message m f)"
    and "rr_messages f ! rr_current f = msg_describe \<Longrightarrow>
      good_step m (rr_messages f) (rr_current f) (handle_describe on_message m f)"
    and "rr_messages f ! rr_current f = msg_parse \<Longrightarrow>
      good_step m (rr_messages f) (rr_current f) (handle_parse on_message m f)"
    and "rr_messages f ! rr_current f = msg_sync \<Longrightarrow>
      good_step m (rr_messages f) (rr_current f) (handle_sync on_message m f)"
  using assms
  by (cases m; simp add: handle_bind_def handle_close_def handle_describe_def handle_parse_def
      handle_sync_def expects_rfq_def good_intros)+

lemma good_execute:
  assumes "rr_inv f" and "rr_messages f ! rr_current f = msg_execute"
  shows "good_step m (rr_messages f) (rr_current f) (handle_execute on_message m f)"
  using assms
  by (cases "rr_state f"; cases m)
    (simp_all add: handle_execute_def expects_rfq_def state_fits_def good_intros)

lemma good_query:
  assumes "rr_inv f" and "rr_messages f ! rr_current f = msg_query"
  shows "good_step m (rr_messages f) (rr_current f) (handle_query on_message m f)"
proof -
  have "state_fits (rr_state f) msg_query" using assms by (simp add: rr_inv_def)
  then show ?thesis
    using assms
    by (cases "rr_state f"; cases m)
      (simp_all add: handle_query_def handle_query_first_def expects_rfq_def state_fits_def good_intros)
qed

lemma rr_inv_msg_first:
  "rr_inv f \<Longrightarrow> rr_messages f ! rr_current f \<notin> {msg_query, msg_execute} \<Longrightarrow> rr_state f = msg_first"
  by (auto simp: rr_inv_def state_fits_def split: state_t.splits)

lemma good_resume_loop:
  "rr_inv f \<Longrightarrow> good_step m (rr_messages f) (rr_current f) (resume_loop on_message m f)"
proof (induction "length (rr_messages f) - rr_current f" arbitrary: f rule: less_induct)
  case less
  have lt: "rr_current f < length (rr_messages f)" using less.prems by (simp add: rr_inv_def)
  have simple: "rr_messages f ! rr_current f \<notin> {msg_query, msg_execute} \<Longrightarrow> rr_state f = msg_first"
    by (rule rr_inv_msg_first [OF less.prems])
  show ?case
  proof (cases "rr_messages f ! rr_current f = msg_flush")
    case True
    let ?g = "f\<lparr>rr_current := rr_current f + 1\<rparr>"
    obtain pre ts where f: "rr_messages f = pre @ msg_flush # ts" "rr_current f = length pre"
      "batches (msg_flush # ts)" using rr_inv_drop [OF less.prems] True by metis
    then have inv: "rr_inv ?g"
      using batches_tl [OF f(3)] simple True
      by (auto simp: rr_inv_def get_remaining_messages_def state_fits_def expects_rfq_def)
    have "good_step m (rr_messages ?g) (rr_current ?g) (resume_loop on_message m ?g)"
      by (rule less.hyps) (use lt inv in simp_all)
    moreover have "get_expected_rfqs (drop (Suc (rr_current f)) (rr_messages f)) =
        get_expected_rfqs (drop (rr_current f) (rr_messages f))"
      by (simp add: f expects_rfq_def)
    ultimately show ?thesis
      using lt True good_step_cong by (subst resume_loop.simps) fastforce
  next
    case False
    then show ?thesis
      using lt good_simple_handlers [OF less.prems simple] good_execute [OF less.prems]
        good_query [OF less.prems]
      by (subst resume_loop.simps) (cases "rr_messages f ! rr_current f"; simp)
  qed
qed

lemma good_resume: "rr_inv f \<Longrightarrow> good_step m (rr_messages f) (rr_current f) (rr_resume on_message m f)"
  using good_resume_loop [of f m] good_stay [of f]
  by (cases m) (auto simp: rr_resume_def is_async_message_def is_ready_def)

lemma good_resumeE:
  assumes "rr_inv f"
  obtains res f1 where "rr_resume on_message m f = Some (res, f1)" and "rr_messages f1 = rr_messages f"
    and "case res of
        Fsm_read \<Rightarrow> rr_inv f1 \<and> get_expected_rfqs (get_remaining_messages f) =
          get_expected_rfqs (get_remaining_messages f1) + (if is_ready m then 1 else 0)
      | Fsm_done None \<Rightarrow> is_ready m \<and> get_expected_rfqs (get_remaining_messages f) = 1 \<and> get_remaining_messages f1 = []
      | Fsm_done (Some e) \<Rightarrow> e = Client unexpected_message \<or> e = Client copy_not_allowed"
  using good_resume [OF assms, of m on_message]
  unfolding good_step_def get_remaining_messages_def [of f, symmetric] by blast

lemma rr_inv_init: "check_request req = None \<Longrightarrow> rr_inv (read_response_fsm_init req h ac)"
  by (auto simp: check_request_def check_loop_None_iff rr_inv_def read_response_fsm_init_def
      get_remaining_messages_def state_fits_def split: if_splits)

lemma rr_run_good:
  assumes "rr_inv f"
  shows "\<exists>res f' rest used. rr_run on_message ms f = Some (res, f', rest) \<and> ms = used @ rest \<and>
    rr_messages f' = rr_messages f \<and>
    (case res of
       Fsm_read \<Rightarrow> rest = [] \<and> rr_inv f' \<and> get_expected_rfqs (get_remaining_messages f) =
         get_expected_rfqs (get_remaining_messages f') + length (filter is_ready used)
     | Fsm_done None \<Rightarrow>
         get_expected_rfqs (get_remaining_messages f) = length (filter is_ready used) \<and>
         get_remaining_messages f' = []
     | Fsm_done (Some e) \<Rightarrow> e = Client unexpected_message \<or> e = Client copy_not_allowed)"
  using assms
proof (induction ms arbitrary: f)
  case Nil
  then show ?case by simp
next
  case (Cons m ms)
  obtain res f1 where r: "rr_resume on_message m f = Some (res, f1)" "rr_messages f1 = rr_messages f"
    and g: "case res of
        Fsm_read \<Rightarrow> rr_inv f1 \<and> get_expected_rfqs (get_remaining_messages f) =
          get_expected_rfqs (get_remaining_messages f1) + (if is_ready m then 1 else 0)
      | Fsm_done None \<Rightarrow> is_ready m \<and> get_expected_rfqs (get_remaining_messages f) = 1 \<and> get_remaining_messages f1 = []
      | Fsm_done (Some e) \<Rightarrow> e = Client unexpected_message \<or> e = Client copy_not_allowed"
    by (rule good_resumeE [OF Cons.prems])
  show ?case
  proof (cases res)
    case (Fsm_done ec)
    then show ?thesis using r g by (auto intro!: exI [of _ "[m]"] split: option.splits)
  next
    case Fsm_read
    then obtain res' f' rest used where s: "rr_run on_message ms f1 = Some (res', f', rest)" "ms = used @ rest"
      "rr_messages f' = rr_messages f1"
      "case res' of
       Fsm_read \<Rightarrow> rest = [] \<and> rr_inv f' \<and> get_expected_rfqs (get_remaining_messages f1) =
         get_expected_rfqs (get_remaining_messages f') + length (filter is_ready used)
     | Fsm_done None \<Rightarrow>
         get_expected_rfqs (get_remaining_messages f1) = length (filter is_ready used) \<and>
         get_remaining_messages f' = []
     | Fsm_done (Some e) \<Rightarrow> e = Client unexpected_message \<or> e = Client copy_not_allowed"
      using Cons.IH [of f1] g by auto
    then show ?thesis
      using r g Fsm_read
      by (intro exI [of _ res'] exI [of _ f'] exI [of _ rest] exI [of _ "m # used"])
        (auto split: fsm_result.splits option.splits)
  qed
qed

subsection \<open>Steps only call the handler\<close>

definition handler_reach :: "'h handler_fn \<Rightarrow> 'h \<Rightarrow> 'h \<Rightarrow> bool" where
  "handler_reach on_message h h' \<longleftrightarrow> (\<exists>cs. h' = deliver on_message cs h)"

lemma handler_reach_intros [intro, simp]:
  "handler_reach on_message h h"
  "handler_reach on_message h h' \<Longrightarrow> handler_reach on_message h (on_message m n h')"
proof -
  show "handler_reach on_message h h" unfolding handler_reach_def by (rule exI [of _ "[]"]) simp
  show "handler_reach on_message h h' \<Longrightarrow> handler_reach on_message h (on_message m n h')"
    unfolding handler_reach_def
  proof (elim exE)
    show "h' = deliver on_message cs h \<Longrightarrow> \<exists>cs. on_message m n h' = deliver on_message cs h" for cs
      by (rule exI [of _ "cs @ [(m, n)]"]) simp
  qed
qed

lemma skip_to_sync_reach:
  "skip_to_sync on_message f = Some (res, f') \<Longrightarrow> handler_reach on_message h (rr_handler f) \<Longrightarrow>
   handler_reach on_message h (rr_handler f')"
proof (induction on_message f rule: skip_to_sync.induct)
  case (1 on_message f)
  from "1.prems" show ?case
    by (subst (asm) skip_to_sync.simps)
      (auto split: if_splits request_message_type.splits dest: "1.IH")
qed

lemma handler_steps_reach:
  assumes "r \<in> {handle_bind on_message m f, handle_close on_message m f, handle_describe on_message m f,
      handle_execute on_message m f, handle_parse on_message m f, handle_query on_message m f,
      handle_sync on_message m f}"
    and "r = Some (res, f')"
  shows "handler_reach on_message (rr_handler f) (rr_handler f')"
proof -
  have err: "handler_reach on_message (rr_handler f) (rr_handler f')"
    if "handle_error on_message e f = Some (res, f')" for e
    using that unfolding handle_error_def by (rule skip_to_sync_reach) simp
  have adv: "handler_reach on_message (rr_handler f) (rr_handler f')"
    if "advance g = Some (res, f')" "handler_reach on_message (rr_handler f) (rr_handler g)" for g
    using that by (auto simp: advance_def Let_def split: if_splits)
  show ?thesis
    using assms
    by (cases m; cases "rr_state f")
      (auto simp: handle_bind_def handle_close_def handle_describe_def handle_execute_def handle_parse_def
        handle_query_def handle_query_first_def handle_sync_def split: if_splits dest: err [OF sym] dest!: adv [OF sym])
qed

lemma resume_loop_reach:
  "resume_loop on_message m f = Some (res, f') \<Longrightarrow> handler_reach on_message (rr_handler f) (rr_handler f')"
proof (induction on_message m f rule: resume_loop.induct)
  case (1 on_message m f)
  show ?case
  proof (cases "rr_current f < length (rr_messages f) \<and> rr_messages f ! rr_current f = msg_flush")
    case True
    then show ?thesis using 1 by (subst (asm) (2) resume_loop.simps) simp
  next
    case False
    have "rr_current f < length (rr_messages f)"
      using "1.prems" by (subst (asm) resume_loop.simps) (simp split: if_splits)
    with False have "resume_loop on_message m f \<in> {handle_bind on_message m f, handle_close on_message m f,
        handle_describe on_message m f, handle_execute on_message m f, handle_parse on_message m f,
        handle_query on_message m f, handle_sync on_message m f}"
      by (subst resume_loop.simps) (simp split: request_message_type.splits)
    from handler_steps_reach [OF this "1.prems"] show ?thesis .
  qed
qed

lemma rr_resume_reach:
  "rr_resume on_message m f = Some (res, f') \<Longrightarrow> handler_reach on_message (rr_handler f) (rr_handler f')"
  using resume_loop_reach by (auto simp: rr_resume_def split: if_splits)

text \<open>
  C10. For a request that \<^verbatim>\<open>check_request\<close> accepts, the state machine handles every sequence of
  server messages: no assertion fails, no message of the request is read out of range, and a failure
  is one of the two errors of the protocol layer. After any number of messages that did not fail, the
  \<^verbatim>\<open>ReadyForQuery\<close> messages received and the ones \<^verbatim>\<open>get_expected_rfqs\<close> counts in the remaining
  messages add up to those of the request; a successful end has used exactly these.
\<close>

theorem response_fsm_safe_and_counts:
  assumes "check_request req = None"
  shows "\<exists>res f' rest used. rr_run on_message ms (read_response_fsm_init req h ac) = Some (res, f', rest) \<and>
    ms = used @ rest \<and>
    (res = Fsm_read \<longrightarrow> rest = [] \<and>
       length (filter is_ready used) + get_expected_rfqs (get_remaining_messages f') =
         get_expected_rfqs (req_types req)) \<and>
    (res = Fsm_done None \<longrightarrow> length (filter is_ready used) = get_expected_rfqs (req_types req)) \<and>
    (\<forall>e. res = Fsm_done (Some e) \<longrightarrow> e = Client unexpected_message \<or> e = Client copy_not_allowed)"
  using rr_run_good [OF rr_inv_init [OF assms, of h ac], of on_message ms]
  by (fastforce simp: read_response_fsm_init_def get_remaining_messages_def
      split: fsm_result.splits option.splits)

theorem response_fsm_safe_and_counts_witness:
  "\<exists>res f' rest used. rr_run (\<lambda>m n h. (m, n) # h) [Parse_complete, Ready_for_query status_idle]
      (read_response_fsm_init \<lparr>req_buffer = [], req_types = [msg_parse, msg_sync], req_autosync = True\<rparr> [] False) =
      Some (res, f', rest) \<and> [Parse_complete, Ready_for_query status_idle] = used @ rest \<and>
      res = Fsm_done None \<and> length (filter is_ready used) = 1"
  using response_fsm_safe_and_counts [of
      "\<lparr>req_buffer = [], req_types = [msg_parse, msg_sync], req_autosync = True\<rparr>" "\<lambda>m n h. (m, n) # h"
      "[Parse_complete, Ready_for_query status_idle]" "[]" False]
  by (auto simp: check_request_def expects_rfq_def read_response_fsm_init_def rr_resume_def
      is_async_message_def resume_loop.simps handle_parse_def handle_sync_def advance_def call_handler_def)

end
