(* ===== verification/Pg_Conversation.thy ===== *)
theory Pg_Conversation
  imports Pg_Read_Response_Facts
begin

text \<open>
  The conversation the PostgreSQL protocol prescribes, as a relation between the messages of a request,
  the messages a conforming server answers with and the calls the response handler is entitled to. The
  state machine follows every such conversation to its end, with exactly these calls.
\<close>

section \<open>Replies of a conforming server\<close>

text \<open>A complete reply to an Execute, and what may arrive before an error interrupts it.\<close>

inductive exec_reply :: "bool \<Rightarrow> any_backend_message list \<Rightarrow> any_request_message list \<Rightarrow> bool" for ac where
  exec_rows: "exec_reply ac (map Data_row rows @ [Command_complete tag])
    (map Rm_data_row rows @ [Rm_command_complete tag])"
| exec_suspended: "exec_reply ac (map Data_row rows @ [Portal_suspended])
    (map Rm_data_row rows @ [Rm_portal_suspended])"
| exec_empty: "exec_reply ac [Empty_query_response] [Rm_empty_query_response]"
| exec_copy: "ac \<Longrightarrow> exec_reply ac (Copy_out_response c # map Copy_data ds @ [Copy_done, Command_complete tag])
    [Rm_row_description empty_forward_view, Rm_command_complete tag]"

inductive exec_partial :: "bool \<Rightarrow> any_backend_message list \<Rightarrow> any_request_message list \<Rightarrow> bool" for ac where
  partial_rows: "exec_partial ac (map Data_row rows) (map Rm_data_row rows)"
| partial_copy: "ac \<Longrightarrow> exec_partial ac (Copy_out_response c # map Copy_data ds)
    [Rm_row_description empty_forward_view]"
| partial_copy_done: "ac \<Longrightarrow> exec_partial ac (Copy_out_response c # map Copy_data ds @ [Copy_done])
    [Rm_row_description empty_forward_view]"

text \<open>One result of a simple query, and an interrupted one.\<close>

inductive query_result :: "bool \<Rightarrow> any_backend_message list \<Rightarrow> any_request_message list \<Rightarrow> bool" for ac where
  result_rows: "query_result ac (Row_description d # map Data_row rows @ [Command_complete tag])
    (Rm_row_description d # map Rm_data_row rows @ [Rm_command_complete tag])"
| result_command: "query_result ac [Command_complete tag]
    [Rm_row_description empty_forward_view, Rm_command_complete tag]"
| result_copy: "ac \<Longrightarrow> query_result ac (Copy_out_response c # map Copy_data ds @ [Copy_done, Command_complete tag])
    [Rm_row_description empty_forward_view, Rm_command_complete tag]"

inductive query_partial :: "bool \<Rightarrow> any_backend_message list \<Rightarrow> any_request_message list \<Rightarrow> bool" for ac where
  query_partial_start: "query_partial ac [] []"
| query_partial_rows: "query_partial ac (Row_description d # map Data_row rows)
    (Rm_row_description d # map Rm_data_row rows)"
| query_partial_copy: "ac \<Longrightarrow> query_partial ac (Copy_out_response c # map Copy_data ds)
    [Rm_row_description empty_forward_view]"
| query_partial_copy_done: "ac \<Longrightarrow> query_partial ac (Copy_out_response c # map Copy_data ds @ [Copy_done])
    [Rm_row_description empty_forward_view]"

inductive query_results :: "bool \<Rightarrow> any_backend_message list \<Rightarrow> any_request_message list \<Rightarrow> bool" for ac where
  results_one: "query_result ac xs ys \<Longrightarrow> query_results ac xs ys"
| results_more: "query_results ac xs ys \<Longrightarrow> query_result ac xs' ys' \<Longrightarrow>
    query_results ac (xs @ xs') (ys @ ys')"

inductive query_reply :: "bool \<Rightarrow> any_backend_message list \<Rightarrow> any_request_message list \<Rightarrow> bool" for ac where
  query_empty: "query_reply ac [Empty_query_response] [Rm_empty_query_response]"
| query_ok: "query_results ac xs ys \<Longrightarrow> query_reply ac xs ys"
| query_failed: "query_partial ac xs ys \<Longrightarrow>
    query_reply ac (xs @ [Error_response e]) (ys @ [Rm_error_response e])"
| query_failed_later: "query_results ac xs ys \<Longrightarrow> query_partial ac xs' ys' \<Longrightarrow>
    query_reply ac (xs @ xs' @ [Error_response e]) (ys @ ys' @ [Rm_error_response e])"

text \<open>The messages of a request that are answered by one message, with the handler's view of it.\<close>

inductive simple_reply :: "request_message_type \<Rightarrow> any_backend_message \<Rightarrow> any_request_message \<Rightarrow> bool" where
  "simple_reply msg_parse Parse_complete Rm_parse_complete"
| "simple_reply msg_bind Bind_complete Rm_bind_complete"
| "simple_reply msg_close Close_complete Rm_close_complete"
| "simple_reply msg_describe (Row_description d) (Rm_row_description d)"
| "simple_reply msg_describe No_data (Rm_row_description empty_forward_view)"

definition calls_at :: "nat \<Rightarrow> any_request_message list \<Rightarrow> call_log" where
  "calls_at n ys = map (\<lambda>y. (y, n)) ys"

lemma calls_at_simps [simp]:
  "calls_at n [] = []" "calls_at n (y # ys) = (y, n) # calls_at n ys"
  "calls_at n (ys @ zs) = calls_at n ys @ calls_at n zs"
  by (simp_all add: calls_at_def)

text \<open>
  \<open>replies ac n ts ms cs\<close>: the server answers the messages \<open>ts\<close>, the first of which has the index
  \<open>n\<close> in the request, with \<open>ms\<close>, and the handler is called with \<open>cs\<close>. An error inside an extended
  batch makes the server skip everything up to the next Sync.
\<close>

inductive replies :: "bool \<Rightarrow> nat \<Rightarrow> request_message_type list \<Rightarrow> any_backend_message list \<Rightarrow> call_log \<Rightarrow> bool"
  for ac where
  replies_end: "replies ac n [] [] []"
| replies_flush: "replies ac (Suc n) ts ms cs \<Longrightarrow> replies ac n (msg_flush # ts) ms cs"
| replies_sync: "replies ac (Suc n) ts ms cs \<Longrightarrow> replies ac n (msg_sync # ts) (Ready_for_query s # ms) cs"
| replies_simple: "simple_reply t x y \<Longrightarrow> replies ac (Suc n) ts ms cs \<Longrightarrow>
    replies ac n (t # ts) (x # ms) ((y, n) # cs)"
| replies_execute: "exec_reply ac xs ys \<Longrightarrow> replies ac (Suc n) ts ms cs \<Longrightarrow>
    replies ac n (msg_execute # ts) (xs @ ms) (calls_at n ys @ cs)"
| replies_query: "query_reply ac xs ys \<Longrightarrow> replies ac (Suc n) ts ms cs \<Longrightarrow>
    replies ac n (msg_query # ts) (xs @ Ready_for_query s # ms) (calls_at n ys @ cs)"
| replies_error: "is_ext t \<Longrightarrow> t \<noteq> msg_flush \<Longrightarrow>
    (if t = msg_execute then exec_partial ac xs ys else xs = [] \<and> ys = []) \<Longrightarrow>
    list_all is_ext es \<Longrightarrow> replies ac (n + 1 + length es) (msg_sync # rest) ms cs \<Longrightarrow>
    replies ac n (t # es @ msg_sync # rest) (xs @ Error_response e # ms)
      (calls_at n ys @ (Rm_error_response e, n) # skipped_calls (Suc n) es @ cs)"

section \<open>The machine on one message of the request\<close>

lemma rr_resume_at:
  assumes "rr_current f < length (rr_messages f)" and "\<not> is_async_message m"
  shows "rr_messages f ! rr_current f = msg_execute \<Longrightarrow> rr_resume on_message m f = handle_execute on_message m f"
    and "rr_messages f ! rr_current f = msg_query \<Longrightarrow> rr_resume on_message m f = handle_query on_message m f"
    and "rr_messages f ! rr_current f = msg_sync \<Longrightarrow> rr_resume on_message m f = handle_sync on_message m f"
    and "rr_messages f ! rr_current f = msg_parse \<Longrightarrow> rr_resume on_message m f = handle_parse on_message m f"
    and "rr_messages f ! rr_current f = msg_bind \<Longrightarrow> rr_resume on_message m f = handle_bind on_message m f"
    and "rr_messages f ! rr_current f = msg_close \<Longrightarrow> rr_resume on_message m f = handle_close on_message m f"
    and "rr_messages f ! rr_current f = msg_describe \<Longrightarrow> rr_resume on_message m f = handle_describe on_message m f"
    and "rr_messages f ! rr_current f = msg_flush \<Longrightarrow>
      rr_resume on_message m f = rr_resume on_message m (f\<lparr>rr_current := rr_current f + 1\<rparr>)"
  using assms by (simp_all add: rr_resume_def resume_loop.simps [of on_message m f])

lemma is_async_simps [simp]:
  "\<not> is_async_message (Ready_for_query s)" "\<not> is_async_message (Error_response e)"
  "\<not> is_async_message Bind_complete" "\<not> is_async_message Close_complete"
  "\<not> is_async_message (Row_description d)" "\<not> is_async_message No_data"
  "\<not> is_async_message (Copy_out_response c)" "\<not> is_async_message (Command_complete t)"
  "\<not> is_async_message Empty_query_response" "\<not> is_async_message Portal_suspended"
  "\<not> is_async_message (Data_row r)" "\<not> is_async_message (Copy_data b)"
  "\<not> is_async_message Copy_done" "\<not> is_async_message Parse_complete"
  by (simp_all add: is_async_message_def)

text \<open>The machine with the handler and the state it has after some calls for the current message.\<close>

definition after_calls ::
    "'h handler_fn \<Rightarrow> any_request_message list \<Rightarrow> state_t \<Rightarrow> 'h read_response_fsm \<Rightarrow> 'h read_response_fsm" where
  "after_calls on_message ys s f =
     f\<lparr>rr_handler := deliver on_message (calls_at (rr_current f) ys) (rr_handler f), rr_state := s\<rparr>"

lemma after_calls_simps [simp]:
  "rr_messages (after_calls on_message ys s f) = rr_messages f"
  "rr_current (after_calls on_message ys s f) = rr_current f"
  "rr_state (after_calls on_message ys s f) = s"
  "rr_allow_copy (after_calls on_message ys s f) = rr_allow_copy f"
  "rr_handler (after_calls on_message ys s f) = deliver on_message (calls_at (rr_current f) ys) (rr_handler f)"
  "after_calls on_message zs s' (after_calls on_message ys s f) = after_calls on_message (ys @ zs) s' f"
  "call_handler on_message y (after_calls on_message ys s f) = after_calls on_message (ys @ [y]) s f"
  "(after_calls on_message ys s f)\<lparr>rr_state := s'\<rparr> = after_calls on_message ys s' f"
  by (simp_all add: after_calls_def call_handler_def)

text \<open>\<open>follows on_message xs f f'\<close>: the machine reads \<open>xs\<close>, asks for more and is in \<open>f'\<close>.\<close>

definition follows :: "'h handler_fn \<Rightarrow> any_backend_message list \<Rightarrow> 'h read_response_fsm \<Rightarrow> 'h read_response_fsm \<Rightarrow> bool" where
  "follows on_message xs f f' \<longleftrightarrow> (\<forall>rest. rr_run on_message (xs @ rest) f = rr_run on_message rest f')"

lemma follows_Nil [simp]: "follows on_message [] f f"
  by (simp add: follows_def)

lemma follows_append: "follows on_message xs f g \<Longrightarrow> follows on_message ys g h \<Longrightarrow> follows on_message (xs @ ys) f h"
  by (simp add: follows_def)

lemma follows_Cons: "rr_resume on_message x f = Some (Fsm_read, g) \<Longrightarrow> follows on_message xs g h \<Longrightarrow>
  follows on_message (x # xs) f h"
  by (simp add: follows_def)

definition at_message :: "request_message_type \<Rightarrow> 'h read_response_fsm \<Rightarrow> bool" where
  "at_message t f \<longleftrightarrow> rr_current f < length (rr_messages f) \<and> rr_messages f ! rr_current f = t"

lemma at_message_after_calls [simp]: "at_message t (after_calls on_message ys s f) = at_message t f"
  by (simp add: at_message_def)

lemma resume_at_message:
  assumes "\<not> is_async_message m"
  shows "at_message msg_execute f \<Longrightarrow> rr_resume on_message m f = handle_execute on_message m f"
    and "at_message msg_query f \<Longrightarrow> rr_resume on_message m f = handle_query on_message m f"
    and "at_message msg_sync f \<Longrightarrow> rr_resume on_message m f = handle_sync on_message m f"
    and "at_message msg_parse f \<Longrightarrow> rr_resume on_message m f = handle_parse on_message m f"
    and "at_message msg_bind f \<Longrightarrow> rr_resume on_message m f = handle_bind on_message m f"
    and "at_message msg_close f \<Longrightarrow> rr_resume on_message m f = handle_close on_message m f"
    and "at_message msg_describe f \<Longrightarrow> rr_resume on_message m f = handle_describe on_message m f"
  unfolding at_message_def by (elim conjE, rule rr_resume_at(1-7) [OF _ assms], assumption+)+

text \<open>The run after the reply to the current message is complete.\<close>

definition finished :: "'h handler_fn \<Rightarrow> 'h read_response_fsm \<Rightarrow> any_backend_message list \<Rightarrow>
    (fsm_result \<times> 'h read_response_fsm \<times> any_backend_message list) option" where
  "finished on_message f rest =
     (case advance f of
        None \<Rightarrow> None
      | Some (Fsm_read, f') \<Rightarrow> rr_run on_message rest f'
      | Some (Fsm_done ec, f') \<Rightarrow> Some (Fsm_done ec, f', rest))"

lemma run_finished: "rr_resume on_message x f = advance g \<Longrightarrow> rr_run on_message (x # rest) f = finished on_message g rest"
  by (simp add: finished_def)

subsection \<open>Execute\<close>

lemma exec_rows_follow:
  assumes "at_message msg_execute f"
  shows "follows on_message (map Data_row rows) (after_calls on_message ys msg_first f)
    (after_calls on_message (ys @ map Rm_data_row rows) msg_first f)"
proof (induction rows arbitrary: ys)
  case (Cons r rows)
  show ?case
    using assms Cons.IH [of "ys @ [Rm_data_row r]"]
    by (auto intro!: follows_Cons simp: resume_at_message handle_execute_def)
qed simp

lemma exec_copy_follow:
  assumes "at_message msg_execute f"
  shows "follows on_message (map Copy_data ds) (after_calls on_message ys exec_copy_out f)
    (after_calls on_message ys exec_copy_out f)"
  by (induction ds)
    (use assms in \<open>auto intro!: follows_Cons simp: resume_at_message handle_execute_def\<close>)

lemma exec_copy_start:
  assumes "at_message msg_execute f" and "rr_allow_copy f"
  shows "follows on_message (Copy_out_response c # map Copy_data ds) (after_calls on_message [] msg_first f)
    (after_calls on_message [Rm_row_description empty_forward_view] exec_copy_out f)"
  using assms exec_copy_follow [OF assms(1)]
  by (auto intro!: follows_Cons simp: resume_at_message handle_execute_def)

lemma exec_copy_end:
  assumes "at_message msg_execute f" and "rr_allow_copy f"
  shows "follows on_message (Copy_out_response c # map Copy_data ds @ [Copy_done])
    (after_calls on_message [] msg_first f)
    (after_calls on_message [Rm_row_description empty_forward_view] exec_copy_out_needs_command_complete f)"
proof -
  have "follows on_message [Copy_done] (after_calls on_message ys exec_copy_out f)
      (after_calls on_message ys exec_copy_out_needs_command_complete f)" for ys
    using assms(1) by (auto intro!: follows_Cons simp: resume_at_message handle_execute_def)
  from follows_append [OF exec_copy_start [OF assms] this] show ?thesis by simp
qed

lemma exec_partial_follow:
  assumes "exec_partial ac xs ys" and "at_message msg_execute f" and "rr_allow_copy f = ac"
  obtains s where "follows on_message xs (after_calls on_message [] msg_first f) (after_calls on_message ys s f)"
    "s \<in> {msg_first, exec_copy_out, exec_copy_out_needs_command_complete}"
  using assms(1)
proof cases
  case (partial_rows rows)
  then show ?thesis using that exec_rows_follow [OF assms(2), of on_message rows "[]"] by simp
next
  case (partial_copy c ds)
  then show ?thesis using that [of exec_copy_out] exec_copy_start [OF assms(2)] assms(3) by simp
next
  case (partial_copy_done c ds)
  then show ?thesis
    using that [of exec_copy_out_needs_command_complete] exec_copy_end [OF assms(2)] assms(3) by simp
qed

lemma exec_reply_run:
  assumes "exec_reply ac xs ys" and "at_message msg_execute f" and "rr_allow_copy f = ac"
  shows "rr_run on_message (xs @ rest) (after_calls on_message [] msg_first f) =
    finished on_message (after_calls on_message ys msg_first f) rest"
proof -
  have rows: "rr_run on_message (map Data_row rows @ x # rest) (after_calls on_message [] msg_first f) =
      rr_run on_message (x # rest) (after_calls on_message (map Rm_data_row rows) msg_first f)" for rows x
    using exec_rows_follow [OF assms(2), of on_message rows "[]"] by (simp add: follows_def)
  have last: "rr_run on_message (x # rest) (after_calls on_message zs msg_first f) =
      finished on_message (after_calls on_message (zs @ [y]) msg_first f) rest"
    if "(\<exists>tag. x = Command_complete tag \<and> y = Rm_command_complete tag) \<or>
        (x = Portal_suspended \<and> y = Rm_portal_suspended) \<or>
        (x = Empty_query_response \<and> y = Rm_empty_query_response)" for zs x y
    by (rule run_finished) (use that assms(2) in \<open>auto simp: resume_at_message handle_execute_def\<close>)
  from assms(1) show ?thesis
  proof cases
    case (exec_rows rows tag)
    then show ?thesis using rows last by simp
  next
    case (exec_suspended rows)
    then show ?thesis using rows last by simp
  next
    case exec_empty
    then show ?thesis using last [of Empty_query_response Rm_empty_query_response "[]"] by simp
  next
    case (exec_copy c ds tag)
    have "rr_run on_message ((Copy_out_response c # map Copy_data ds @ [Copy_done]) @ Command_complete tag # rest)
        (after_calls on_message [] msg_first f) =
      rr_run on_message (Command_complete tag # rest)
        (after_calls on_message [Rm_row_description empty_forward_view] exec_copy_out_needs_command_complete f)"
      using exec_copy_end [OF assms(2), of on_message c ds] assms(3) exec_copy(3) unfolding follows_def by blast
    also have "\<dots> = finished on_message (after_calls on_message
        [Rm_row_description empty_forward_view, Rm_command_complete tag] msg_first f) rest"
      by (rule run_finished) (use assms(2) in \<open>simp add: resume_at_message handle_execute_def\<close>)
    finally show ?thesis using exec_copy by simp
  qed
qed

subsection \<open>Simple queries\<close>

lemma query_rows_follow:
  assumes "at_message msg_query f"
  shows "follows on_message (map Data_row rows) (after_calls on_message ys query_rows f)
    (after_calls on_message (ys @ map Rm_data_row rows) query_rows f)"
proof (induction rows arbitrary: ys)
  case (Cons r rows)
  show ?case
    using assms Cons.IH [of "ys @ [Rm_data_row r]"]
    by (auto intro!: follows_Cons simp: resume_at_message handle_query_def)
qed simp

lemma query_copy_follow:
  assumes "at_message msg_query f"
  shows "follows on_message (map Copy_data ds) (after_calls on_message ys query_copy_out f)
    (after_calls on_message ys query_copy_out f)"
  by (induction ds)
    (use assms in \<open>auto intro!: follows_Cons simp: resume_at_message handle_query_def\<close>)

text \<open>The states a result may start in, and the start of each kind of result.\<close>

lemma query_rows_start:
  assumes "at_message msg_query f" and "s = msg_first \<or> s = query_first"
  shows "follows on_message (Row_description d # map Data_row rows) (after_calls on_message zs s f)
    (after_calls on_message (zs @ Rm_row_description d # map Rm_data_row rows) query_rows f)"
  using query_rows_follow [OF assms(1), of on_message rows "zs @ [Rm_row_description d]"] assms
  by (intro follows_Cons [where g = "after_calls on_message (zs @ [Rm_row_description d]) query_rows f"])
    (auto simp: resume_at_message handle_query_def handle_query_first_def)

lemma query_copy_start:
  assumes "at_message msg_query f" and "rr_allow_copy f" and "s = msg_first \<or> s = query_first"
  shows "follows on_message (Copy_out_response c # map Copy_data ds) (after_calls on_message zs s f)
    (after_calls on_message (zs @ [Rm_row_description empty_forward_view]) query_copy_out f)"
  using query_copy_follow [OF assms(1)] assms
  by (intro follows_Cons [where g = "after_calls on_message (zs @ [Rm_row_description empty_forward_view]) query_copy_out f"])
    (auto simp: resume_at_message handle_query_def handle_query_first_def)

lemma query_copy_end:
  assumes "at_message msg_query f" and "rr_allow_copy f" and "s = msg_first \<or> s = query_first"
  shows "follows on_message (Copy_out_response c # map Copy_data ds @ [Copy_done]) (after_calls on_message zs s f)
    (after_calls on_message (zs @ [Rm_row_description empty_forward_view]) query_copy_out_needs_command_complete f)"
proof -
  have "follows on_message [Copy_done] (after_calls on_message ys query_copy_out f)
      (after_calls on_message ys query_copy_out_needs_command_complete f)" for ys
    using assms(1) by (auto intro!: follows_Cons simp: resume_at_message handle_query_def)
  from follows_append [OF query_copy_start [OF assms] this] show ?thesis by simp
qed

lemma query_command_follow:
  assumes "at_message msg_query f" and "s \<in> {query_rows, query_copy_out_needs_command_complete}"
  shows "follows on_message [Command_complete tag] (after_calls on_message zs s f)
    (after_calls on_message (zs @ [Rm_command_complete tag]) query_first f)"
  using assms by (auto intro!: follows_Cons simp: resume_at_message handle_query_def)

lemma query_result_follow:
  assumes "query_result ac xs ys" and "at_message msg_query f" and "rr_allow_copy f = ac"
    and "s = msg_first \<or> s = query_first"
  shows "follows on_message xs (after_calls on_message zs s f) (after_calls on_message (zs @ ys) query_first f)"
  using assms(1)
proof cases
  case (result_rows d rows tag)
  from follows_append [OF query_rows_start [OF assms(2,4)] query_command_follow [OF assms(2)]]
  show ?thesis using result_rows by simp
next
  case (result_command tag)
  then show ?thesis
    using assms by (auto intro!: follows_Cons simp: resume_at_message handle_query_def handle_query_first_def)
next
  case (result_copy c ds tag)
  then have "rr_allow_copy f" using assms(3) by simp
  from follows_append [OF query_copy_end [OF assms(2) this assms(4)] query_command_follow [OF assms(2)]]
  show ?thesis using result_copy by simp
qed

lemma query_results_follow:
  assumes "query_results ac xs ys" and "at_message msg_query f" and "rr_allow_copy f = ac"
    and "s = msg_first \<or> s = query_first"
  shows "follows on_message xs (after_calls on_message zs s f) (after_calls on_message (zs @ ys) query_first f)"
  using assms(1)
proof induction
  case (results_one xs ys)
  then show ?case by (rule query_result_follow [OF _ assms(2-4)])
next
  case (results_more xs ys xs' ys')
  from follows_append [OF results_more.IH query_result_follow [OF results_more.hyps(2) assms(2,3)]]
  show ?case by simp
qed

lemma query_error_follow:
  assumes "query_partial ac xs ys" and "at_message msg_query f" and "rr_allow_copy f = ac"
    and "s = msg_first \<or> s = query_first"
  shows "follows on_message (xs @ [Error_response e]) (after_calls on_message zs s f)
    (after_calls on_message (zs @ ys @ [Rm_error_response e]) query_needs_ready f)"
proof -
  have err: "follows on_message [Error_response e] (after_calls on_message us s' f)
      (after_calls on_message (us @ [Rm_error_response e]) query_needs_ready f)"
    if "s' \<in> {msg_first, query_first, query_rows, query_copy_out, query_copy_out_needs_command_complete}" for us s'
    using assms(2) that
    by (auto intro!: follows_Cons simp: resume_at_message handle_query_def handle_query_first_def)
  from assms(1) show ?thesis
  proof cases
    case query_partial_start
    then show ?thesis using err [of s zs] assms(4) by auto
  next
    case (query_partial_rows d rows)
    from follows_append [OF query_rows_start [OF assms(2,4)] err] show ?thesis
      using query_partial_rows by simp
  next
    case (query_partial_copy c ds)
    then have "rr_allow_copy f" using assms(3) by simp
    from follows_append [OF query_copy_start [OF assms(2) this assms(4)] err] show ?thesis
      using query_partial_copy by simp
  next
    case (query_partial_copy_done c ds)
    then have "rr_allow_copy f" using assms(3) by simp
    from follows_append [OF query_copy_end [OF assms(2) this assms(4)] err] show ?thesis
      using query_partial_copy_done by simp
  qed
qed

lemma query_reply_run:
  assumes "query_reply ac xs ys" and "at_message msg_query f" and "rr_allow_copy f = ac"
  shows "rr_run on_message (xs @ Ready_for_query st # rest) (after_calls on_message [] msg_first f) =
    finished on_message (after_calls on_message ys msg_first f) rest"
proof -
  have ready: "rr_run on_message (Ready_for_query st # rest) (after_calls on_message zs s f) =
      finished on_message (after_calls on_message zs msg_first f) rest" if "s \<in> {query_first, query_needs_ready}" for zs s
    by (rule run_finished)
      (use assms(2) that in \<open>auto simp: resume_at_message handle_query_def handle_query_first_def\<close>)
  have "\<exists>s \<in> {query_first, query_needs_ready}.
      follows on_message xs (after_calls on_message [] msg_first f) (after_calls on_message ys s f)"
    using assms(1)
  proof cases
    case query_empty
    then have "follows on_message xs (after_calls on_message [] msg_first f) (after_calls on_message ys query_needs_ready f)"
      using assms(2) by (auto intro!: follows_Cons simp: resume_at_message handle_query_def handle_query_first_def)
    then show ?thesis by blast
  next
    case query_ok
    from query_results_follow [OF this assms(2,3), of msg_first on_message "[]"] show ?thesis by auto
  next
    case (query_failed us vs e)
    from query_error_follow [OF query_failed(3) assms(2,3), of msg_first on_message e "[]"] query_failed(1,2)
    show ?thesis by auto
  next
    case (query_failed_later us vs us' vs' e)
    from follows_append [OF query_results_follow [OF query_failed_later(3) assms(2,3), of msg_first on_message "[]"]
        query_error_follow [OF query_failed_later(4) assms(2,3), of query_first on_message e]]
    show ?thesis using query_failed_later(1,2) by auto
  qed
  then show ?thesis using ready by (auto simp: follows_def)
qed

section \<open>The whole conversation\<close>

lemma after_no_calls [simp]: "rr_state f = s \<Longrightarrow> after_calls on_message [] s f = f"
  by (simp add: after_calls_def)

lemma simple_reply_run:
  assumes "simple_reply t x y" and "at_message t f" and "rr_state f = msg_first"
  shows "rr_run on_message (x # rest) f = finished on_message (after_calls on_message [y] msg_first f) rest"
proof (rule run_finished)
  have call: "call_handler on_message z f = after_calls on_message [z] msg_first f" for z
    using assms(3) by (cases f) (simp add: call_handler_def after_calls_def)
  show "rr_resume on_message x f = advance (after_calls on_message [y] msg_first f)"
    using assms(2,3)
    by (cases rule: simple_reply.cases [OF assms(1)])
      (simp_all add: call resume_at_message handle_parse_def handle_bind_def handle_close_def handle_describe_def)
qed

lemma error_resume:
  assumes "is_ext t" and "t \<noteq> msg_flush" and "at_message t f"
    and "rr_state f = msg_first \<or>
      (t = msg_execute \<and> rr_state f \<in> {exec_copy_out, exec_copy_out_needs_command_complete})"
  shows "rr_resume on_message (Error_response e) f = handle_error on_message e f"
  using assms
  by (cases t) (auto simp: is_ext_def resume_at_message handle_parse_def handle_bind_def handle_close_def
      handle_describe_def handle_execute_def)

lemma error_follow:
  assumes "is_ext t" and "t \<noteq> msg_flush" and "rr_state f = msg_first"
    and "if t = msg_execute then exec_partial (rr_allow_copy f) xs ys else xs = [] \<and> ys = []"
    and "rr_messages f = pre @ t # es @ msg_sync # rest" and "rr_current f = length pre" and "list_all is_ext es"
  shows "follows on_message (xs @ [Error_response e]) f (f\<lparr>rr_current := length pre + 1 + length es,
    rr_handler := deliver on_message (calls_at (length pre) ys @ (Rm_error_response e, length pre) #
      skipped_calls (Suc (length pre)) es) (rr_handler f)\<rparr>)"
proof -
  have at: "at_message t f" using assms(5,6) by (simp add: at_message_def nth_append)
  obtain s where s: "follows on_message xs f (after_calls on_message ys s f)"
    "s = msg_first \<or> (t = msg_execute \<and> s \<in> {exec_copy_out, exec_copy_out_needs_command_complete})"
  proof (cases "t = msg_execute")
    case True
    then have p: "exec_partial (rr_allow_copy f) xs ys" and "at_message msg_execute f"
      using assms(4) at by simp_all
    from exec_partial_follow [OF this refl, of on_message] show ?thesis
      using that True assms(3) by (metis after_no_calls insert_iff)
  next
    case False
    then show ?thesis using that [of msg_first] assms(3,4) by simp
  qed
  let ?f1 = "after_calls on_message ys s f"
  let ?g = "(call_handler on_message (Rm_error_response e) ?f1)\<lparr>rr_current := length pre + 1, rr_state := msg_first\<rparr>"
  have "rr_resume on_message (Error_response e) ?f1 = handle_error on_message e ?f1"
    by (rule error_resume [OF assms(1,2)]) (use at s(2) in auto)
  also have "\<dots> = skip_to_sync on_message ?g" by (simp add: handle_error_def assms(6))
  also have "\<dots> = Some (Fsm_read, ?g\<lparr>rr_current := length (pre @ [t]) + length es,
      rr_handler := deliver on_message (skipped_calls (length (pre @ [t])) es) (rr_handler ?g)\<rparr>)"
    by (rule skip_to_sync_found [where rest = rest]) (use assms(5-7) in simp_all)
  finally have "follows on_message [Error_response e] ?f1 (?g\<lparr>rr_current := length (pre @ [t]) + length es,
      rr_handler := deliver on_message (skipped_calls (length (pre @ [t])) es) (rr_handler ?g)\<rparr>)"
    by (rule follows_Cons) (rule follows_Nil)
  from follows_append [OF s(1) this] show ?thesis
    using assms(3,6) by (cases f) (simp add: after_calls_def call_handler_def)
qed

lemma replies_not_async: "replies ac n ts ms cs \<Longrightarrow> list_all (\<lambda>m. \<not> is_async_message m) ms"
proof (induction rule: replies.induct)
  case (replies_query xs ys n ts ms cs s)
  have one: "list_all (\<lambda>m. \<not> is_async_message m) us" if "query_result ac us vs" for us vs
    using that by cases (auto simp: list_all_iff)
  have more: "list_all (\<lambda>m. \<not> is_async_message m) us" if "query_results ac us vs" for us vs
    using that by induction (simp_all add: one)
  have part: "list_all (\<lambda>m. \<not> is_async_message m) us" if "query_partial ac us vs" for us vs
    using that by cases (auto simp: list_all_iff)
  have "list_all (\<lambda>m. \<not> is_async_message m) xs"
    using replies_query(1) by cases (auto dest: more part)
  then show ?case using replies_query by simp
qed (auto elim!: simple_reply.cases exec_reply.cases exec_partial.cases simp: list_all_iff split: if_splits)

lemma replies_nonempty: "replies ac n ts ms cs \<Longrightarrow> (\<exists>t \<in> set ts. expects_rfq t) \<Longrightarrow> ms \<noteq> []"
  by (induction rule: replies.induct) (auto simp: expects_rfq_def elim: exec_reply.cases)

lemma flush_run:
  assumes "at_message msg_flush f" and "ms \<noteq> []" and "list_all (\<lambda>m. \<not> is_async_message m) ms"
  shows "rr_run on_message (ms @ rest) f = rr_run on_message (ms @ rest) (f\<lparr>rr_current := rr_current f + 1\<rparr>)"
  using assms rr_resume_at(8) [of f "hd ms" on_message] by (cases ms) (auto simp: at_message_def)

text \<open>
  The run of the rest of a request: the machine stands in front of the messages \<open>ts\<close>, which are not
  empty.
\<close>

definition ends_with ::
    "'h handler_fn \<Rightarrow> any_backend_message list \<Rightarrow> 'h read_response_fsm \<Rightarrow> call_log \<Rightarrow> bool" where
  "ends_with on_message ms f cs \<longleftrightarrow> (\<forall>rest. \<exists>f'. rr_run on_message (ms @ rest) f = Some (Fsm_done None, f', rest) \<and>
     rr_handler f' = deliver on_message cs (rr_handler f))"

lemma ends_with_finished:
  assumes "\<And>rest. rr_run on_message (xs @ rest) f = finished on_message (after_calls on_message ys msg_first f) rest"
    and "rr_messages f = pre @ t # ts" and "rr_current f = length pre"
    and "replies ac (Suc (length pre)) ts ms cs"
    and "ts \<noteq> [] \<Longrightarrow> ends_with on_message ms ((after_calls on_message ys msg_first f)\<lparr>rr_current := Suc (length pre)\<rparr>) cs"
  shows "ends_with on_message (xs @ ms) f (calls_at (length pre) ys @ cs)"
proof (cases ts)
  case Nil
  then have "ms = []" "cs = []" using assms(4) by (auto elim: replies.cases)
  then show ?thesis
    using assms(1-3) Nil by (simp add: ends_with_def finished_def advance_def)
next
  case (Cons u us)
  then show ?thesis
    using assms(1-3,5) by (auto simp: ends_with_def finished_def advance_def)
qed

lemma conversation:
  assumes "replies ac n ts ms cs" and "batches ts" and "ts \<noteq> []" and "rr_messages f = pre @ ts"
    and "n = length pre" and "rr_current f = length pre" and "rr_state f = msg_first" and "rr_allow_copy f = ac"
  shows "ends_with on_message ms f cs"
  using assms
proof (induction arbitrary: f pre rule: replies.induct)
  case (replies_end n)
  then show ?case by simp
next
  case (replies_flush n ts ms cs)
  have at: "at_message msg_flush f" using replies_flush.prems by (simp add: at_message_def nth_append)
  have b: "batches ts" "ts \<noteq> []" using batches_tl [OF replies_flush.prems(1)] by (auto simp: expects_rfq_def)
  then have ne: "ms \<noteq> []" using replies_nonempty [OF replies_flush.hyps] batches_expects by blast
  have "ends_with on_message ms (f\<lparr>rr_current := rr_current f + 1\<rparr>) cs"
    by (rule replies_flush.IH [of _ "pre @ [msg_flush]"]) (use replies_flush.prems b in simp_all)
  then show ?case
    using flush_run [OF at ne replies_not_async [OF replies_flush.hyps]] by (simp add: ends_with_def)
next
  case (replies_sync n ts ms cs s)
  have at: "at_message msg_sync f" using replies_sync.prems by (simp add: at_message_def nth_append)
  have "rr_run on_message ([Ready_for_query s] @ rest) f =
      finished on_message (after_calls on_message [] msg_first f) rest" for rest
    using replies_sync.prems at by (simp add: run_finished resume_at_message handle_sync_def del: rr_run.simps)
  from ends_with_finished [OF this replies_sync.prems(3,5)] show ?case
    using replies_sync.IH [of _ "pre @ [msg_sync]"] batches_tl [OF replies_sync.prems(1)] replies_sync.prems
      replies_sync.hyps by (simp del: rr_run.simps)
next
  case (replies_simple t x y n ts ms cs)
  have at: "at_message t f" using replies_simple.prems by (simp add: at_message_def nth_append)
  have "rr_run on_message ([x] @ rest) f =
      finished on_message (after_calls on_message [y] msg_first f) rest" for rest
    using simple_reply_run [OF replies_simple.hyps(1) at replies_simple.prems(6)] by (simp del: rr_run.simps)
  from ends_with_finished [OF this replies_simple.prems(3,5)] show ?case
    using replies_simple.IH [of _ "pre @ [t]"] batches_tl [OF replies_simple.prems(1)] replies_simple.prems
      replies_simple.hyps by (simp del: rr_run.simps)
next
  case (replies_execute xs ys n ts ms cs)
  have at: "at_message msg_execute f" using replies_execute.prems by (simp add: at_message_def nth_append)
  have "rr_run on_message (xs @ rest) f =
      finished on_message (after_calls on_message ys msg_first f) rest" for rest
    using exec_reply_run [OF replies_execute.hyps(1) at replies_execute.prems(7)] replies_execute.prems(6) by simp
  from ends_with_finished [OF this replies_execute.prems(3,5)] show ?case
    using replies_execute.IH [of _ "pre @ [msg_execute]"] batches_tl [OF replies_execute.prems(1)]
      replies_execute.prems replies_execute.hyps by (simp del: rr_run.simps)
next
  case (replies_query xs ys n ts ms cs s)
  have at: "at_message msg_query f" using replies_query.prems by (simp add: at_message_def nth_append)
  have "rr_run on_message ((xs @ [Ready_for_query s]) @ rest) f =
      finished on_message (after_calls on_message ys msg_first f) rest" for rest
    using query_reply_run [OF replies_query.hyps(1) at replies_query.prems(7)] replies_query.prems(6) by simp
  from ends_with_finished [OF this replies_query.prems(3,5)] show ?case
    using replies_query.IH [of _ "pre @ [msg_query]"] batches_tl [OF replies_query.prems(1)]
      replies_query.prems replies_query.hyps by (simp del: rr_run.simps)
next
  case (replies_error t xs ys es n rest ms cs e)
  let ?g = "f\<lparr>rr_current := length pre + 1 + length es,
    rr_handler := deliver on_message (calls_at (length pre) ys @ (Rm_error_response e, length pre) #
      skipped_calls (Suc (length pre)) es) (rr_handler f)\<rparr>"
  have b: "batches (msg_sync # rest)"
    using replies_error.prems(1) check_loop_ext [of "t # es" False "msg_sync # rest"] replies_error.hyps(1,4)
    by (simp flip: check_loop_None_iff)
  have "ends_with on_message ms ?g cs"
    by (rule replies_error.IH [of _ "pre @ t # es"]) (use replies_error.prems b in simp_all)
  moreover have "follows on_message (xs @ [Error_response e]) f ?g"
    by (rule error_follow [where rest = rest and t = t]) (use replies_error in simp_all)
  ultimately show ?case
    using replies_error.prems(4) by (simp add: ends_with_def follows_def)
qed

text \<open>Messages that may arrive at any moment leave the machine alone.\<close>

definition sync_messages :: "any_backend_message list \<Rightarrow> any_backend_message list" where
  "sync_messages ms = filter (\<lambda>m. \<not> is_async_message m) ms"

lemma rr_run_async:
  "rr_run on_message (sync_messages ms) f =
     map_option (\<lambda>(res, f', rest). (res, f', sync_messages rest)) (rr_run on_message ms f)"
proof (induction ms arbitrary: f)
  case (Cons m ms)
  show ?case
  proof (cases "is_async_message m")
    case True
    then have "rr_resume on_message m f = Some (Fsm_read, f)" by (simp add: rr_resume_def)
    then show ?thesis using True Cons.IH [of f] by (simp add: sync_messages_def)
  next
    case False
    then show ?thesis
      using Cons.IH by (auto simp: sync_messages_def split: option.splits prod.splits fsm_result.splits)
  qed
qed (simp add: sync_messages_def)

lemma conforming_run:
  assumes "check_request req = None" and "replies ac 0 (req_types req) (sync_messages ms) cs"
  shows "\<exists>f' rest. rr_run on_message ms (read_response_fsm_init req h ac) = Some (Fsm_done None, f', rest) \<and>
    sync_messages rest = [] \<and> rr_handler f' = deliver on_message cs h"
proof -
  have "ends_with on_message (sync_messages ms) (read_response_fsm_init req h ac) cs"
    by (rule conversation [OF assms(2), of _ "[]"])
      (use assms(1) in \<open>auto simp: read_response_fsm_init_def check_request_def check_loop_None_iff split: if_splits\<close>)
  then obtain f' where "rr_run on_message (sync_messages ms) (read_response_fsm_init req h ac) =
      Some (Fsm_done None, f', [])" "rr_handler f' = deliver on_message cs h"
    unfolding ends_with_def by (auto simp: read_response_fsm_init_def dest: spec [of _ "[]"])
  then show ?thesis unfolding rr_run_async by auto
qed



end
