(* ===== verification/Pg_Multiplexer.thy ===== *)
theory Pg_Multiplexer
  imports Pg_Read_Response_Facts
begin

text \<open>
  The multiplexer of \<^verbatim>\<open>multiplexed_connection/multiplexer.hpp\<close>, which lets several callers share a
  connection: requests are queued, written together, and the messages of the server are matched with
  them in order. An element of the queue is known to callers by its address; here it has an identity,
  given out by a counter. The callbacks of an element (its response handler and \<^verbatim>\<open>on_done\<close>) are
  observed as a log of events. \<open>None\<close> stands for a violated \<^verbatim>\<open>BOOST_ASSERT\<close>, for a dangling element
  and for an iterator outside of the queue.
\<close>

section \<open>State\<close>

datatype multiplexer_elem_status = pending | in_flight | abandoned_pending | abandoned_in_flight

record multiplexer_elem =
  me_id :: nat
  me_req :: "request option"
  me_status :: multiplexer_elem_status
  me_num_rfq :: nat

datatype mx_event = Handler_call nat any_request_message nat | On_done nat "error_code option"

datatype stream_status = initial | reading | ignoring

record read_response_stream_fsm =
  rs_status :: stream_status
  rs_fsm :: "mx_event list read_response_fsm option"
  rs_remaining_rfq :: nat

record multiplexer =
  mx_write_buffer :: bytes
  mx_elems :: "multiplexer_elem list"
  mx_num_pending :: nat
  mx_fsm :: read_response_stream_fsm
  mx_next_id :: nat
  mx_events :: "mx_event list"

definition multiplexer_init :: multiplexer where
  "multiplexer_init = \<lparr>mx_write_buffer = [], mx_elems = [], mx_num_pending = 0,
     mx_fsm = \<lparr>rs_status = initial, rs_fsm = None, rs_remaining_rfq = 0\<rparr>, mx_next_id = 0, mx_events = []\<rparr>"

section \<open>The stream of responses\<close>

definition rs_reset :: "read_response_stream_fsm \<Rightarrow> read_response_stream_fsm" where
  "rs_reset s = s\<lparr>rs_status := initial\<rparr>"

definition is_reading :: "read_response_stream_fsm \<Rightarrow> bool" where
  "is_reading s \<longleftrightarrow> rs_status s = reading"

definition abandon_current :: "read_response_stream_fsm \<Rightarrow> read_response_stream_fsm option" where
  "abandon_current s =
     (if \<not> is_reading s then None
      else (case rs_fsm s of
              None \<Rightarrow> None
            | Some f \<Rightarrow> Some (s\<lparr>rs_remaining_rfq := get_expected_rfqs (get_remaining_messages f),
                                rs_status := ignoring\<rparr>)))"

text \<open>The handler reference of an element: it appends the calls it gets to the log.\<close>

definition log_call :: "nat \<Rightarrow> mx_event list handler_fn" where
  "log_call i m n evs = evs @ [Handler_call i m n]"

text \<open>
  The first half of \<^verbatim>\<open>on_message\<close>: choosing the request a message belongs to. The result is the error
  to return or the queue and the state to go on with.
\<close>

definition stream_begin ::
    "multiplexer_elem list \<Rightarrow> read_response_stream_fsm \<Rightarrow>
     (error_code option \<times> multiplexer_elem list \<times> read_response_stream_fsm) option" where
  "stream_begin elms s =
     (if rs_status s \<noteq> initial then Some (None, elms, s)
      else
        (case dropWhile (\<lambda>e. me_status e = abandoned_pending) elms of
           [] \<Rightarrow> Some (Some (Client unmatched_request), [], s)
         | elm # elms' \<Rightarrow>
             if me_status elm = abandoned_in_flight
             then Some (None, elm # elms', s\<lparr>rs_status := ignoring, rs_remaining_rfq := me_num_rfq elm\<rparr>)
             else
               (case (me_status elm, me_req elm) of
                  (in_flight, Some req) \<Rightarrow>
                    Some (None, elm # elms',
                      s\<lparr>rs_status := reading, rs_fsm := Some (read_response_fsm_init req [] False)\<rparr>)
                | _ \<Rightarrow> None)))"

text \<open>The second half: the message is handled or ignored.\<close>

definition stream_handle ::
    "any_backend_message \<Rightarrow> multiplexer_elem list \<Rightarrow> read_response_stream_fsm \<Rightarrow>
     (error_code option \<times> multiplexer_elem list \<times> read_response_stream_fsm \<times> mx_event list) option" where
  "stream_handle msg elms s =
     (case (rs_status s, elms) of
        (reading, elm # elms') \<Rightarrow>
          (case rs_fsm s of
             None \<Rightarrow> None
           | Some f \<Rightarrow>
               (case rr_resume (log_call (me_id elm)) msg (f\<lparr>rr_handler := []\<rparr>) of
                  None \<Rightarrow> None
                | Some (Fsm_done ec, f') \<Rightarrow>
                    Some (ec, elms', s\<lparr>rs_fsm := Some f', rs_status := initial\<rparr>,
                      rr_handler f' @ [On_done (me_id elm) ec])
                | Some (Fsm_read, f') \<Rightarrow> Some (None, elms, s\<lparr>rs_fsm := Some f'\<rparr>, rr_handler f')))
      | (ignoring, elm # elms') \<Rightarrow>
          if rs_remaining_rfq s = 0 then None
          else (case msg of
                  Ready_for_query status \<Rightarrow>
                    (let s' = s\<lparr>rs_remaining_rfq := rs_remaining_rfq s - 1\<rparr>
                     in if rs_remaining_rfq s' = 0 then Some (None, elms', s'\<lparr>rs_status := initial\<rparr>, [])
                        else Some (None, elms, s', []))
                | _ \<Rightarrow> Some (None, elms, s, []))
      | _ \<Rightarrow> None)"

section \<open>The multiplexer\<close>

definition pending_offset :: "multiplexer \<Rightarrow> nat option" where
  "pending_offset m =
     (if mx_num_pending m \<le> length (mx_elems m) then Some (length (mx_elems m) - mx_num_pending m) else None)"

definition mx_add :: "request \<Rightarrow> multiplexer \<Rightarrow> nat \<times> multiplexer" where
  "mx_add req m =
     (mx_next_id m,
      m\<lparr>mx_elems := mx_elems m @
           [\<lparr>me_id = mx_next_id m, me_req = Some req, me_status = pending, me_num_rfq = 0\<rparr>],
        mx_num_pending := mx_num_pending m + 1,
        mx_next_id := mx_next_id m + 1\<rparr>)"

text \<open>
  \<^verbatim>\<open>cancel\<close> on one element: its new value and the new state of the stream. \<open>is_front\<close> tells whether
  the element is the first one of the queue.
\<close>

definition cancel_elem ::
    "bool \<Rightarrow> multiplexer_elem \<Rightarrow> read_response_stream_fsm \<Rightarrow> (multiplexer_elem \<times> read_response_stream_fsm) option" where
  "cancel_elem is_front e s =
     (case me_status e of
        pending \<Rightarrow> Some (e\<lparr>me_status := abandoned_pending, me_req := None\<rparr>, s)
      | in_flight \<Rightarrow>
          if is_front \<and> is_reading s
          then map_option (\<lambda>s'. (e\<lparr>me_status := abandoned_in_flight, me_req := None\<rparr>, s')) (abandon_current s)
          else (case me_req e of
                  None \<Rightarrow> None
                | Some req \<Rightarrow>
                    Some (e\<lparr>me_status := abandoned_in_flight,
                             me_num_rfq := get_expected_rfqs (req_types req), me_req := None\<rparr>, s))
      | _ \<Rightarrow> None)"

fun cancel_in ::
    "nat \<Rightarrow> bool \<Rightarrow> multiplexer_elem list \<Rightarrow> read_response_stream_fsm \<Rightarrow>
     (multiplexer_elem list \<times> read_response_stream_fsm) option" where
  "cancel_in i is_front [] s = None"
| "cancel_in i is_front (e # es) s =
     (if me_id e = i then map_option (\<lambda>(e', s'). (e' # es, s')) (cancel_elem is_front e s)
      else map_option (\<lambda>(es', s'). (e # es', s')) (cancel_in i False es s))"

definition mx_cancel :: "nat \<Rightarrow> multiplexer \<Rightarrow> multiplexer option" where
  "mx_cancel i m =
     map_option (\<lambda>(es, s). m\<lparr>mx_elems := es, mx_fsm := s\<rparr>) (cancel_in i True (mx_elems m) (mx_fsm m))"

text \<open>The loop of \<^verbatim>\<open>prepare_write\<close> over the pending elements.\<close>

fun prepare_elems :: "multiplexer_elem list \<Rightarrow> (bytes \<times> multiplexer_elem list) option" where
  "prepare_elems [] = Some ([], [])"
| "prepare_elems (e # es) =
     (case (me_status e, me_req e) of
        (pending, Some req) \<Rightarrow>
          map_option (\<lambda>(buf, es'). (req_buffer req @ buf, e\<lparr>me_status := in_flight\<rparr> # es')) (prepare_elems es)
      | (abandoned_pending, _) \<Rightarrow> map_option (\<lambda>(buf, es'). (buf, e # es')) (prepare_elems es)
      | _ \<Rightarrow> None)"

definition mx_prepare_write :: "multiplexer \<Rightarrow> multiplexer option" where
  "mx_prepare_write m =
     (case pending_offset m of
        None \<Rightarrow> None
      | Some off \<Rightarrow>
          map_option (\<lambda>(buf, es). m\<lparr>mx_write_buffer := buf, mx_elems := take off (mx_elems m) @ es, mx_num_pending := 0\<rparr>)
            (prepare_elems (drop off (mx_elems m))))"

definition mx_on_message :: "any_backend_message \<Rightarrow> multiplexer \<Rightarrow> (error_code option \<times> multiplexer) option" where
  "mx_on_message msg m =
     (if is_async_message msg then Some (None, m)
      else
        (case stream_begin (mx_elems m) (mx_fsm m) of
           None \<Rightarrow> None
         | Some (Some ec, es, s) \<Rightarrow> Some (Some ec, m\<lparr>mx_elems := es, mx_fsm := s\<rparr>)
         | Some (None, es, s) \<Rightarrow>
             map_option (\<lambda>(ec, es', s', evs).
                 (ec, m\<lparr>mx_elems := es', mx_fsm := s', mx_events := mx_events m @ evs\<rparr>))
               (stream_handle msg es s)))"

text \<open>\<^verbatim>\<open>on_done\<close> of an abandoned element has been replaced by a function that ignores its argument.\<close>

definition cleanup_event :: "multiplexer_elem \<Rightarrow> mx_event list" where
  "cleanup_event e =
     (if me_status e = pending \<or> me_status e = in_flight
      then [On_done (me_id e) (Some Operation_canceled)] else [])"

definition mx_cleanup :: "multiplexer \<Rightarrow> multiplexer option" where
  "mx_cleanup m =
     map_option (\<lambda>off.
         m\<lparr>mx_elems := drop off (mx_elems m), mx_fsm := rs_reset (mx_fsm m),
           mx_events := mx_events m @ concat (map cleanup_event (take off (mx_elems m)))\<rparr>)
       (pending_offset m)"

end
