(* ===== verification/Pg_Multiplexer_Facts.thy ===== *)
theory Pg_Multiplexer_Facts
  imports Pg_Multiplexer
begin

text \<open>
  Safety of the multiplexer under every interleaving of its operations, as long as the server only
  sends messages it was asked for: the queue stays well-formed, no assertion fails, cancelling a
  request does not change how many \<^verbatim>\<open>ReadyForQuery\<close> messages are accounted for, and every request is
  reported to its caller once. Without the assumption on the server the bookkeeping of the pending
  requests breaks, which is a theorem as well.
\<close>

section \<open>The invariant\<close>

definition request_ok :: "multiplexer_elem \<Rightarrow> bool" where
  "request_ok e \<longleftrightarrow> (\<exists>r. me_req e = Some r \<and> check_request r = None)"

text \<open>An element that has been written and is not being read, and one that has not been written.\<close>

definition idle_ok :: "multiplexer_elem \<Rightarrow> bool" where
  "idle_ok e =
     (case me_status e of
        pending \<Rightarrow> False
      | in_flight \<Rightarrow> request_ok e
      | abandoned_pending \<Rightarrow> True
      | abandoned_in_flight \<Rightarrow> 0 < me_num_rfq e)"

definition pending_ok :: "multiplexer_elem \<Rightarrow> bool" where
  "pending_ok e =
     (case me_status e of
        pending \<Rightarrow> request_ok e
      | abandoned_pending \<Rightarrow> True
      | _ \<Rightarrow> False)"

text \<open>The elements that have been written, together with the stream that reads their responses.\<close>

definition stream_inv :: "multiplexer_elem list \<Rightarrow> read_response_stream_fsm \<Rightarrow> bool" where
  "stream_inv fl s =
     (case rs_status s of
        initial \<Rightarrow> list_all idle_ok fl
      | reading \<Rightarrow> (\<exists>e es f. fl = e # es \<and> me_status e = in_flight \<and> rs_fsm s = Some f \<and> rr_inv f \<and> list_all idle_ok es)
      | ignoring \<Rightarrow> (\<exists>e es. fl = e # es \<and> me_status e = abandoned_in_flight \<and> 0 < rs_remaining_rfq s \<and>
          list_all idle_ok es))"

definition mx_written :: "multiplexer \<Rightarrow> multiplexer_elem list" where
  "mx_written m = take (length (mx_elems m) - mx_num_pending m) (mx_elems m)"

definition mx_unwritten :: "multiplexer \<Rightarrow> multiplexer_elem list" where
  "mx_unwritten m = drop (length (mx_elems m) - mx_num_pending m) (mx_elems m)"

definition done_ids :: "mx_event list \<Rightarrow> nat list" where
  "done_ids evs = concat (map (\<lambda>ev. case ev of On_done i ec \<Rightarrow> [i] | _ \<Rightarrow> []) evs)"

lemma done_ids_simps [simp]:
  "done_ids [] = []" "done_ids (On_done i ec # evs) = i # done_ids evs"
  "done_ids (Handler_call i x n # evs) = done_ids evs" "done_ids (evs @ evs') = done_ids evs @ done_ids evs'"
  by (simp_all add: done_ids_def)

definition mx_inv :: "multiplexer \<Rightarrow> bool" where
  "mx_inv m \<longleftrightarrow> mx_num_pending m \<le> length (mx_elems m) \<and>
     stream_inv (mx_written m) (mx_fsm m) \<and> list_all pending_ok (mx_unwritten m) \<and>
     distinct (map me_id (mx_elems m)) \<and> (\<forall>e \<in> set (mx_elems m). me_id e < mx_next_id m) \<and>
     distinct (done_ids (mx_events m)) \<and>
     (\<forall>i \<in> set (done_ids (mx_events m)). i < mx_next_id m \<and> i \<notin> me_id ` set (mx_elems m))"

lemma mx_elems_split: "mx_elems m = mx_written m @ mx_unwritten m"
  by (simp add: mx_written_def mx_unwritten_def)

lemma mx_written_eq:
  "mx_elems m = fl @ pe \<Longrightarrow> mx_num_pending m = length pe \<Longrightarrow> mx_written m = fl \<and> mx_unwritten m = pe"
  by (simp add: mx_written_def mx_unwritten_def)

section \<open>Outstanding ReadyForQuery messages\<close>

definition elem_rfqs :: "multiplexer_elem \<Rightarrow> nat" where
  "elem_rfqs e =
     (case me_status e of
        in_flight \<Rightarrow> (case me_req e of Some r \<Rightarrow> get_expected_rfqs (req_types r) | None \<Rightarrow> 0)
      | abandoned_in_flight \<Rightarrow> me_num_rfq e
      | _ \<Rightarrow> 0)"

definition stream_rfqs :: "multiplexer_elem list \<Rightarrow> read_response_stream_fsm \<Rightarrow> nat" where
  "stream_rfqs fl s =
     (case rs_status s of
        initial \<Rightarrow> sum_list (map elem_rfqs fl)
      | reading \<Rightarrow> (case rs_fsm s of None \<Rightarrow> 0 | Some f \<Rightarrow> get_expected_rfqs (get_remaining_messages f)) +
          sum_list (map elem_rfqs (tl fl))
      | ignoring \<Rightarrow> rs_remaining_rfq s + sum_list (map elem_rfqs (tl fl)))"

text \<open>The \<^verbatim>\<open>ReadyForQuery\<close> messages the server still owes for what has been written.\<close>

definition outstanding :: "multiplexer \<Rightarrow> nat" where
  "outstanding m = stream_rfqs (mx_written m) (mx_fsm m)"

lemma idle_rfqs: "idle_ok e \<Longrightarrow> me_status e \<noteq> abandoned_pending \<Longrightarrow> 0 < elem_rfqs e"
  using checked_rfqs
  by (auto simp: idle_ok_def elem_rfqs_def request_ok_def split: multiplexer_elem_status.splits)

section \<open>Messages\<close>

text \<open>What handling a message may do to the written elements.\<close>

definition stream_step ::
    "any_backend_message \<Rightarrow> multiplexer_elem list \<Rightarrow> read_response_stream_fsm \<Rightarrow> error_code option \<Rightarrow>
     multiplexer_elem list \<Rightarrow> read_response_stream_fsm \<Rightarrow> mx_event list \<Rightarrow> bool" where
  "stream_step msg fl s ec fl' s' evs \<longleftrightarrow> stream_inv fl' s' \<and>
     (\<exists>gone. fl = gone @ fl' \<and>
        (\<forall>e \<in> set gone. me_status e = in_flight \<longrightarrow> done_ids evs = [me_id e]) \<and>
        set (done_ids evs) \<subseteq> me_id ` set gone \<and> length (done_ids evs) \<le> 1) \<and>
     (\<forall>ev \<in> set evs. \<exists>e \<in> set fl. me_status e = in_flight \<and>
        (\<exists>x n. ev = Handler_call (me_id e) x n \<or> ev = On_done (me_id e) ec)) \<and>
     (ec = None \<longrightarrow> stream_rfqs fl s = stream_rfqs fl' s' + (if is_ready msg then 1 else 0))"

lemma stream_begin_ok:
  assumes "stream_inv fl s" and "0 < stream_rfqs fl s"
  shows "\<exists>gone fl' s'. stream_begin (fl @ pe) s = Some (None, fl' @ pe, s') \<and> fl = gone @ fl' \<and>
    list_all (\<lambda>e. me_status e = abandoned_pending) gone \<and> stream_inv fl' s' \<and> rs_status s' \<noteq> initial \<and>
    stream_rfqs fl' s' = stream_rfqs fl s"
proof (cases "rs_status s = initial")
  case False
  then show ?thesis using assms(1) by (auto simp: stream_begin_def)
next
  case True
  define gone where "gone = takeWhile (\<lambda>e. me_status e = abandoned_pending) fl"
  define fl' where "fl' = dropWhile (\<lambda>e. me_status e = abandoned_pending) fl"
  have fl: "fl = gone @ fl'" and gone: "list_all (\<lambda>e. me_status e = abandoned_pending) gone"
    by (simp_all add: gone_def fl'_def list_all_iff) (meson set_takeWhileD)
  have idle: "list_all idle_ok fl" using assms(1) True by (simp add: stream_inv_def)
  have "sum_list (map elem_rfqs gone) = 0"
    using gone by (induction gone) (simp_all add: elem_rfqs_def)
  then have sum: "stream_rfqs fl s = sum_list (map elem_rfqs fl')"
    using True by (simp add: stream_rfqs_def fl)
  then obtain e es where es: "fl' = e # es" using assms(2) by (cases fl') auto
  then have ne: "me_status e \<noteq> abandoned_pending" 
    using hd_dropWhile [of "\<lambda>e. me_status e = abandoned_pending" fl] by (simp add: fl'_def)
  have ok: "idle_ok e" "list_all idle_ok es" using idle by (simp_all add: fl es)
  have drop: "dropWhile (\<lambda>e. me_status e = abandoned_pending) (fl @ pe) = e # es @ pe"
    using gone ne by (simp add: fl es list_all_iff dropWhile_append2)
  show ?thesis
  proof (cases "me_status e")
    case abandoned_in_flight
    then show ?thesis
      using True ok drop sum es fl gone
      by (intro exI [of _ gone] exI [of _ fl'])
        (auto simp: stream_begin_def stream_inv_def idle_ok_def stream_rfqs_def elem_rfqs_def)
  next
    case in_flight
    then obtain r where "me_req e = Some r" "check_request r = None"
      using ok(1) by (auto simp: idle_ok_def request_ok_def)
    then show ?thesis
      using True ok drop sum es fl gone in_flight rr_inv_init [of r "[]" False]
      by (intro exI [of _ gone] exI [of _ fl'])
        (auto simp: stream_begin_def stream_inv_def stream_rfqs_def elem_rfqs_def
          get_remaining_messages_def read_response_fsm_init_def)
  qed (use ok(1) ne in \<open>simp_all add: idle_ok_def\<close>)
qed

lemma deliver_log_call: "\<exists>evs. deliver (log_call i) cs h = h @ evs \<and> (\<forall>ev \<in> set evs. \<exists>x n. ev = Handler_call i x n)"
proof (induction cs arbitrary: h)
  case (Cons c cs)
  obtain x n where c: "c = (x, n)" by (cases c)
  from Cons.IH [of "h @ [Handler_call i x n]"] show ?case by (auto simp: c log_call_def)
qed simp

lemma log_call_events:
  assumes "rr_resume (log_call i) msg (f\<lparr>rr_handler := []\<rparr>) = Some (res, f')"
  shows "\<forall>ev \<in> set (rr_handler f'). \<exists>x n. ev = Handler_call i x n"
    and "done_ids (rr_handler f') = []"
proof -
  obtain cs where "rr_handler f' = deliver (log_call i) cs []"
    using rr_resume_reach [OF assms] by (auto simp: handler_reach_def)
  then show *: "\<forall>ev \<in> set (rr_handler f'). \<exists>x n. ev = Handler_call i x n"
    using deliver_log_call [of i cs "[]"] by auto
  then show "done_ids (rr_handler f') = []"
    unfolding done_ids_def by (induction "rr_handler f'") (fastforce simp: concat_eq_Nil_conv)+
qed

lemma stream_handle_ok:
  assumes "stream_inv fl s" and "rs_status s \<noteq> initial"
  shows "\<exists>ec fl' s' evs. stream_handle msg (fl @ pe) s = Some (ec, fl' @ pe, s', evs) \<and>
    stream_step msg fl s ec fl' s' evs"
proof (cases "rs_status s")
  case reading
  then obtain e es f where fl: "fl = e # es" "me_status e = in_flight" "rs_fsm s = Some f" "rr_inv f" "list_all idle_ok es"
    using assms(1) by (auto simp: stream_inv_def)
  let ?f = "f\<lparr>rr_handler := []\<rparr>"
  have "rr_inv ?f" using fl(4) by simp
  then obtain res f' where r: "rr_resume (log_call (me_id e)) msg ?f = Some (res, f')"
    and g: "case res of
        Fsm_read \<Rightarrow> rr_inv f' \<and> get_expected_rfqs (get_remaining_messages ?f) =
          get_expected_rfqs (get_remaining_messages f') + (if is_ready msg then 1 else 0)
      | Fsm_done None \<Rightarrow> is_ready msg \<and> get_expected_rfqs (get_remaining_messages ?f) = 1 \<and> get_remaining_messages f' = []
      | Fsm_done (Some e) \<Rightarrow> e = Client unexpected_message \<or> e = Client copy_not_allowed"
    by (rule good_resumeE)
  note evs = log_call_events [OF r]
  show ?thesis
  proof (cases res)
    case Fsm_read
    have "stream_step msg fl s None fl (s\<lparr>rs_fsm := Some f'\<rparr>) (rr_handler f')"
      using g Fsm_read fl reading evs by (auto simp: stream_step_def stream_inv_def stream_rfqs_def)
    then show ?thesis using r Fsm_read fl reading by (auto simp: stream_handle_def)
  next
    case (Fsm_done ec)
    have "stream_step msg fl s ec es (s\<lparr>rs_fsm := Some f', rs_status := initial\<rparr>)
        (rr_handler f' @ [On_done (me_id e) ec])"
      using g Fsm_done fl reading evs by (auto simp: stream_step_def stream_inv_def stream_rfqs_def intro: exI [of _ "[e]"])
    then show ?thesis using r Fsm_done fl reading by (auto simp: stream_handle_def)
  qed
next
  case ignoring
  then obtain e es where fl: "fl = e # es" "me_status e = abandoned_in_flight" "0 < rs_remaining_rfq s" "list_all idle_ok es"
    using assms(1) by (auto simp: stream_inv_def)
  show ?thesis
  proof (cases "is_ready msg \<and> rs_remaining_rfq s = 1")
    case True
    then have "stream_step msg fl s None es (s\<lparr>rs_remaining_rfq := 0, rs_status := initial\<rparr>) []"
      using fl ignoring by (auto simp: stream_step_def stream_inv_def stream_rfqs_def intro: exI [of _ "[e]"])
    then show ?thesis using True fl ignoring by (auto simp: stream_handle_def is_ready_def)
  next
    case False
    let ?s = "if is_ready msg then s\<lparr>rs_remaining_rfq := rs_remaining_rfq s - 1\<rparr> else s"
    have "stream_step msg fl s None fl ?s []"
      using fl ignoring False by (auto simp: stream_step_def stream_inv_def stream_rfqs_def)
    moreover have "stream_handle msg (fl @ pe) s = Some (None, fl @ pe, ?s, [])"
      using fl ignoring False
      by (cases msg) (auto simp: stream_handle_def is_ready_def split: any_backend_message.splits)
    ultimately show ?thesis by blast
  qed
qed (use assms(2) in simp)

section \<open>Operations\<close>

text \<open>The requests whose callers wait for a result.\<close>

definition is_waiting :: "multiplexer_elem \<Rightarrow> bool" where
  "is_waiting e \<longleftrightarrow> me_status e = pending \<or> me_status e = in_flight"

definition waiting :: "multiplexer \<Rightarrow> nat set" where
  "waiting m = set (map me_id (filter is_waiting (mx_elems m)))"

fun event_id :: "mx_event \<Rightarrow> nat" where
  "event_id (Handler_call i x n) = i"
| "event_id (On_done i ec) = i"

text \<open>
  A step from \<open>m\<close> to \<open>m'\<close>, of an operation that cancels the requests in \<open>cs\<close>: callbacks are only
  made for waiting requests, and a request stops waiting only when it is cancelled or its \<^verbatim>\<open>on_done\<close>
  is called.
\<close>

definition step_ok :: "nat set \<Rightarrow> multiplexer \<Rightarrow> multiplexer \<Rightarrow> bool" where
  "step_ok cs m m' \<longleftrightarrow> mx_inv m' \<and> (\<exists>evs. mx_events m' = mx_events m @ evs \<and>
     event_id ` set evs \<subseteq> waiting m \<and> waiting m \<subseteq> waiting m' \<union> set (done_ids evs) \<union> cs)"

lemma mx_inv_split:
  assumes "mx_inv m"
  obtains fl pe where "mx_elems m = fl @ pe" "mx_num_pending m = length pe" "mx_written m = fl" "mx_unwritten m = pe"
    "stream_inv fl (mx_fsm m)" "list_all pending_ok pe"
proof (rule that [of "mx_written m" "mx_unwritten m"])
  show "mx_num_pending m = length (mx_unwritten m)" using assms by (simp add: mx_inv_def mx_unwritten_def)
  show "stream_inv (mx_written m) (mx_fsm m)" "list_all pending_ok (mx_unwritten m)"
    using assms by (simp_all add: mx_inv_def)
qed (simp_all add: mx_elems_split)

lemma stream_on_message:
  assumes "stream_inv fl s" and "0 < stream_rfqs fl s"
  obtains es1 s1 ec fl' s' evs where "stream_begin (fl @ pe) s = Some (None, es1, s1)"
    "stream_handle msg es1 s1 = Some (ec, fl' @ pe, s', evs)" "stream_step msg fl s ec fl' s' evs"
proof -
  obtain gone fl1 s1 where b: "stream_begin (fl @ pe) s = Some (None, fl1 @ pe, s1)" "fl = gone @ fl1"
    "list_all (\<lambda>e. me_status e = abandoned_pending) gone" "stream_inv fl1 s1" "rs_status s1 \<noteq> initial"
    "stream_rfqs fl1 s1 = stream_rfqs fl s"
    using stream_begin_ok [OF assms] by blast
  obtain ec fl' s' evs where h: "stream_handle msg (fl1 @ pe) s1 = Some (ec, fl' @ pe, s', evs)"
    "stream_step msg fl1 s1 ec fl' s' evs"
    using stream_handle_ok [OF b(4,5)] by blast
  then obtain gone1 where g: "fl1 = gone1 @ fl'" "\<forall>e \<in> set gone1. me_status e = in_flight \<longrightarrow> done_ids evs = [me_id e]"
    "set (done_ids evs) \<subseteq> me_id ` set gone1" "length (done_ids evs) \<le> 1"
    unfolding stream_step_def by blast
  have "stream_step msg fl s ec fl' s' evs"
    unfolding stream_step_def
  proof (intro conjI)
    show "\<exists>gone. fl = gone @ fl' \<and> (\<forall>e \<in> set gone. me_status e = in_flight \<longrightarrow> done_ids evs = [me_id e]) \<and>
        set (done_ids evs) \<subseteq> me_id ` set gone \<and> length (done_ids evs) \<le> 1"
      using g b(2,3) by (intro exI [of _ "gone @ gone1"]) (auto simp: list_all_iff)
    have "\<forall>ev \<in> set evs. \<exists>e \<in> set fl1. me_status e = in_flight \<and>
        (\<exists>x n. ev = Handler_call (me_id e) x n \<or> ev = On_done (me_id e) ec)"
      using h(2) unfolding stream_step_def by blast
    then show "\<forall>ev \<in> set evs. \<exists>e \<in> set fl. me_status e = in_flight \<and>
        (\<exists>x n. ev = Handler_call (me_id e) x n \<or> ev = On_done (me_id e) ec)"
      unfolding b(2) set_append by blast
  qed (use h(2) b(6) in \<open>simp_all add: stream_step_def\<close>)
  then show ?thesis using that b(1) h(1) by blast
qed

lemma stream_not_pending: "stream_inv fl s \<Longrightarrow> \<forall>e \<in> set fl. me_status e \<noteq> pending"
  by (auto simp: stream_inv_def idle_ok_def list_all_iff split: stream_status.splits
      multiplexer_elem_status.splits)

lemma stream_events_done:
  assumes "stream_step msg fl s ec fl' s' evs" and "distinct (map me_id fl)"
  shows "distinct (done_ids evs) \<and> set (done_ids evs) \<subseteq> me_id ` set fl \<and> set (done_ids evs) \<inter> me_id ` set fl' = {}"
proof -
  obtain gone where "fl = gone @ fl'" "set (done_ids evs) \<subseteq> me_id ` set gone" "length (done_ids evs) \<le> 1"
    using assms(1) unfolding stream_step_def by blast
  moreover from this(3) have "distinct (done_ids evs)" by (cases "done_ids evs") auto
  ultimately show ?thesis using assms(2) by auto
qed

lemma mx_on_message_ok:
  assumes inv: "mx_inv m" and "is_async_message msg \<or> 0 < outstanding m"
  obtains ec m' where "mx_on_message msg m = Some (ec, m')" "step_ok {} m m'"
    "ec = None \<Longrightarrow> outstanding m = outstanding m' + (if is_ready msg then 1 else 0)"
proof (cases "is_async_message msg")
  case True
  then have "\<not> is_ready msg" by (auto simp: is_ready_def is_async_message_def)
  then show ?thesis
    using that [of None m] True inv by (simp add: mx_on_message_def step_ok_def)
next
  case False
  obtain fl pe where m: "mx_elems m = fl @ pe" "mx_num_pending m = length pe" "mx_written m = fl" "mx_unwritten m = pe"
    "stream_inv fl (mx_fsm m)" "list_all pending_ok pe"
    by (rule mx_inv_split [OF inv])
  have "0 < stream_rfqs fl (mx_fsm m)" using assms(2) False by (simp add: outstanding_def m(3))
  then obtain es1 s1 ec fl' s' evs where st: "stream_begin (fl @ pe) (mx_fsm m) = Some (None, es1, s1)"
    "stream_handle msg es1 s1 = Some (ec, fl' @ pe, s', evs)" "stream_step msg fl (mx_fsm m) ec fl' s' evs"
    by (rule stream_on_message [OF m(5)])
  let ?m = "m\<lparr>mx_elems := fl' @ pe, mx_fsm := s', mx_events := mx_events m @ evs\<rparr>"
  have run: "mx_on_message msg m = Some (ec, ?m)" using st False by (simp add: mx_on_message_def m(1))
  have w: "mx_written ?m = fl' \<and> mx_unwritten ?m = pe" using m(2) by (intro mx_written_eq) simp_all
  obtain gone where g: "fl = gone @ fl'" "\<forall>e \<in> set gone. me_status e = in_flight \<longrightarrow> done_ids evs = [me_id e]"
    using st(3) unfolding stream_step_def by blast
  have "distinct (map me_id fl)" using inv m(1) by (auto simp: mx_inv_def)
  note d = stream_events_done [OF st(3) this]
  have ids: "distinct (map me_id (fl @ pe))" "\<forall>e \<in> set (fl @ pe). me_id e < mx_next_id m"
    "distinct (done_ids (mx_events m))"
    "\<forall>i \<in> set (done_ids (mx_events m)). i < mx_next_id m \<and> i \<notin> me_id ` set (fl @ pe)"
    using inv by (simp_all add: mx_inv_def m(1))
  have "stream_inv fl' s'" using st(3) by (simp add: stream_step_def)
  moreover have "set (done_ids (mx_events m)) \<inter> me_id ` set fl = {}" using ids(4) by auto
  then have "distinct (done_ids (mx_events m @ evs))" using ids(3) d unfolding done_ids_simps distinct_append by blast
  moreover have "i < mx_next_id m \<and> i \<notin> me_id ` set (fl' @ pe)" if "i \<in> set (done_ids (mx_events m @ evs))" for i
  proof (cases "i \<in> set (done_ids evs)")
    case True
    then have "i \<in> me_id ` set fl" "i \<notin> me_id ` set fl'" using d by blast+
    then show ?thesis using ids(1,2) by auto
  next
    case False
    then show ?thesis using that ids(4) g(1) by auto
  qed
  ultimately have "mx_inv ?m"
    using ids(1,2) m(2,6) w g(1) by (simp add: mx_inv_def)
  moreover have "event_id ` set evs \<subseteq> waiting m"
    using st(3) by (force simp: stream_step_def waiting_def is_waiting_def m(1))
  moreover note stream_not_pending [OF m(5)]
  then have "waiting m \<subseteq> waiting ?m \<union> set (done_ids evs)"
    using g by (fastforce simp: waiting_def is_waiting_def m(1))
  ultimately have "step_ok {} m ?m" by (auto simp: step_ok_def)
  moreover have "ec = None \<Longrightarrow> outstanding m = outstanding ?m + (if is_ready msg then 1 else 0)"
    using st(3) w m(3) by (simp add: outstanding_def stream_step_def)
  ultimately show ?thesis using that run by blast
qed

lemma status_simps:
  "me_status e = pending \<Longrightarrow> is_waiting e" "me_status e = in_flight \<Longrightarrow> is_waiting e"
  "me_status e = abandoned_pending \<Longrightarrow> \<not> is_waiting e" "me_status e = abandoned_in_flight \<Longrightarrow> \<not> is_waiting e"
  "me_status e = in_flight \<Longrightarrow> idle_ok e = request_ok e" "me_status e = abandoned_pending \<Longrightarrow> idle_ok e"
  "me_status e = abandoned_in_flight \<Longrightarrow> idle_ok e = (0 < me_num_rfq e)"
  "me_status e = abandoned_pending \<Longrightarrow> elem_rfqs e = 0" "me_status e = abandoned_in_flight \<Longrightarrow> elem_rfqs e = me_num_rfq e"
  "me_status e = in_flight \<Longrightarrow> me_req e = Some r \<Longrightarrow> elem_rfqs e = get_expected_rfqs (req_types r)"
  "me_status e = pending \<Longrightarrow> pending_ok e = request_ok e" "me_status e = abandoned_pending \<Longrightarrow> pending_ok e"
  by (simp_all add: is_waiting_def idle_ok_def elem_rfqs_def pending_ok_def)

lemma mx_add_ok:
  assumes inv: "mx_inv m" and "check_request req = None" and "mx_add req m = (i, m')"
  shows "step_ok {} m m' \<and> outstanding m' = outstanding m \<and> i \<in> waiting m'"
proof -
  obtain fl pe where m: "mx_elems m = fl @ pe" "mx_num_pending m = length pe" "mx_written m = fl" "mx_unwritten m = pe"
    "stream_inv fl (mx_fsm m)" "list_all pending_ok pe"
    by (rule mx_inv_split [OF inv])
  let ?e = "\<lparr>me_id = mx_next_id m, me_req = Some req, me_status = pending, me_num_rfq = 0\<rparr>"
  have m': "mx_elems m' = fl @ pe @ [?e]" "mx_num_pending m' = length (pe @ [?e])" "mx_fsm m' = mx_fsm m"
    "mx_next_id m' = mx_next_id m + 1" "mx_events m' = mx_events m" "i = mx_next_id m"
    using assms(3) m(1,2) by (auto simp: mx_add_def)
  have w: "mx_written m' = fl \<and> mx_unwritten m' = pe @ [?e]" by (rule mx_written_eq) (simp_all add: m')
  have "pending_ok ?e" using assms(2) by (simp add: pending_ok_def request_ok_def)
  moreover have ids: "\<forall>e \<in> set (fl @ pe). me_id e < mx_next_id m" using inv by (simp add: mx_inv_def m(1))
  moreover have "\<forall>i \<in> set (done_ids (mx_events m)). i < mx_next_id m \<and> i \<notin> me_id ` set (fl @ pe)"
    using inv by (simp add: mx_inv_def m(1))
  ultimately have "mx_inv m'"
    using inv m(5,6) w by (auto simp: mx_inv_def m(1) m' less_Suc_eq)
  moreover have "waiting m \<subseteq> waiting m'" "mx_next_id m \<in> waiting m'"
    by (auto simp: waiting_def m(1) m' status_simps)
  ultimately show ?thesis
    using w m(3) by (simp add: step_ok_def outstanding_def m')
qed

subsection \<open>Writing\<close>

lemma prepare_elems_ok:
  assumes "list_all pending_ok pe"
  shows "\<exists>es. prepare_elems pe = Some (concat (map req_buffer (List.map_filter
        (\<lambda>e. if me_status e = pending then me_req e else None) pe)), es) \<and>
    list_all idle_ok es \<and> map me_id es = map me_id pe \<and> map is_waiting es = map is_waiting pe \<and>
    sum_list (map elem_rfqs es) = sum_list (map (\<lambda>r. get_expected_rfqs (req_types r)) (List.map_filter
        (\<lambda>e. if me_status e = pending then me_req e else None) pe))"
  using assms
proof (induction pe)
  case (Cons e pe)
  obtain es where es: "prepare_elems pe = Some (concat (map req_buffer (List.map_filter
        (\<lambda>e. if me_status e = pending then me_req e else None) pe)), es)"
    "list_all idle_ok es" "map me_id es = map me_id pe" "map is_waiting es = map is_waiting pe"
    "sum_list (map elem_rfqs es) = sum_list (map (\<lambda>r. get_expected_rfqs (req_types r)) (List.map_filter
        (\<lambda>e. if me_status e = pending then me_req e else None) pe))"
    using Cons by auto
  show ?case
  proof (cases "me_status e")
    case pending
    then obtain r where "me_req e = Some r" "check_request r = None"
      using Cons.prems by (auto simp: pending_ok_def request_ok_def)
    then show ?thesis
      using es pending
      by (simp add: status_simps request_ok_def List.map_filter_simps)
  next
    case abandoned_pending
    then show ?thesis
      using es by (simp add: status_simps List.map_filter_simps)
  qed (use Cons.prems in \<open>simp_all add: pending_ok_def\<close>)
qed (simp add: List.map_filter_simps)

text \<open>The requests that the next write takes, in order.\<close>

definition to_write :: "multiplexer \<Rightarrow> request list" where
  "to_write m = List.map_filter (\<lambda>e. if me_status e = pending then me_req e else None) (mx_unwritten m)"

lemma stream_append:
  assumes "stream_inv fl s" and "list_all idle_ok es"
  shows "stream_inv (fl @ es) s \<and> stream_rfqs (fl @ es) s = stream_rfqs fl s + sum_list (map elem_rfqs es)"
  using assms by (auto simp: stream_inv_def stream_rfqs_def split: stream_status.splits)

lemma waiting_cong:
  assumes "map me_id es = map me_id pe" and "map is_waiting es = map is_waiting pe"
  shows "map me_id (filter is_waiting es) = map me_id (filter is_waiting pe)"
  using assms by (induction es pe rule: list_induct2') auto

lemma mx_prepare_write_ok:
  assumes inv: "mx_inv m"
  obtains m' where "mx_prepare_write m = Some m'" "step_ok {} m m'" "mx_num_pending m' = 0"
    "mx_write_buffer m' = concat (map req_buffer (to_write m))"
    "outstanding m' = outstanding m + sum_list (map (\<lambda>r. get_expected_rfqs (req_types r)) (to_write m))"
proof -
  obtain fl pe where m: "mx_elems m = fl @ pe" "mx_num_pending m = length pe" "mx_written m = fl" "mx_unwritten m = pe"
    "stream_inv fl (mx_fsm m)" "list_all pending_ok pe"
    by (rule mx_inv_split [OF inv])
  obtain es where es: "prepare_elems pe = Some (concat (map req_buffer (to_write m)), es)" "list_all idle_ok es"
    "map me_id es = map me_id pe" "map is_waiting es = map is_waiting pe"
    "sum_list (map elem_rfqs es) = sum_list (map (\<lambda>r. get_expected_rfqs (req_types r)) (to_write m))"
    using prepare_elems_ok [OF m(6)] unfolding to_write_def m(4) by blast
  let ?m = "m\<lparr>mx_write_buffer := concat (map req_buffer (to_write m)), mx_elems := fl @ es, mx_num_pending := 0\<rparr>"
  have run: "mx_prepare_write m = Some ?m" by (simp add: mx_prepare_write_def pending_offset_def m(1,2) es(1))
  have w: "mx_written ?m = fl @ es \<and> mx_unwritten ?m = []" by (rule mx_written_eq) simp_all
  note st = stream_append [OF m(5) es(2)]
  have idset: "me_id ` set es = me_id ` set pe" using es(3) by (metis list.set_map)
  have "\<forall>e \<in> set (fl @ es). me_id e < mx_next_id m"
  proof -
    have "\<forall>i \<in> me_id ` set es. i < mx_next_id m" using inv by (simp add: mx_inv_def m(1) idset)
    then show ?thesis using inv by (auto simp: mx_inv_def m(1))
  qed
  then have "mx_inv ?m"
    using inv w st es(3) idset by (simp add: mx_inv_def m(1) image_Un)
  moreover have "waiting ?m = waiting m"
    using waiting_cong [OF es(3,4)] by (simp add: waiting_def m(1) del: set_map)
  ultimately have "step_ok {} m ?m" by (simp add: step_ok_def)
  moreover have "outstanding ?m = outstanding m + sum_list (map (\<lambda>r. get_expected_rfqs (req_types r)) (to_write m))"
    using st w m(3) es(5) by (simp add: outstanding_def)
  ultimately show ?thesis using that run by simp
qed

subsection \<open>Losing the connection\<close>

lemma done_ids_cleanup: "done_ids (concat (map cleanup_event es)) = map me_id (filter is_waiting es)"
  by (induction es) (auto simp: cleanup_event_def is_waiting_def)

lemma mx_cleanup_ok:
  assumes inv: "mx_inv m"
  obtains m' where "mx_cleanup m = Some m'" "step_ok {} m m'" "outstanding m' = 0" "mx_elems m' = mx_unwritten m"
    "mx_events m' = mx_events m @ map (\<lambda>e. On_done (me_id e) (Some Operation_canceled))
       (filter is_waiting (mx_written m))"
proof -
  obtain fl pe where m: "mx_elems m = fl @ pe" "mx_num_pending m = length pe" "mx_written m = fl" "mx_unwritten m = pe"
    "stream_inv fl (mx_fsm m)" "list_all pending_ok pe"
    by (rule mx_inv_split [OF inv])
  let ?evs = "concat (map cleanup_event fl)"
  let ?m = "m\<lparr>mx_elems := pe, mx_fsm := rs_reset (mx_fsm m), mx_events := mx_events m @ ?evs\<rparr>"
  have run: "mx_cleanup m = Some ?m" by (simp add: mx_cleanup_def pending_offset_def m(1,2))
  have w: "mx_written ?m = [] \<and> mx_unwritten ?m = pe" by (rule mx_written_eq) (simp_all add: m(2))
  have ids: "distinct (map me_id (fl @ pe))" "\<forall>e \<in> set (fl @ pe). me_id e < mx_next_id m"
    "distinct (done_ids (mx_events m))"
    "\<forall>i \<in> set (done_ids (mx_events m)). i < mx_next_id m \<and> i \<notin> me_id ` set (fl @ pe)"
    using inv by (simp_all add: mx_inv_def m(1))
  have "distinct (map me_id (filter is_waiting fl))" using ids(1) by (simp add: distinct_map_filter)
  moreover have "set (done_ids (mx_events m)) \<inter> me_id ` set (filter is_waiting fl) = {}" using ids(4) by auto
  ultimately have "distinct (done_ids (mx_events m @ ?evs))" using ids(3) by (simp add: done_ids_cleanup)
  moreover have "\<forall>i \<in> set (done_ids (mx_events m @ ?evs)). i < mx_next_id m \<and> i \<notin> me_id ` set pe"
    using ids(1,2,4) by (auto simp: done_ids_cleanup)
  moreover have "stream_inv [] (rs_reset s)" for s by (simp add: stream_inv_def rs_reset_def)
  ultimately have "mx_inv ?m"
    using ids(1,2) w m(2,6) by (simp add: mx_inv_def)
  moreover have "event_id ` set ?evs \<subseteq> waiting m"
    by (auto simp: cleanup_event_def waiting_def is_waiting_def m(1) split: if_splits)
  moreover have "waiting m \<subseteq> waiting ?m \<union> set (done_ids ?evs)"
    by (auto simp: waiting_def done_ids_cleanup m(1))
  ultimately have "step_ok {} m ?m" by (auto simp: step_ok_def)
  moreover have "outstanding ?m = 0" using w by (simp add: outstanding_def stream_rfqs_def rs_reset_def)
  moreover have "?evs = map (\<lambda>e. On_done (me_id e) (Some Operation_canceled)) (filter is_waiting fl)"
    by (induction fl) (auto simp: cleanup_event_def is_waiting_def)
  ultimately show ?thesis using that run m(3,4) by simp
qed

subsection \<open>Cancelling\<close>

lemma cancel_in_split:
  assumes "i \<notin> me_id ` set pre" and "me_id e = i"
  shows "cancel_in i b (pre @ e # post) s =
    map_option (\<lambda>(e', s'). (pre @ e' # post, s')) (cancel_elem (b \<and> pre = []) e s)"
  using assms
proof (induction pre arbitrary: b)
  case (Cons a pre)
  then show ?case by (auto simp: option.map_comp comp_def split: option.splits intro!: option.map_cong)
qed simp

lemma cancel_elem_pending:
  "me_status e = pending \<Longrightarrow>
   cancel_elem b e s = Some (e\<lparr>me_status := abandoned_pending, me_req := None\<rparr>, s)"
  by (simp add: cancel_elem_def)

text \<open>Cancelling a written request keeps the stream well-formed and what the server owes.\<close>

lemma cancel_elem_in_flight:
  assumes "stream_inv (pre @ e # post) s" and "me_status e = in_flight"
  shows "\<exists>e' s'. cancel_elem (pre = []) e s = Some (e', s') \<and> stream_inv (pre @ e' # post) s' \<and>
    stream_rfqs (pre @ e' # post) s' = stream_rfqs (pre @ e # post) s \<and>
    me_id e' = me_id e \<and> me_status e' = abandoned_in_flight"
proof (cases "pre = [] \<and> rs_status s = reading")
  case True
  then obtain f where f: "rs_fsm s = Some f" "rr_inv f" "list_all idle_ok post"
    using assms(1) by (auto simp: stream_inv_def)
  then show ?thesis
    using True assms(2) rr_inv_rfqs [OF f(2)]
    by (simp add: cancel_elem_def abandon_current_def is_reading_def stream_inv_def stream_rfqs_def)
next
  case False
  have "idle_ok e"
    using False assms
    by (cases "rs_status s"; cases pre) (auto simp: stream_inv_def)
  then obtain r where r: "me_req e = Some r" "check_request r = None"
    using assms(2) by (auto simp: status_simps request_ok_def)
  let ?e = "e\<lparr>me_status := abandoned_in_flight, me_num_rfq := get_expected_rfqs (req_types r), me_req := None\<rparr>"
  have "cancel_elem (pre = []) e s = Some (?e, s)"
    using False assms(2) r by (auto simp: cancel_elem_def is_reading_def)
  moreover have "idle_ok ?e" using checked_rfqs [OF r(2)] by (simp add: status_simps)
  moreover have "elem_rfqs ?e = elem_rfqs e" using assms(2) r by (simp add: status_simps)
  ultimately show ?thesis
    using assms False
    by (cases "rs_status s"; cases pre) (auto simp: stream_inv_def stream_rfqs_def)
qed

lemma waiting_split:
  "mx_elems m = pre @ e # post \<Longrightarrow> mx_elems m' = pre @ e' # post \<Longrightarrow> \<not> is_waiting e' \<Longrightarrow>
   waiting m \<subseteq> waiting m' \<union> {me_id e}"
  by (auto simp: waiting_def)

lemma cancel_step_ok:
  assumes inv: "mx_inv m" and "mx_elems m = pre @ e # post" and "m' = m\<lparr>mx_elems := pre @ e' # post, mx_fsm := s'\<rparr>"
    and "me_id e' = me_id e" and "\<not> is_waiting e'" and "stream_inv (mx_written m') s'"
    and "list_all pending_ok (mx_unwritten m')"
  shows "step_ok {me_id e} m m'"
proof -
  have "map me_id (pre @ e' # post) = map me_id (mx_elems m)" using assms(2,4) by simp
  moreover from this have "me_id ` set (pre @ e' # post) = me_id ` set (mx_elems m)" by (metis list.set_map)
  moreover have "\<forall>x \<in> set (pre @ e' # post). me_id x < mx_next_id m"
    using inv assms(2,4) by (auto simp: mx_inv_def)
  ultimately have "mx_inv m'"
    using inv assms(2,6,7) by (simp add: mx_inv_def assms(3))
  then show ?thesis
    using waiting_split [of m pre e post m' e'] assms(2,3,5) by (simp add: step_ok_def)
qed

lemma mx_cancel_ok:
  assumes inv: "mx_inv m" and "i \<in> waiting m"
  obtains m' where "mx_cancel i m = Some m'" "step_ok {i} m m'" "outstanding m' = outstanding m" "i \<notin> waiting m'"
proof -
  obtain fl pe where m: "mx_elems m = fl @ pe" "mx_num_pending m = length pe" "mx_written m = fl" "mx_unwritten m = pe"
    "stream_inv fl (mx_fsm m)" "list_all pending_ok pe"
    by (rule mx_inv_split [OF inv])
  obtain e where e: "e \<in> set (mx_elems m)" "is_waiting e" "me_id e = i" using assms(2) by (auto simp: waiting_def)
  have dist: "distinct (map me_id (fl @ pe))" using inv by (simp add: mx_inv_def m(1))
  have fresh: "i \<notin> waiting m'" if "mx_elems m' = pre @ e' # post" "mx_elems m = pre @ e # post" "\<not> is_waiting e'" for pre e' post m'
    using that dist e(3) m(1) by (auto simp: waiting_def)
  show ?thesis
  proof (cases "e \<in> set fl")
    case True
    then obtain pre post where fl: "fl = pre @ e # post" by (meson split_list)
    have np: "i \<notin> me_id ` set pre" using dist e(3) by (auto simp: fl)
    have "me_status e = in_flight"
      using e(2) stream_not_pending [OF m(5)] by (auto simp: fl is_waiting_def)
    then obtain e' s' where c: "cancel_elem (pre = []) e (mx_fsm m) = Some (e', s')" "stream_inv (pre @ e' # post) s'"
      "stream_rfqs (pre @ e' # post) s' = stream_rfqs fl (mx_fsm m)" "me_id e' = me_id e" "me_status e' = abandoned_in_flight"
      using cancel_elem_in_flight m(5) unfolding fl by blast
    define m' where "m' = m\<lparr>mx_elems := pre @ e' # post @ pe, mx_fsm := s'\<rparr>"
    have run: "mx_cancel i m = Some m'"
      using cancel_in_split [OF np e(3), of True "post @ pe"] c(1) by (simp add: mx_cancel_def m(1) fl m'_def)
    have w: "mx_written m' = pre @ e' # post \<and> mx_unwritten m' = pe"
      by (rule mx_written_eq) (simp_all add: m'_def m(2))
    have "step_ok {me_id e} m m'"
      by (rule cancel_step_ok [OF inv _ m'_def c(4)]) (use m(1,6) fl c w in \<open>simp_all add: status_simps\<close>)
    moreover have "outstanding m' = outstanding m" using w c(3) m(3) by (simp add: outstanding_def m'_def)
    moreover have "i \<notin> waiting m'"
      by (rule fresh [of _ pre e' "post @ pe"]) (use m(1) fl c(5) in \<open>simp_all add: m'_def status_simps\<close>)
    ultimately show ?thesis using that run e(3) by simp
  next
    case False
    then have "e \<in> set pe" using e(1) m(1) by simp
    then obtain pre post where pe: "pe = pre @ e # post" by (meson split_list)
    have np: "i \<notin> me_id ` set (fl @ pre)" using dist e(3) by (auto simp: pe)
    have pend: "me_status e = pending"
      using e(2) m(6) by (auto simp: pe is_waiting_def pending_ok_def split: multiplexer_elem_status.splits)
    let ?e = "e\<lparr>me_status := abandoned_pending, me_req := None\<rparr>"
    define m' where "m' = m\<lparr>mx_elems := (fl @ pre) @ ?e # post, mx_fsm := mx_fsm m\<rparr>"
    have run: "mx_cancel i m = Some m'"
      using cancel_in_split [OF np e(3), of True post] by (simp add: mx_cancel_def m(1) pe m'_def cancel_elem_pending [OF pend])
    have w: "mx_written m' = fl \<and> mx_unwritten m' = pre @ ?e # post"
      by (rule mx_written_eq) (simp_all add: m'_def m(2) pe)
    have "step_ok {me_id e} m m'"
      by (rule cancel_step_ok [OF inv _ m'_def]) (use m(1,5,6) pe w in \<open>simp_all add: status_simps\<close>)
    moreover have "outstanding m' = outstanding m" using w m(3) by (simp add: outstanding_def m'_def)
    moreover have "i \<notin> waiting m'"
      by (rule fresh [of _ "fl @ pre" ?e post]) (use m(1) pe in \<open>simp_all add: m'_def status_simps\<close>)
    ultimately show ?thesis using that run e(3) by simp
  qed
qed

section \<open>Every interleaving\<close>

datatype mx_op = Op_add request | Op_cancel nat | Op_prepare_write | Op_message any_backend_message | Op_cleanup

fun mx_apply :: "mx_op \<Rightarrow> multiplexer \<Rightarrow> multiplexer option" where
  "mx_apply (Op_add req) m = Some (snd (mx_add req m))"
| "mx_apply (Op_cancel i) m = mx_cancel i m"
| "mx_apply Op_prepare_write m = mx_prepare_write m"
| "mx_apply (Op_message msg) m = map_option snd (mx_on_message msg m)"
| "mx_apply Op_cleanup m = mx_cleanup m"

text \<open>
  What the callers guarantee: \<^verbatim>\<open>exec\<close> checks its request first and only cancels a request whose
  \<^verbatim>\<open>on_done\<close> has not been called; and the server sends a message that is not asynchronous only while
  it owes a \<^verbatim>\<open>ReadyForQuery\<close>.
\<close>

fun mx_legal :: "mx_op \<Rightarrow> multiplexer \<Rightarrow> bool" where
  "mx_legal (Op_add req) m \<longleftrightarrow> check_request req = None"
| "mx_legal (Op_cancel i) m \<longleftrightarrow> i \<in> waiting m"
| "mx_legal Op_prepare_write m \<longleftrightarrow> True"
| "mx_legal (Op_message msg) m \<longleftrightarrow> is_async_message msg \<or> 0 < outstanding m"
| "mx_legal Op_cleanup m \<longleftrightarrow> True"

definition cancelled_by :: "mx_op \<Rightarrow> nat set" where
  "cancelled_by opn = (case opn of Op_cancel i \<Rightarrow> {i} | _ \<Rightarrow> {})"

inductive mx_reachable :: "multiplexer \<Rightarrow> bool" where
  mx_reach_init: "mx_reachable multiplexer_init"
| mx_reach_step: "mx_reachable m \<Longrightarrow> mx_legal opn m \<Longrightarrow> mx_apply opn m = Some m' \<Longrightarrow> mx_reachable m'"

lemma mx_apply_ok:
  assumes "mx_inv m" and "mx_legal opn m"
  shows "\<exists>m'. mx_apply opn m = Some m' \<and> step_ok (cancelled_by opn) m m'"
proof (cases opn)
  case (Op_add req)
  then show ?thesis using mx_add_ok [OF assms(1), of req] assms(2) by (cases "mx_add req m") (simp add: cancelled_by_def)
next
  case (Op_cancel i)
  then show ?thesis using mx_cancel_ok [OF assms(1), of i] assms(2) by (auto simp: cancelled_by_def)
next
  case Op_prepare_write
  then show ?thesis using mx_prepare_write_ok [OF assms(1)] by (auto simp: cancelled_by_def)
next
  case (Op_message msg)
  then show ?thesis using mx_on_message_ok [OF assms(1), of msg] assms(2) by (fastforce simp: cancelled_by_def)
next
  case Op_cleanup
  then show ?thesis using mx_cleanup_ok [OF assms(1)] by (auto simp: cancelled_by_def)
qed

lemma mx_reachable_inv: "mx_reachable m \<Longrightarrow> mx_inv m"
proof (induction rule: mx_reachable.induct)
  case mx_reach_init
  then show ?case
    by (simp add: mx_inv_def multiplexer_init_def mx_written_def mx_unwritten_def stream_inv_def)
next
  case (mx_reach_step m opn m')
  then show ?case using mx_apply_ok [of m opn] by (auto simp: step_ok_def)
qed

text \<open>
  C7. Under every interleaving of adding, cancelling, writing, receiving and cleaning up that respects
  what the callers and the server guarantee, each operation of the multiplexer completes: no assertion
  fails, no cancelled element dangles and no iterator leaves the queue; the unwritten requests stay a
  suffix of the queue whose length is \<^verbatim>\<open>num_pending_\<close>.
\<close>

theorem multiplexer_never_stuck:
  assumes "mx_reachable m" and "mx_legal opn m"
  shows "\<exists>m'. mx_apply opn m = Some m' \<and> mx_num_pending m' \<le> length (mx_elems m') \<and>
    (\<forall>e \<in> set (mx_unwritten m'). me_status e = pending \<or> me_status e = abandoned_pending) \<and>
    (\<forall>e \<in> set (mx_written m'). me_status e \<noteq> pending)"
proof -
  obtain m' where m': "mx_apply opn m = Some m'" "step_ok (cancelled_by opn) m m'"
    using mx_apply_ok [OF mx_reachable_inv [OF assms(1)] assms(2)] by blast
  then have inv: "mx_inv m'" by (simp add: step_ok_def)
  have "me_status e = pending \<or> me_status e = abandoned_pending" if "pending_ok e" for e
    using that by (cases "me_status e") (simp_all add: pending_ok_def)
  then have "\<forall>e \<in> set (mx_unwritten m'). me_status e = pending \<or> me_status e = abandoned_pending"
    using inv by (simp add: mx_inv_def list_all_iff)
  then show ?thesis
    using m'(1) inv stream_not_pending by (auto simp: mx_inv_def)
qed

text \<open>A request with one query, for the examples.\<close>

abbreviation one_query :: request where
  "one_query \<equiv> \<lparr>req_buffer = [81], req_types = [msg_query], req_autosync = True\<rparr>"

lemma one_query_checked: "check_request one_query = None"
  by (simp add: check_request_def)

lemma one_query_reachable: "mx_reachable (snd (mx_add one_query multiplexer_init))"
  by (rule mx_reach_step [OF mx_reach_init, of "Op_add one_query"]) (simp_all add: one_query_checked)

lemma one_query_waiting: "waiting (snd (mx_add one_query multiplexer_init)) = {0}"
  by (simp add: waiting_def mx_add_def multiplexer_init_def is_waiting_def)

theorem multiplexer_never_stuck_witness:
  "\<exists>m'. mx_apply (Op_cancel 0) (snd (mx_add one_query multiplexer_init)) = Some m' \<and>
    mx_num_pending m' \<le> length (mx_elems m')"
  using multiplexer_never_stuck [OF one_query_reachable, of "Op_cancel 0"] by (auto simp: one_query_waiting)

text \<open>
  C12. Callbacks are made only for requests that wait for a result, hence never after a cancellation;
  a request stops waiting only because it is cancelled or because its \<^verbatim>\<open>on_done\<close> is called; and
  \<^verbatim>\<open>on_done\<close> is called at most once for each request, after which it does not wait any more.
\<close>

theorem multiplexer_callbacks:
  assumes "mx_reachable m" and "mx_legal opn m" and "mx_apply opn m = Some m'"
  shows "(\<exists>evs. mx_events m' = mx_events m @ evs \<and> event_id ` set evs \<subseteq> waiting m \<and>
      waiting m \<subseteq> waiting m' \<union> set (done_ids evs) \<union> cancelled_by opn) \<and>
    distinct (done_ids (mx_events m')) \<and> set (done_ids (mx_events m')) \<inter> waiting m' = {}"
proof -
  have st: "step_ok (cancelled_by opn) m m'"
    using mx_apply_ok [OF mx_reachable_inv [OF assms(1)] assms(2)] assms(3) by auto
  then have "mx_inv m'" by (simp add: step_ok_def)
  then show ?thesis using st by (auto simp: step_ok_def mx_inv_def waiting_def)
qed

theorem multiplexer_callbacks_witness:
  "distinct (done_ids (mx_events (snd (mx_add one_query multiplexer_init)))) \<and>
   set (done_ids (mx_events (snd (mx_add one_query multiplexer_init)))) \<inter>
     waiting (snd (mx_add one_query multiplexer_init)) = {}"
  using multiplexer_callbacks [OF mx_reach_init, of "Op_add one_query"] one_query_checked by simp

text \<open>
  C6. Cancelling a request never desynchronizes the stream: in every reachable state and whatever part
  of its response has arrived, it succeeds, ends the callbacks of the request and leaves the number of
  \<^verbatim>\<open>ReadyForQuery\<close> messages that are accounted for unchanged.
\<close>

theorem multiplexer_cancel_keeps_stream:
  assumes "mx_reachable m" and "i \<in> waiting m"
  shows "\<exists>m'. mx_cancel i m = Some m' \<and> i \<notin> waiting m' \<and> waiting m \<subseteq> waiting m' \<union> {i} \<and>
    outstanding m' = outstanding m \<and> mx_events m' = mx_events m"
proof -
  obtain m' where m': "mx_cancel i m = Some m'" "step_ok {i} m m'" "outstanding m' = outstanding m" "i \<notin> waiting m'"
    by (rule mx_cancel_ok [OF mx_reachable_inv [OF assms(1)] assms(2)])
  moreover from m'(1) have "mx_events m' = mx_events m" by (auto simp: mx_cancel_def)
  ultimately show ?thesis by (auto simp: step_ok_def)
qed

theorem multiplexer_cancel_keeps_stream_witness:
  "\<exists>m'. mx_cancel 0 (snd (mx_add one_query multiplexer_init)) = Some m' \<and> 0 \<notin> waiting m' \<and>
    outstanding m' = outstanding (snd (mx_add one_query multiplexer_init))"
  using multiplexer_cancel_keeps_stream [OF one_query_reachable, of 0] by (auto simp: one_query_waiting)

text \<open>
  C11. \<^verbatim>\<open>ReadyForQuery\<close> messages are accounted for exactly: a write hands out the payloads of the
  pending requests in order and adds what they expect, and every message that is handled without an
  error settles one of them if it is a \<^verbatim>\<open>ReadyForQuery\<close> and none otherwise, whether its request is
  read or ignored.
\<close>

theorem multiplexer_accounts_for_ready_messages:
  assumes "mx_reachable m"
  shows "(\<exists>m'. mx_prepare_write m = Some m' \<and> mx_write_buffer m' = concat (map req_buffer (to_write m)) \<and>
      outstanding m' = outstanding m + sum_list (map (\<lambda>r. get_expected_rfqs (req_types r)) (to_write m))) \<and>
    (is_async_message msg \<or> 0 < outstanding m \<longrightarrow>
      (\<exists>ec m'. mx_on_message msg m = Some (ec, m') \<and>
        (ec = None \<longrightarrow> outstanding m = outstanding m' + (if is_ready msg then 1 else 0))))"
proof (intro conjI impI)
  note inv = mx_reachable_inv [OF assms]
  show "\<exists>m'. mx_prepare_write m = Some m' \<and> mx_write_buffer m' = concat (map req_buffer (to_write m)) \<and>
      outstanding m' = outstanding m + sum_list (map (\<lambda>r. get_expected_rfqs (req_types r)) (to_write m))"
    by (rule mx_prepare_write_ok [OF inv]) blast
  show "\<exists>ec m'. mx_on_message msg m = Some (ec, m') \<and>
      (ec = None \<longrightarrow> outstanding m = outstanding m' + (if is_ready msg then 1 else 0))"
    if "is_async_message msg \<or> 0 < outstanding m"
    by (rule mx_on_message_ok [OF inv that]) blast
qed

theorem multiplexer_accounts_for_ready_messages_witness:
  "\<exists>m'. mx_prepare_write (snd (mx_add one_query multiplexer_init)) = Some m' \<and> mx_write_buffer m' = [81] \<and>
    outstanding m' = 1"
  using multiplexer_accounts_for_ready_messages [OF one_query_reachable]
  by (simp add: to_write_def mx_unwritten_def mx_add_def multiplexer_init_def List.map_filter_simps
      outstanding_def mx_written_def stream_rfqs_def expects_rfq_def)


end
