(* ===== verification/Pg_Charconv.thy ===== *)
theory Pg_Charconv
  imports Pg_Error
begin

text \<open>
  The part of \<^verbatim>\<open><charconv>\<close> the program uses: \<^verbatim>\<open>std::from_chars\<close> and \<^verbatim>\<open>std::to_chars\<close> on integers.
  \<^verbatim>\<open>from_chars\<close> reads the longest run of digits, after a minus sign where the type is signed, reports
  \<^verbatim>\<open>invalid_argument\<close> when there is none and \<^verbatim>\<open>result_out_of_range\<close> when the value does not fit,
  and returns the value and the unread characters otherwise. The locale \<open>int_format\<close> is the contract
  of a textual integer format with a range.
\<close>

section \<open>Digits\<close>

definition is_digit :: "byte \<Rightarrow> bool" where
  "is_digit b \<longleftrightarrow> 48 \<le> unat b \<and> unat b \<le> 57"

definition digit_value :: "byte \<Rightarrow> nat" where
  "digit_value b = unat b - 48"

definition digit_char :: "nat \<Rightarrow> byte" where
  "digit_char n = word_of_nat (48 + n)"

definition digits_value :: "bytes \<Rightarrow> nat" where
  "digits_value ds = foldl (\<lambda>a b. a * 10 + digit_value b) 0 ds"

fun digits_of :: "nat \<Rightarrow> bytes" where
  "digits_of n = (if n < 10 then [digit_char n] else digits_of (n div 10) @ [digit_char (n mod 10)])"

declare digits_of.simps [simp del]

lemma unat_of_nat8: "n < 256 \<Longrightarrow> unat (word_of_nat n :: byte) = n"
  by (simp add: unat_of_nat take_bit_nat_eq_self)

lemma unat_digit_char: "n < 10 \<Longrightarrow> unat (digit_char n) = 48 + n"
  unfolding digit_char_def by (rule unat_of_nat8) simp

lemma digit_char_simps [simp]:
  "n < 10 \<Longrightarrow> is_digit (digit_char n)" "n < 10 \<Longrightarrow> digit_value (digit_char n) = n"
  by (simp_all add: is_digit_def digit_value_def unat_digit_char)

lemma digits_value_simps [simp]:
  "digits_value [] = 0" "digits_value (ds @ [d]) = digits_value ds * 10 + digit_value d"
  by (simp_all add: digits_value_def)

lemma digits_of_nonempty [simp]: "digits_of n \<noteq> []"
  by (subst digits_of.simps) simp

lemma digits_of_digits: "list_all is_digit (digits_of n)"
  by (induction n rule: digits_of.induct) (subst digits_of.simps, simp)

lemma digits_value_of [simp]: "digits_value (digits_of n) = n"
proof (induction n rule: digits_of.induct)
  case (1 n)
  then show ?case
    using digits_value_simps(2) [of "[]" "digit_char n"] by (subst digits_of.simps) simp
qed

section \<open>from\_chars and to\_chars\<close>

definition from_chars_digits :: "bytes \<Rightarrow> (nat \<times> bytes) option" where
  "from_chars_digits s =
     (let ds = takeWhile is_digit s
      in if ds = [] then None else Some (digits_value ds, drop (length ds) s))"

abbreviation minus_sign :: byte where
  "minus_sign \<equiv> 45"

definition from_chars :: "int \<Rightarrow> int \<Rightarrow> bytes \<Rightarrow> error_code + int \<times> bytes" where
  "from_chars lo hi s =
     (let neg = (lo < 0 \<and> s \<noteq> [] \<and> hd s = minus_sign)
      in case from_chars_digits (if neg then tl s else s) of
           None \<Rightarrow> Inl Invalid_argument
         | Some (n, rest) \<Rightarrow>
             (let v = (if neg then - int n else int n)
              in if lo \<le> v \<and> v \<le> hi then Inr (v, rest) else Inl Result_out_of_range))"

definition to_chars :: "int \<Rightarrow> bytes" where
  "to_chars v = (if v < 0 then minus_sign # digits_of (nat (- v)) else digits_of (nat v))"

lemma takeWhile_digits:
  assumes "list_all is_digit ds" and "rest = [] \<or> \<not> is_digit (hd rest)"
  shows "takeWhile is_digit (ds @ rest) = ds"
proof -
  have "takeWhile is_digit rest = []" using assms(2) by (cases rest) auto
  then show ?thesis using assms(1) by (simp add: list_all_iff takeWhile_append2)
qed

lemma from_chars_digits_append:
  assumes "list_all is_digit ds" and "ds \<noteq> []" and "rest = [] \<or> \<not> is_digit (hd rest)"
  shows "from_chars_digits (ds @ rest) = Some (digits_value ds, rest)"
  using takeWhile_digits [OF assms(1,3)] assms(2) by (simp add: from_chars_digits_def)

lemma from_chars_digits_SomeD:
  assumes "from_chars_digits s = Some (n, rest)"
  obtains ds where "s = ds @ rest" "list_all is_digit ds" "ds \<noteq> []" "n = digits_value ds"
    "rest = [] \<or> \<not> is_digit (hd rest)"
proof -
  let ?ds = "takeWhile is_digit s"
  have eq: "?ds \<noteq> []" "n = digits_value ?ds" "rest = dropWhile is_digit s"
    using assms by (auto simp: from_chars_digits_def Let_def dropWhile_eq_drop split: if_splits)
  have "list_all is_digit ?ds" by (simp add: list_all_iff) (meson set_takeWhileD)
  moreover have "rest = [] \<or> \<not> is_digit (hd rest)" using hd_dropWhile [of is_digit s] eq(3) by auto
  ultimately show ?thesis using that [of ?ds] eq by simp
qed

lemma not_digit_minus: "\<not> is_digit minus_sign"
  by (simp add: is_digit_def)

text \<open>
  A textual format of the integers from \<open>lo\<close> to \<open>hi\<close>: what is printed is read back, whatever text that
  does not go on with a digit follows.
\<close>

locale int_format =
  fixes lo hi :: int
    and read_int :: "bytes \<Rightarrow> error_code + int \<times> bytes"
    and print_int :: "int \<Rightarrow> bytes"
  assumes read_print: "lo \<le> v \<Longrightarrow> v \<le> hi \<Longrightarrow> rest = [] \<or> \<not> is_digit (hd rest) \<Longrightarrow>
      read_int (print_int v @ rest) = Inr (v, rest)"
    and print_nonempty: "print_int v \<noteq> []"
begin

lemma read_print_all: "lo \<le> v \<Longrightarrow> v \<le> hi \<Longrightarrow> read_int (print_int v) = Inr (v, [])"
  using read_print [of v "[]"] by simp

lemma print_inject:
  assumes "lo \<le> v" "v \<le> hi" "lo \<le> w" "w \<le> hi" and eq: "print_int v = print_int w"
  shows "v = w"
proof -
  have "Inr (v, []) = read_int (print_int v)" using assms(1,2) by (rule read_print_all [symmetric])
  also have "\<dots> = Inr (w, [])" unfolding eq using assms(3,4) by (rule read_print_all)
  finally show ?thesis by simp
qed

end

lemma from_chars_to_chars:
  assumes "lo \<le> v" and "v \<le> hi" and "rest = [] \<or> \<not> is_digit (hd rest)"
  shows "from_chars lo hi (to_chars v @ rest) = Inr (v, rest)"
proof -
  have d: "from_chars_digits (digits_of n @ rest) = Some (n, rest)" for n
    using from_chars_digits_append [OF digits_of_digits digits_of_nonempty assms(3), of n] by simp
  show ?thesis
  proof (cases "v < 0")
    case True
    then show ?thesis using assms(1,2) d by (simp add: from_chars_def to_chars_def Let_def)
  next
    case False
    have "is_digit (hd (digits_of n))" for n
      using digits_of_digits [of n] by (cases "digits_of n") auto
    then have "hd (digits_of n @ rest) \<noteq> minus_sign" for n
      using not_digit_minus by (metis digits_of_nonempty hd_append2)
    then show ?thesis using False assms(1,2) d by (simp add: from_chars_def to_chars_def Let_def)
  qed
qed

lemma to_chars_nonempty: "to_chars v \<noteq> []"
  by (simp add: to_chars_def)

interpretation dec: int_format lo hi "from_chars lo hi" to_chars for lo hi
  by unfold_locales (simp_all add: from_chars_to_chars to_chars_nonempty)

text \<open>The ranges of the fixed-width types.\<close>

abbreviation min_signed :: "nat \<Rightarrow> int" where
  "min_signed w \<equiv> - (2 ^ (w - 1))"

abbreviation max_signed :: "nat \<Rightarrow> int" where
  "max_signed w \<equiv> 2 ^ (w - 1) - 1"

abbreviation max_unsigned :: "nat \<Rightarrow> int" where
  "max_unsigned w \<equiv> 2 ^ w - 1"

section \<open>Two hexadecimal digits\<close>

text \<open>\<^verbatim>\<open>std::from_chars\<close> with base 16 on the characters of one digit.\<close>

definition hex_value :: "byte \<Rightarrow> nat option" where
  "hex_value b =
     (if 48 \<le> unat b \<and> unat b \<le> 57 then Some (unat b - 48)
      else if 97 \<le> unat b \<and> unat b \<le> 102 then Some (unat b - 87)
      else if 65 \<le> unat b \<and> unat b \<le> 70 then Some (unat b - 55)
      else None)"

definition hex_char :: "nat \<Rightarrow> byte" where
  "hex_char n = (if n < 10 then word_of_nat (48 + n) else word_of_nat (87 + n))"

lemma hex_value_char: "n < 16 \<Longrightarrow> hex_value (hex_char n) = Some n"
  using unat_of_nat8 [of "48 + n"] unat_of_nat8 [of "87 + n"]
  by (auto simp: hex_value_def hex_char_def)

lemma hex_value_bound: "hex_value b = Some n \<Longrightarrow> n < 16"
  by (auto simp: hex_value_def split: if_splits)

end
