(* ===== verification/Pg_Command_Tag.thy ===== *)
theory Pg_Command_Tag
  imports Pg_Charconv
begin

text \<open>
  Command tags: \<^verbatim>\<open>parse_command_complete_tag\<close> of \<^verbatim>\<open>messages.cpp\<close> and the helpers it uses, and the
  line number of an error message, which is read the same way. The output argument
  \<^verbatim>\<open>affected_rows\<close> is part of the result.
\<close>

definition skip_prefix :: "string_view \<Rightarrow> string_view \<Rightarrow> string_view option" where
  "skip_prefix tag pre = (if take (length pre) tag = pre then Some (drop (length pre) tag) else None)"

definition max_uint64 :: int where
  "max_uint64 = 18446744073709551615"

definition parse_affected_rows :: "string_view \<Rightarrow> error_code option \<times> nat option" where
  "parse_affected_rows p =
     (case from_chars 0 max_uint64 p of
        Inl ec \<Rightarrow> (Some ec, None)
      | Inr (num, rest) \<Rightarrow> if rest \<noteq> [] then (Some (Client extra_bytes), None) else (None, Some (nat num)))"

text \<open>The loop that skips the OID of an INSERT tag.\<close>

fun skip_oid :: "string_view \<Rightarrow> string_view option" where
  "skip_oid [] = None"
| "skip_oid (c # p) = (if c = 32 then Some p else skip_oid p)"

text \<open>The keywords of the second branch, in the order they are tried.\<close>

definition count_keywords :: "string_view list" where
  "count_keywords = map of_str [''DELETE'', ''UPDATE'', ''MERGE'', ''SELECT'', ''MOVE'', ''FETCH'', ''COPY'']"

fun skip_any_prefix :: "string_view \<Rightarrow> string_view list \<Rightarrow> string_view option" where
  "skip_any_prefix tag [] = None"
| "skip_any_prefix tag (k # ks) = (case skip_prefix tag k of Some p \<Rightarrow> Some p | None \<Rightarrow> skip_any_prefix tag ks)"

definition parse_command_complete_tag :: "string_view \<Rightarrow> error_code option \<times> nat option" where
  "parse_command_complete_tag tag =
     (case skip_prefix tag (of_str ''INSERT'') of
        Some p \<Rightarrow>
          (case p of
             [] \<Rightarrow> (Some (Client incomplete_message), None)
           | c # p' \<Rightarrow>
               if c \<noteq> 32 then (None, None)
               else (case skip_oid p' of
                       None \<Rightarrow> (Some (Client incomplete_message), None)
                     | Some p'' \<Rightarrow> parse_affected_rows p''))
      | None \<Rightarrow>
          (case skip_any_prefix tag count_keywords of
             None \<Rightarrow> (None, None)
           | Some p \<Rightarrow>
               (case p of
                  [] \<Rightarrow> (Some (Client incomplete_message), None)
                | c # p' \<Rightarrow> if c \<noteq> 32 then (None, None) else parse_affected_rows p')))"

text \<open>\<^verbatim>\<open>error_notice_fields::parsed_line_number\<close>, with the optional string as its argument.\<close>

definition parsed_line_number :: "string_view option \<Rightarrow> nat option" where
  "parsed_line_number line_number =
     (case line_number of
        None \<Rightarrow> None
      | Some s \<Rightarrow>
          (case from_chars 0 max_uint64 s of
             Inl ec \<Rightarrow> None
           | Inr (res, rest) \<Rightarrow> if rest \<noteq> [] then None else Some (nat res)))"

section \<open>What a tag means\<close>

text \<open>A decimal number that fits 64 bits.\<close>

definition counts :: "bytes \<Rightarrow> nat \<Rightarrow> bool" where
  "counts ds n \<longleftrightarrow> list_all is_digit ds \<and> ds \<noteq> [] \<and> digits_value ds = n \<and> int n \<le> max_uint64"

lemma parse_affected_rows_iff: "parse_affected_rows p = (None, Some n) \<longleftrightarrow> counts p n"
proof
  assume "parse_affected_rows p = (None, Some n)"
  then have "from_chars 0 max_uint64 p = Inr (int n, [])"
    by (auto simp: parse_affected_rows_def from_chars_def Let_def split: sum.splits option.splits prod.splits if_splits)
  then have *: "from_chars_digits p = Some (n, [])" "int n \<le> max_uint64"
    by (auto simp: from_chars_def Let_def split: option.splits if_splits)
  obtain ds where "p = ds @ []" "list_all is_digit ds" "ds \<noteq> []" "n = digits_value ds"
    by (rule from_chars_digits_SomeD [OF *(1)])
  then show "counts p n" using *(2) by (simp add: counts_def)
next
  assume c: "counts p n"
  then have "from_chars_digits (p @ []) = Some (n, [])"
    unfolding counts_def by (metis from_chars_digits_append)
  then show "parse_affected_rows p = (None, Some n)"
    using c by (simp add: parse_affected_rows_def from_chars_def counts_def Let_def)
qed

lemma skip_prefix_iff: "skip_prefix tag pre = Some p \<longleftrightarrow> tag = pre @ p"
  by (auto simp: skip_prefix_def) (metis append_take_drop_id)

lemma skip_oid_iff: "skip_oid p = Some q \<longleftrightarrow> (\<exists>oid. p = oid @ 32 # q \<and> 32 \<notin> set oid)"
proof (induction p)
  case (Cons c p)
  then show ?case by (cases "c = 32") (auto simp: Cons_eq_append_conv)
qed simp

lemma skip_any_prefix_SomeD: "skip_any_prefix tag ks = Some p \<Longrightarrow> \<exists>k \<in> set ks. tag = k @ p"
  by (induction ks) (auto simp: skip_prefix_iff split: option.splits)

text \<open>No keyword is the beginning of another one or of INSERT: their first letters or the next differ.\<close>

lemma skip_any_prefix_keyword:
  assumes "k \<in> set count_keywords"
  shows "skip_any_prefix (k @ 32 # p) count_keywords = Some (32 # p)"
    and "skip_prefix (k @ 32 # p) (of_str ''INSERT'') = None"
  using assms by (auto simp: count_keywords_def of_str_def skip_prefix_def)

text \<open>
  A command tag yields a number of affected rows exactly when it is \<^verbatim>\<open>INSERT\<close>, a word for the
  OID and a decimal number that fits 64 bits, separated by single spaces, or one of the other counting
  commands, a space and such a number; the number is then the value of these digits.
\<close>

theorem parse_command_complete_tag_iff:
  "parse_command_complete_tag tag = (None, Some n) \<longleftrightarrow>
     (\<exists>oid ds. tag = of_str ''INSERT'' @ 32 # oid @ 32 # ds \<and> 32 \<notin> set oid \<and> counts ds n) \<or>
     (\<exists>k \<in> set count_keywords. \<exists>ds. tag = k @ 32 # ds \<and> counts ds n)"
  (is "?lhs \<longleftrightarrow> ?insert \<or> ?other")
proof
  assume ?lhs
  show "?insert \<or> ?other"
  proof (cases "skip_prefix tag (of_str ''INSERT'')")
    case (Some p)
    then obtain p' q where "p = 32 # p'" "skip_oid p' = Some q" "counts q n"
      using \<open>?lhs\<close>
      by (auto simp: parse_command_complete_tag_def parse_affected_rows_iff split: list.splits if_splits option.splits)
    then show ?thesis using Some by (auto simp: skip_prefix_iff skip_oid_iff)
  next
    case None
    then obtain p' where "skip_any_prefix tag count_keywords = Some (32 # p')" "counts p' n"
      using \<open>?lhs\<close>
      by (auto simp: parse_command_complete_tag_def parse_affected_rows_iff split: list.splits if_splits option.splits)
    then show ?thesis using skip_any_prefix_SomeD by blast
  qed
next
  assume "?insert \<or> ?other"
  then show ?lhs
  proof
    assume ?insert
    then obtain oid ds where t: "tag = of_str ''INSERT'' @ 32 # oid @ 32 # ds" "32 \<notin> set oid" "counts ds n" by blast
    have "skip_prefix tag (of_str ''INSERT'') = Some (32 # oid @ 32 # ds)" by (simp add: skip_prefix_iff t(1))
    moreover have "skip_oid (oid @ 32 # ds) = Some ds" using t(2) by (auto simp: skip_oid_iff)
    ultimately show ?lhs using t(3) by (simp add: parse_command_complete_tag_def parse_affected_rows_iff)
  next
    assume ?other
    then show ?lhs
      by (auto simp: parse_command_complete_tag_def skip_any_prefix_keyword parse_affected_rows_iff)
  qed
qed

text \<open>
  The line number of an error is recovered: printing a line number that fits \<^verbatim>\<open>size_t\<close> and
  reading it back gives the number.
\<close>

lemma parsed_line_number_print:
  assumes "int n \<le> max_uint64"
  shows "parsed_line_number (Some (to_chars (int n))) = Some n"
  using assms dec.read_print_all [of 0 "int n" max_uint64] by (simp add: parsed_line_number_def)

end
