(* ===== verification/Pg_Types_Base.thy ===== *)
theory Pg_Types_Base
  imports Pg_Charconv Pg_Views
begin

text \<open>
  Parsing and serializing field values: the functions of \<^verbatim>\<open>types/base.hpp\<close> and the traits of
  \<^verbatim>\<open>detail/field_traits_base.hpp\<close> and \<^verbatim>\<open>detail/field_traits_nullable.hpp\<close>. A function that writes an
  output argument takes its old value and returns the error code with the new value, so that what an
  error leaves in the argument is visible. A specialization of a traits class template is a record of
  its static functions. A traits function returns \<open>None\<close> when one of its assertions fails. A template
  over the integer types is a function that takes what it uses of the type. The floating-point types,
  whose text conversion the standard library does, are left out.
\<close>

section \<open>types/base.hpp\<close>

type_synonym 'a outcome = "error_code option \<times> 'a"

abbreviation bad_value :: "error_code option" where
  "bad_value \<equiv> Some (Client protocol_value_error)"

text \<open>The data of a field: empty for a NULL.\<close>

definition fv_data :: "field_view \<Rightarrow> bytes" where
  "fv_data from = (case from of None \<Rightarrow> [] | Some bs \<Rightarrow> bs)"

lemma fv_data_simps [simp]: "fv_data None = []" "fv_data (Some bs) = bs"
  by (simp_all add: fv_data_def)

definition parse_text_to_number ::
    "int \<Rightarrow> int \<Rightarrow> string_view \<Rightarrow> 'a::len word \<Rightarrow> 'a word outcome" where
  "parse_text_to_number lo hi sv to =
     (case from_chars lo hi sv of
        Inr (v, []) \<Rightarrow> (None, word_of_int v)
      | _ \<Rightarrow> if sv \<noteq> [] then (bad_value, to) else (None, to))"

definition parse_text_bool :: "field_view \<Rightarrow> bool \<Rightarrow> bool outcome" where
  "parse_text_bool from to =
     (if fv_data from = of_str ''t'' then (None, True)
      else if fv_data from = of_str ''f'' then (None, False)
      else (bad_value, to))"

definition parse_binary_bool :: "field_view \<Rightarrow> bool \<Rightarrow> bool outcome" where
  "parse_binary_bool from to =
     (case fv_data from of [b] \<Rightarrow> (None, b \<noteq> 0) | _ \<Rightarrow> (bad_value, to))"

text \<open>
  The loop over pairs of hexadecimal digits of \<^verbatim>\<open>parse_text_bytea\<close>; \<^verbatim>\<open>from_chars\<close> with base 16 reads
  the two characters when both are digits.
\<close>

fun hex_pairs :: "bytes \<Rightarrow> bytes \<Rightarrow> bytes outcome" where
  "hex_pairs (a # b # rest) to =
     (case (hex_value a, hex_value b) of
        (Some x, Some y) \<Rightarrow> hex_pairs rest (to @ [word_of_nat (16 * x + y)])
      | _ \<Rightarrow> (bad_value, to))"
| "hex_pairs _ to = (None, to)"

definition parse_text_bytea :: "field_view \<Rightarrow> bytes \<Rightarrow> bytes outcome" where
  "parse_text_bytea from to =
     (let sv = fv_data from
      in if length sv < 2 \<or> sv ! 0 \<noteq> 92 \<or> sv ! 1 \<noteq> 120 then (bad_value, to)
         else if length (drop 2 sv) mod 2 \<noteq> 0 then (bad_value, to)
         else hex_pairs (drop 2 sv) [])"

definition parse_binary_bytea :: "field_view \<Rightarrow> bytes \<Rightarrow> bytes outcome" where
  "parse_binary_bytea from to = (None, fv_data from)"

definition parse_text_char :: "field_view \<Rightarrow> byte \<Rightarrow> byte outcome" where
  "parse_text_char from to = (case fv_data from of [c] \<Rightarrow> (None, c) | _ \<Rightarrow> (bad_value, to))"

definition parse_binary_char :: "field_view \<Rightarrow> byte \<Rightarrow> byte outcome" where
  "parse_binary_char from to = (case fv_data from of [c] \<Rightarrow> (None, c) | _ \<Rightarrow> (bad_value, to))"

definition parse_text_int :: "field_view \<Rightarrow> 'a::len word \<Rightarrow> 'a word outcome" where
  "parse_text_int from (to :: 'a word) =
     parse_text_to_number (min_signed LENGTH('a)) (max_signed LENGTH('a)) (fv_data from) to"

definition parse_binary_int :: "nat \<Rightarrow> (bytes \<Rightarrow> 'a::len word) \<Rightarrow> field_view \<Rightarrow> 'a word \<Rightarrow> 'a word outcome" where
  "parse_binary_int sizeof load from to =
     (if length (fv_data from) \<noteq> sizeof then (bad_value, to) else (None, load (fv_data from)))"

text \<open>The local buffer of \<^verbatim>\<open>serialize_text_int\<close> has 512 characters.\<close>

definition serialize_text_int :: "'a::len word \<Rightarrow> bytes \<Rightarrow> bytes outcome" where
  "serialize_text_int value to =
     (let chars = to_chars (sint value)
      in if length chars > 512 then (Some Value_too_large, to) else (None, to @ chars))"

definition serialize_binary_int :: "nat \<Rightarrow> ('a::len word \<Rightarrow> bytes) \<Rightarrow> 'a word \<Rightarrow> bytes \<Rightarrow> bytes outcome" where
  "serialize_binary_int sizeof store value to =
     (let offset = length to in (None, store_at offset (store value) (to @ replicate sizeof 0)))"

definition parse_text_text :: "field_view \<Rightarrow> bytes \<Rightarrow> bytes outcome" where
  "parse_text_text from to = (None, fv_data from)"

definition parse_binary_text :: "field_view \<Rightarrow> bytes \<Rightarrow> bytes outcome" where
  "parse_binary_text from to = (None, fv_data from)"

definition serialize_text_text :: "string_view \<Rightarrow> bytes \<Rightarrow> bytes outcome" where
  "serialize_text_text value to = (None, to @ value)"

definition serialize_binary_text :: "string_view \<Rightarrow> bytes \<Rightarrow> bytes outcome" where
  "serialize_binary_text value to = (None, to @ value)"

definition parse_text_oid :: "field_view \<Rightarrow> int32 \<Rightarrow> int32 outcome" where
  "parse_text_oid from to = parse_text_to_number 0 (max_unsigned 32) (fv_data from) to"

definition parse_binary_oid :: "field_view \<Rightarrow> int32 \<Rightarrow> int32 outcome" where
  "parse_binary_oid from to =
     (if length (fv_data from) \<noteq> 4 then (bad_value, to) else (None, load_big_s32 (fv_data from)))"

section \<open>Traits\<close>

definition bool_oid :: int32 where "bool_oid = 16"
definition bytea_oid :: int32 where "bytea_oid = 17"
definition char_oid :: int32 where "char_oid = 18"
definition name_oid :: int32 where "name_oid = 19"
definition int8_oid :: int32 where "int8_oid = 20"
definition int2_oid :: int32 where "int2_oid = 21"
definition int4_oid :: int32 where "int4_oid = 23"
definition text_oid :: int32 where "text_oid = 25"
definition oid_oid :: int32 where "oid_oid = 26"
definition bpchar_oid :: int32 where "bpchar_oid = 1042"
definition varchar_oid :: int32 where "varchar_oid = 1043"

lemmas oid_defs = bool_oid_def bytea_oid_def char_oid_def name_oid_def int8_oid_def int2_oid_def
  int4_oid_def text_oid_def oid_oid_def bpchar_oid_def varchar_oid_def

definition is_string_oid :: "int32 \<Rightarrow> bool" where
  "is_string_oid type_oid \<longleftrightarrow> type_oid = text_oid \<or> type_oid = varchar_oid \<or> type_oid = name_oid \<or>
     type_oid = bpchar_oid"

record 'a parse_field_traits =
  ft_is_compatible :: "int32 \<Rightarrow> error_code option"
  ft_parse_text :: "field_view \<Rightarrow> int32 \<Rightarrow> 'a \<Rightarrow> 'a outcome option"
  ft_parse_binary :: "field_view \<Rightarrow> int32 \<Rightarrow> 'a \<Rightarrow> 'a outcome option"

text \<open>
  The shape the specializations for a type with one family of OIDs share: the check of the OID, the
  check for NULL, the assertion on the OID, and the conversion.
\<close>

definition compatible_if :: "bool \<Rightarrow> error_code option" where
  "compatible_if ok = (if ok then None else Some (Client incompatible_field_type))"

definition parse_asserted ::
    "(int32 \<Rightarrow> bool) \<Rightarrow> (field_view \<Rightarrow> 'a \<Rightarrow> 'a outcome) \<Rightarrow> field_view \<Rightarrow> int32 \<Rightarrow> 'a \<Rightarrow> 'a outcome option"
where
  "parse_asserted ok parse from type_oid to =
     (if from = None then Some (Some (Client unexpected_null), to)
      else if ok type_oid then Some (parse from to) else None)"

definition bool_traits :: "bool parse_field_traits" where
  "bool_traits =
     \<lparr>ft_is_compatible = (\<lambda>type_oid. compatible_if (type_oid = bool_oid)),
      ft_parse_text = parse_asserted (\<lambda>type_oid. type_oid = bool_oid) parse_text_bool,
      ft_parse_binary = parse_asserted (\<lambda>type_oid. type_oid = bool_oid) parse_binary_bool\<rparr>"

definition bytea_traits :: "bytes parse_field_traits" where
  "bytea_traits =
     \<lparr>ft_is_compatible = (\<lambda>type_oid. compatible_if (type_oid = bytea_oid)),
      ft_parse_text = parse_asserted (\<lambda>type_oid. type_oid = bytea_oid) parse_text_bytea,
      ft_parse_binary = parse_asserted (\<lambda>type_oid. type_oid = bytea_oid) parse_binary_bytea\<rparr>"

definition char_traits :: "byte parse_field_traits" where
  "char_traits =
     \<lparr>ft_is_compatible = (\<lambda>type_oid. compatible_if (type_oid = char_oid)),
      ft_parse_text = parse_asserted (\<lambda>type_oid. type_oid = char_oid) parse_text_char,
      ft_parse_binary = parse_asserted (\<lambda>type_oid. type_oid = char_oid) parse_binary_char\<rparr>"

definition int16_traits :: "int16 parse_field_traits" where
  "int16_traits =
     \<lparr>ft_is_compatible = (\<lambda>type_oid. compatible_if (type_oid = int2_oid)),
      ft_parse_text = parse_asserted (\<lambda>type_oid. type_oid = int2_oid) parse_text_int,
      ft_parse_binary = parse_asserted (\<lambda>type_oid. type_oid = int2_oid) (parse_binary_int 2 load_big_s16)\<rparr>"

text \<open>
  Widening: a local variable of the narrower type is parsed and assigned to the output, whatever the
  error code.
\<close>

definition widen :: "(field_view \<Rightarrow> 'a::len word \<Rightarrow> 'a word outcome) \<Rightarrow> field_view \<Rightarrow> 'b::len word \<Rightarrow> 'b word outcome" where
  "widen parse from to = (let (ec, value) = parse from 0 in (ec, scast value))"

definition int32_parse ::
    "(field_view \<Rightarrow> int16 \<Rightarrow> int16 outcome) \<Rightarrow> (field_view \<Rightarrow> int32 \<Rightarrow> int32 outcome) \<Rightarrow>
     field_view \<Rightarrow> int32 \<Rightarrow> int32 \<Rightarrow> int32 outcome option" where
  "int32_parse parse2 parse4 from type_oid to =
     (if from = None then Some (Some (Client unexpected_null), to)
      else if type_oid = int2_oid then Some (widen parse2 from to)
      else if type_oid = int4_oid then Some (parse4 from to)
      else None)"

definition int32_traits :: "int32 parse_field_traits" where
  "int32_traits =
     \<lparr>ft_is_compatible = (\<lambda>type_oid. compatible_if (type_oid = int4_oid \<or> type_oid = int2_oid)),
      ft_parse_text = int32_parse parse_text_int parse_text_int,
      ft_parse_binary = int32_parse (parse_binary_int 2 load_big_s16) (parse_binary_int 4 load_big_s32)\<rparr>"

definition int64_parse ::
    "(field_view \<Rightarrow> int16 \<Rightarrow> int16 outcome) \<Rightarrow> (field_view \<Rightarrow> int32 \<Rightarrow> int32 outcome) \<Rightarrow>
     (field_view \<Rightarrow> uint64 \<Rightarrow> uint64 outcome) \<Rightarrow> field_view \<Rightarrow> int32 \<Rightarrow> uint64 \<Rightarrow> uint64 outcome option"
where
  "int64_parse parse2 parse4 parse8 from type_oid to =
     (if from = None then Some (Some (Client unexpected_null), to)
      else if type_oid = int2_oid then Some (widen parse2 from to)
      else if type_oid = int4_oid then Some (widen parse4 from to)
      else if type_oid = int8_oid then Some (parse8 from to)
      else None)"

definition int64_traits :: "uint64 parse_field_traits" where
  "int64_traits =
     \<lparr>ft_is_compatible = (\<lambda>type_oid.
        compatible_if (type_oid = int8_oid \<or> type_oid = int4_oid \<or> type_oid = int2_oid)),
      ft_parse_text = int64_parse parse_text_int parse_text_int parse_text_int,
      ft_parse_binary = int64_parse (parse_binary_int 2 load_big_s16) (parse_binary_int 4 load_big_s32)
        (parse_binary_int 8 load_big_s64)\<rparr>"

definition string_traits :: "bytes parse_field_traits" where
  "string_traits =
     \<lparr>ft_is_compatible = (\<lambda>type_oid. compatible_if (is_string_oid type_oid)),
      ft_parse_text = parse_asserted is_string_oid parse_text_text,
      ft_parse_binary = parse_asserted is_string_oid parse_binary_text\<rparr>"

definition oid_traits :: "int32 parse_field_traits" where
  "oid_traits =
     \<lparr>ft_is_compatible = (\<lambda>type_oid. compatible_if (type_oid = oid_oid)),
      ft_parse_text = parse_asserted (\<lambda>type_oid. type_oid = oid_oid) parse_text_oid,
      ft_parse_binary = parse_asserted (\<lambda>type_oid. type_oid = oid_oid) parse_binary_oid\<rparr>"

text \<open>
  \<^verbatim>\<open>parse_field_traits<std::optional<T>>\<close>: \<open>fresh\<close> is the value-initialized \<^verbatim>\<open>T\<close> that \<^verbatim>\<open>to.emplace()\<close>
  puts in the optional.
\<close>

definition optional_parse ::
    "'a \<Rightarrow> (field_view \<Rightarrow> int32 \<Rightarrow> 'a \<Rightarrow> 'a outcome option) \<Rightarrow> field_view \<Rightarrow> int32 \<Rightarrow> 'a option \<Rightarrow>
     'a option outcome option" where
  "optional_parse fresh parse from type_oid to =
     (if from = None then Some (None, None)
      else map_option (map_prod id Some) (parse from type_oid fresh))"

definition optional_traits :: "'a \<Rightarrow> 'a parse_field_traits \<Rightarrow> 'a option parse_field_traits" where
  "optional_traits fresh tr =
     \<lparr>ft_is_compatible = ft_is_compatible tr,
      ft_parse_text = optional_parse fresh (ft_parse_text tr),
      ft_parse_binary = optional_parse fresh (ft_parse_binary tr)\<rparr>"

record 'a serialize_field_traits =
  st_oid :: int32
  st_serialize_text :: "'a \<Rightarrow> bytes \<Rightarrow> bytes outcome"
  st_serialize_binary :: "'a \<Rightarrow> bytes \<Rightarrow> bytes outcome"

definition int16_serialize :: "int16 serialize_field_traits" where
  "int16_serialize = \<lparr>st_oid = int2_oid, st_serialize_text = serialize_text_int,
     st_serialize_binary = serialize_binary_int 2 store_big_s16\<rparr>"

definition int32_serialize :: "int32 serialize_field_traits" where
  "int32_serialize = \<lparr>st_oid = int4_oid, st_serialize_text = serialize_text_int,
     st_serialize_binary = serialize_binary_int 4 store_big_s32\<rparr>"

definition int64_serialize :: "uint64 serialize_field_traits" where
  "int64_serialize = \<lparr>st_oid = int8_oid, st_serialize_text = serialize_text_int,
     st_serialize_binary = serialize_binary_int 8 store_big_s64\<rparr>"

definition string_serialize :: "bytes serialize_field_traits" where
  "string_serialize = \<lparr>st_oid = text_oid, st_serialize_text = serialize_text_text,
     st_serialize_binary = serialize_binary_text\<rparr>"

section \<open>The contract of the parse traits\<close>

text \<open>
  What the row parser relies on: once \<^verbatim>\<open>is_compatible\<close> has accepted an OID, parsing a field of this
  type with either format returns, whatever the field holds. A type that has no NULL reports it and
  leaves the output alone.
\<close>

definition total_traits :: "'a parse_field_traits \<Rightarrow> bool" where
  "total_traits tr \<longleftrightarrow> (\<forall>type_oid from to. ft_is_compatible tr type_oid = None \<longrightarrow>
     ft_parse_text tr from type_oid to \<noteq> None \<and> ft_parse_binary tr from type_oid to \<noteq> None)"

definition rejects_null :: "'a parse_field_traits \<Rightarrow> bool" where
  "rejects_null tr \<longleftrightarrow> (\<forall>type_oid to.
     ft_parse_text tr None type_oid to = Some (Some (Client unexpected_null), to) \<and>
     ft_parse_binary tr None type_oid to = Some (Some (Client unexpected_null), to))"

locale field_traits =
  fixes tr :: "'a parse_field_traits" and fresh :: 'a
  assumes total: "total_traits tr" and nulls: "rejects_null tr"
begin

lemma optional_total: "total_traits (optional_traits fresh tr)"
  using total by (simp add: total_traits_def optional_traits_def optional_parse_def)

text \<open>The optional of a type differs from the type on NULL only.\<close>

lemma optional_some:
  "ft_parse_text (optional_traits fresh tr) (Some bs) type_oid to =
     map_option (map_prod id Some) (ft_parse_text tr (Some bs) type_oid fresh)"
  "ft_parse_binary (optional_traits fresh tr) (Some bs) type_oid to =
     map_option (map_prod id Some) (ft_parse_binary tr (Some bs) type_oid fresh)"
  by (simp_all add: optional_traits_def optional_parse_def)

end

lemma compatible_if_None [simp]: "compatible_if ok = None \<longleftrightarrow> ok"
  by (simp add: compatible_if_def)

lemma parse_asserted_simps [simp]:
  "parse_asserted ok parse None type_oid to = Some (Some (Client unexpected_null), to)"
  "parse_asserted ok parse (Some bs) type_oid to = (if ok type_oid then Some (parse (Some bs) to) else None)"
  "parse_asserted ok parse from type_oid to = None \<longleftrightarrow> from \<noteq> None \<and> \<not> ok type_oid"
  by (simp_all add: parse_asserted_def)

lemmas traits_defs = bool_traits_def bytea_traits_def char_traits_def int16_traits_def int32_traits_def
  int64_traits_def string_traits_def oid_traits_def

interpretation bool_field: field_traits bool_traits False
  by unfold_locales (auto simp: total_traits_def rejects_null_def traits_defs)

interpretation bytea_field: field_traits bytea_traits "[]"
  by unfold_locales (auto simp: total_traits_def rejects_null_def traits_defs)

interpretation char_field: field_traits char_traits 0
  by unfold_locales (auto simp: total_traits_def rejects_null_def traits_defs)

interpretation int16_field: field_traits int16_traits 0
  by unfold_locales (auto simp: total_traits_def rejects_null_def traits_defs)

interpretation int32_field: field_traits int32_traits 0
  by unfold_locales (auto simp: total_traits_def rejects_null_def traits_defs int32_parse_def)

interpretation int64_field: field_traits int64_traits 0
  by unfold_locales (auto simp: total_traits_def rejects_null_def traits_defs int64_parse_def)

interpretation string_field: field_traits string_traits "[]"
  by unfold_locales (auto simp: total_traits_def rejects_null_def traits_defs)

interpretation oid_field: field_traits oid_traits 0
  by unfold_locales (auto simp: total_traits_def rejects_null_def traits_defs)


end
