(* ===== verification/Pg_Types_Facts.thy ===== *)
theory Pg_Types_Facts
  imports Pg_Types_Base Pg_Request_Facts
begin

text \<open>
  Values survive a round trip: what a serializer writes for a parameter is what the parser of the same
  type reads back, in both formats. The locale \<open>field_codec\<close> pairs the two traits of a type; its
  interpretations are the four types that can be parameters. The narrower integers widen with their
  sign, and the text form of a byte string is characterized.
\<close>

section \<open>Integers\<close>

lemma parse_number_to_chars:
  assumes "lo \<le> v" and "v \<le> hi"
  shows "parse_text_to_number lo hi (to_chars v) to = (None, word_of_int v)"
  using dec.read_print_all [OF assms] by (simp add: parse_text_to_number_def)

lemma sint_range:
  fixes w :: "'a::len word"
  shows "min_signed LENGTH('a) \<le> sint w" and "sint w \<le> max_signed LENGTH('a)"
  using sint_ge [of w] sint_lt [of w] by simp_all

lemma parse_text_int_to_chars: "parse_text_int (Some (to_chars (sint w))) to = (None, w)"
  using parse_number_to_chars [OF sint_range, of w to] by (simp add: parse_text_int_def)

lemma digits_of_length:
  assumes "n < 10 ^ k" and "0 < k"
  shows "length (digits_of n) \<le> k"
  using assms
proof (induction k arbitrary: n)
  case (Suc k)
  show ?case
  proof (cases "n < 10")
    case True
    then show ?thesis by (subst digits_of.simps) simp
  next
    case False
    then have "0 < k" using Suc.prems(1) by (cases k) simp_all
    moreover have "n div 10 < 10 ^ k" using Suc.prems(1) by (simp add: less_mult_imp_div_less mult.commute)
    ultimately have "length (digits_of (n div 10)) \<le> k" using Suc.IH by simp
    then show ?thesis using False by (subst digits_of.simps) simp
  qed
qed simp

lemma to_chars_length:
  assumes "\<bar>v\<bar> < 10 ^ k" and "0 < k"
  shows "length (to_chars v) \<le> Suc k"
proof -
  have "nat \<bar>v\<bar> < 10 ^ k"
    using assms(1) by (metis abs_ge_zero nat_less_iff of_nat_numeral of_nat_power)
  then show ?thesis
    using digits_of_length [of "nat \<bar>v\<bar>" k] assms(2)
    by (auto simp: to_chars_def)
qed

text \<open>The comment of \<^verbatim>\<open>serialize_text_int\<close> that its buffer is always big enough holds for every width up to 64.\<close>

lemma serialize_text_int_ok:
  fixes w :: "'a::len word"
  assumes "LENGTH('a) \<le> 64"
  shows "serialize_text_int w to = (None, to @ to_chars (sint w))"
proof -
  have "(2::int) ^ (LENGTH('a) - 1) \<le> 2 ^ 63" using assms by (intro power_increasing) simp_all
  then have "\<bar>sint w\<bar> < 10 ^ 20" using sint_ge [of w] sint_lt [of w] by simp
  then have "length (to_chars (sint w)) \<le> 21" using to_chars_length [of "sint w" 20] by simp
  then show ?thesis by (simp add: serialize_text_int_def Let_def)
qed

lemma serialize_binary_int_ok:
  "length (store w) = n \<Longrightarrow> serialize_binary_int n store w to = (None, to @ store w)"
  using store_at_exact [of "replicate n 0" "store w" to "[]"] by (simp add: serialize_binary_int_def)

section \<open>Round trips of parameters\<close>

definition parameter_ref_of :: "'a serialize_field_traits \<Rightarrow> 'a \<Rightarrow> parameter_ref" where
  "parameter_ref_of st value = \<lparr>pr_oid = st_oid st, pr_serialize_text = st_serialize_text st value,
     pr_serialize_binary = st_serialize_binary st value\<rparr>"

definition serialize_as :: "'a serialize_field_traits \<Rightarrow> format_code \<Rightarrow> 'a \<Rightarrow> bytes \<Rightarrow> bytes outcome" where
  "serialize_as st fmt = (if fmt = format_binary then st_serialize_binary st else st_serialize_text st)"

definition parse_as ::
    "'a parse_field_traits \<Rightarrow> format_code \<Rightarrow> field_view \<Rightarrow> int32 \<Rightarrow> 'a \<Rightarrow> 'a outcome option" where
  "parse_as tr fmt = (if fmt = format_binary then ft_parse_binary tr else ft_parse_text tr)"

text \<open>
  A type with both traits: what is appended to the buffer does not depend on the buffer, and it is
  read back by the parser under the OID the serializer declares.
\<close>

locale field_codec = field_traits tr fresh
  for tr :: "'a parse_field_traits" and fresh +
  fixes st :: "'a serialize_field_traits"
    and wire :: "format_code \<Rightarrow> 'a \<Rightarrow> bytes"
  assumes same_oid: "ft_is_compatible tr (st_oid st) = None"
    and serializes: "serialize_as st fmt v buf = (None, buf @ wire fmt v)"
    and parses: "parse_as tr fmt (Some (wire fmt v)) (st_oid st) to = Some (None, v)"
begin

lemma encodes: "param_encodes fmt (parameter_ref_of st v) (wire fmt v)"
  using serializes [of fmt v]
  by (cases "fmt = format_binary") (simp_all add: param_encodes_def parameter_ref_of_def serialize_as_def)

lemma wire_inject: "wire fmt v = wire fmt w \<Longrightarrow> v = w"
  using parses [of fmt v fresh] parses [of fmt w fresh] by (metis option.inject prod.inject)

text \<open>A parameter bound in a request and a column that returns the bytes of the parameter.\<close>

lemma echo:
  "\<exists>bs. param_encodes fmt (parameter_ref_of st v) bs \<and>
     parse_as tr fmt (Some bs) (pr_oid (parameter_ref_of st v)) to = Some (None, v)"
  using encodes [of fmt v] parses [of fmt v to] by (auto simp: parameter_ref_of_def)

end

text \<open>What the signed integers put on the wire.\<close>

definition int_wire :: "('a::len word \<Rightarrow> bytes) \<Rightarrow> format_code \<Rightarrow> 'a word \<Rightarrow> bytes" where
  "int_wire store fmt w = (if fmt = format_binary then store w else to_chars (sint w))"

lemmas codec_defs = serialize_as_def parse_as_def int_wire_def serialize_text_int_ok
  serialize_binary_int_ok parse_text_int_to_chars parse_binary_int_def oid_defs traits_defs

interpretation int16_codec: field_codec int16_traits 0 int16_serialize "int_wire store_big_s16"
  by unfold_locales (simp_all add: codec_defs int16_serialize_def s16.load_store)

interpretation int32_codec: field_codec int32_traits 0 int32_serialize "int_wire store_big_s32"
  by unfold_locales (simp_all add: codec_defs int32_serialize_def int32_parse_def s32.load_store)

interpretation int64_codec: field_codec int64_traits 0 int64_serialize "int_wire store_big_s64"
  by unfold_locales (simp_all add: codec_defs int64_serialize_def int64_parse_def s64.load_store)

interpretation string_codec: field_codec string_traits "[]" string_serialize "\<lambda>fmt v. v"
  by unfold_locales (simp_all add: codec_defs string_serialize_def is_string_oid_def serialize_text_text_def
      serialize_binary_text_def parse_text_text_def parse_binary_text_def)

text \<open>
  C31. A value of a parameter type, serialized by the parameter reference of a request in either format,
  is read back unchanged from a field with the same bytes and the OID the request declares: for the
  three integer types and for strings.
\<close>

theorem parameter_field_roundtrip:
  "(\<exists>bs. param_encodes fmt (parameter_ref_of int16_serialize v2) bs \<and>
      parse_as int16_traits fmt (Some bs) (pr_oid (parameter_ref_of int16_serialize v2)) to2 = Some (None, v2)) \<and>
   (\<exists>bs. param_encodes fmt (parameter_ref_of int32_serialize v4) bs \<and>
      parse_as int32_traits fmt (Some bs) (pr_oid (parameter_ref_of int32_serialize v4)) to4 = Some (None, v4)) \<and>
   (\<exists>bs. param_encodes fmt (parameter_ref_of int64_serialize v8) bs \<and>
      parse_as int64_traits fmt (Some bs) (pr_oid (parameter_ref_of int64_serialize v8)) to8 = Some (None, v8)) \<and>
   (\<exists>bs. param_encodes fmt (parameter_ref_of string_serialize s) bs \<and>
      parse_as string_traits fmt (Some bs) (pr_oid (parameter_ref_of string_serialize s)) t = Some (None, s))"
  by (intro conjI int16_codec.echo int32_codec.echo int64_codec.echo string_codec.echo)

section \<open>Widening\<close>

lemma widen_to_chars:
  fixes w :: "'a::len word"
  shows "widen (parse_text_int :: _ \<Rightarrow> 'a word \<Rightarrow> _) (Some (to_chars (sint w))) to = (None, scast w)"
  by (simp add: widen_def parse_text_int_to_chars)

lemma widen_load:
  assumes "length (store w) = n" and "load (store w) = w"
  shows "widen (parse_binary_int n load) (Some (store w)) to = (None, scast w)"
  using assms by (simp add: widen_def parse_binary_int_def)

lemma sint_scast:
  fixes w :: "'a::len word"
  assumes "LENGTH('a) \<le> LENGTH('b)"
  shows "sint (scast w :: 'b::len word) = sint w"
proof -
  have "(2::int) ^ (LENGTH('a) - 1) \<le> 2 ^ (LENGTH('b) - 1)"
    using assms by (intro power_increasing) simp_all
  then have "signed_take_bit (LENGTH('b) - 1) (sint w) = sint w"
    using sint_ge [of w] sint_lt [of w] by (intro signed_take_bit_int_eq_self) linarith+
  then show ?thesis by (simp only: scast_eq sint_sbintrunc')
qed

text \<open>
  An INT2 or INT4 column parsed into a wider integer gives the same signed number, in both formats.
\<close>

theorem integer_widening:
  "(\<exists>w. ft_parse_text int32_traits (Some (to_chars (sint v2))) int2_oid to4 = Some (None, w) \<and>
      ft_parse_binary int32_traits (Some (store_big_s16 v2)) int2_oid to4 = Some (None, w) \<and> sint w = sint v2) \<and>
   (\<exists>w. ft_parse_text int64_traits (Some (to_chars (sint v2))) int2_oid to8 = Some (None, w) \<and>
      ft_parse_binary int64_traits (Some (store_big_s16 v2)) int2_oid to8 = Some (None, w) \<and> sint w = sint v2) \<and>
   (\<exists>w. ft_parse_text int64_traits (Some (to_chars (sint v4))) int4_oid to8 = Some (None, w) \<and>
      ft_parse_binary int64_traits (Some (store_big_s32 v4)) int4_oid to8 = Some (None, w) \<and> sint w = sint v4)"
  by (simp add: traits_defs int32_parse_def int64_parse_def oid_defs widen_to_chars sint_scast
      widen_load [where store = store_big_s16] widen_load [where store = store_big_s32]
      s16.load_store s32.load_store)

section \<open>Byte strings\<close>

definition hex_lower :: "byte \<Rightarrow> byte" where
  "hex_lower b = (if 65 \<le> unat b \<and> unat b \<le> 70 then b + 32 else b)"

text \<open>The text form PostgreSQL documents for \<^verbatim>\<open>bytea\<close>: a backslash, an x, and two digits per byte.\<close>

definition hex_byte :: "byte \<Rightarrow> bytes" where
  "hex_byte b = [hex_char (unat b div 16), hex_char (unat b mod 16)]"

definition bytea_text :: "bytes \<Rightarrow> bytes" where
  "bytea_text v = [92, 120] @ concat (map hex_byte v)"

lemma unat_byte_lt: "unat (b :: byte) < 256"
  using unsigned_less [of b] by simp

lemma hex_value_iff: "hex_value b = Some n \<longleftrightarrow> n < 16 \<and> hex_lower b = hex_char n"
proof
  assume "hex_value b = Some n"
  then have n: "n < 16" by (rule hex_value_bound)
  moreover have "unat (b + 32) = unat b + 32" if "unat b \<le> 70"
    using that by (simp add: unat_word_ariths)
  ultimately have "unat (hex_lower b) = unat (hex_char n)"
    using \<open>hex_value b = Some n\<close> unat_of_nat8 [of "48 + n"] unat_of_nat8 [of "87 + n"]
    by (auto simp: hex_value_def hex_lower_def hex_char_def split: if_splits)
  with n show "n < 16 \<and> hex_lower b = hex_char n" by (simp add: word_unat_eq_iff)
next
  assume a: "n < 16 \<and> hex_lower b = hex_char n"
  have low: "hex_value (hex_lower b) = hex_value b"
  proof (cases "65 \<le> unat b \<and> unat b \<le> 70")
    case True
    then have "unat (b + 32) = unat b + 32" by (simp add: unat_word_ariths)
    with True show ?thesis by (simp add: hex_value_def hex_lower_def)
  qed (auto simp: hex_lower_def)
  then show "hex_value b = Some n" using a hex_value_char [of n] by simp
qed

lemma hex_pair_iff:
  "(\<exists>x y. hex_value a = Some x \<and> hex_value b = Some y \<and> c = (word_of_nat (16 * x + y) :: byte)) \<longleftrightarrow>
   [hex_lower a, hex_lower b] = hex_byte c"
proof
  assume "\<exists>x y. hex_value a = Some x \<and> hex_value b = Some y \<and> c = (word_of_nat (16 * x + y) :: byte)"
  then obtain x y where xy: "x < 16" "hex_lower a = hex_char x" "y < 16" "hex_lower b = hex_char y"
      "c = word_of_nat (16 * x + y)"
    by (auto simp: hex_value_iff)
  moreover have "unat c = 16 * x + y" using xy(1,3) unat_of_nat8 [of "16 * x + y"] xy(5) by simp
  ultimately show "[hex_lower a, hex_lower b] = hex_byte c" by (simp add: hex_byte_def)
next
  assume "[hex_lower a, hex_lower b] = hex_byte c"
  then have "hex_value a = Some (unat c div 16)" "hex_value b = Some (unat c mod 16)"
    using unat_byte_lt [of c] by (auto simp: hex_byte_def hex_value_iff)
  moreover have "c = word_of_nat (16 * (unat c div 16) + unat c mod 16)"
    by (simp add: word_unat_eq_iff unat_of_nat8)
  ultimately show "\<exists>x y. hex_value a = Some x \<and> hex_value b = Some y \<and> c = (word_of_nat (16 * x + y) :: byte)"
    by blast
qed

lemma hex_pairs_iff:
  "length h mod 2 = 0 \<Longrightarrow> hex_pairs h to = (None, v) \<longleftrightarrow>
     (\<exists>w. v = to @ w \<and> map hex_lower h = concat (map hex_byte w))"
proof (induction h to rule: hex_pairs.induct)
  case (1 a b rest to)
  have split: "(\<exists>w. v = to @ w \<and> map hex_lower (a # b # rest) = concat (map hex_byte w)) \<longleftrightarrow>
      (\<exists>c. [hex_lower a, hex_lower b] = hex_byte c \<and>
        (\<exists>w. v = (to @ [c]) @ w \<and> map hex_lower rest = concat (map hex_byte w)))" (is "?l \<longleftrightarrow> ?r")
  proof
    assume ?l
    then obtain w where w: "v = to @ w" "map hex_lower (a # b # rest) = concat (map hex_byte w)" by blast
    then obtain c w' where "w = c # w'" by (cases w) auto
    with w show ?r by (auto simp: hex_byte_def)
  next
    assume ?r
    then obtain c w where "[hex_lower a, hex_lower b] = hex_byte c" "v = to @ c # w"
      "map hex_lower rest = concat (map hex_byte w)" by auto
    then show ?l by (intro exI [of _ "c # w"]) (auto simp: hex_byte_def)
  qed
  show ?case
  proof (cases "\<exists>x y. hex_value a = Some x \<and> hex_value b = Some y")
    case True
    then obtain x y where xy: "hex_value a = Some x" "hex_value b = Some y" by blast
    then have "[hex_lower a, hex_lower b] = hex_byte c \<longleftrightarrow> c = word_of_nat (16 * x + y)" for c
      using hex_pair_iff [of a b c] by auto
    with "1.IH" [OF refl xy] "1.prems" show ?thesis unfolding split by (simp add: xy)
  next
    case False
    then have "[hex_lower a, hex_lower b] \<noteq> hex_byte c" for c using hex_pair_iff [of a b c] by blast
    with False show ?thesis unfolding split by (auto split: option.splits)
  qed
qed (auto simp: hex_byte_def)

text \<open>
  The text of a byte string parses exactly when it is, up to the case of the hexadecimal digits,
  the documented text of some byte string, and that is the result.
\<close>

theorem parse_text_bytea_iff:
  "parse_text_bytea (Some s) to = (None, v) \<longleftrightarrow> map hex_lower s = bytea_text v"
proof -
  have pre: "hex_lower x = 92 \<longleftrightarrow> x = 92" "hex_lower x = 120 \<longleftrightarrow> x = 120" for x
    by (auto simp: hex_lower_def word_unat_eq_iff unat_word_ariths)
  have even: "length (concat (map hex_byte v)) mod 2 = 0"
    by (induction v) (simp_all add: hex_byte_def)
  show ?thesis
  proof (cases "\<exists>h. s = 92 # 120 # h")
    case True
    then obtain h where s: "s = 92 # 120 # h" by blast
    have "length h mod 2 = 0" if "map hex_lower h = concat (map hex_byte v)"
      using even that by (metis length_map)
    then show ?thesis
      using hex_pairs_iff [of h "[]" v] pre
      by (auto simp: s parse_text_bytea_def bytea_text_def Let_def)
  next
    case False
    then have "length s < 2 \<or> s ! 0 \<noteq> 92 \<or> s ! 1 \<noteq> 120"
      by (cases s; cases "tl s") auto
    then have "parse_text_bytea (Some s) to = (bad_value, to)"
      by (simp add: parse_text_bytea_def)
    moreover have "map hex_lower s \<noteq> bytea_text v"
      using False by (auto simp: bytea_text_def pre map_eq_Cons_conv)
    ultimately show ?thesis by simp
  qed
qed

text \<open>
  An empty text field parses as a number without an error, and the output keeps the value it had,
  instead of being rejected like every other text that is not a number.
\<close>

theorem empty_text_number_accepted:
  "ft_parse_text int16_traits (Some []) int2_oid v2 = Some (None, v2) \<and>
   ft_parse_text int32_traits (Some []) int4_oid v4 = Some (None, v4) \<and>
   ft_parse_text int64_traits (Some []) int8_oid v8 = Some (None, v8) \<and>
   ft_parse_text oid_traits (Some []) oid_oid v4 = Some (None, v4) \<and>
   ft_parse_binary int32_traits (Some []) int4_oid v4 = Some (bad_value, v4)"
  by (simp add: traits_defs int32_parse_def int64_parse_def oid_defs parse_text_int_def parse_text_oid_def
      parse_text_to_number_def from_chars_def from_chars_digits_def parse_binary_int_def Let_def)

end
