(* ===== verification/Pg_Responses.thy ===== *)
theory Pg_Responses
  imports Pg_Conversation Pg_Command_Tag
begin

text \<open>
  Response handlers: the setup functions and the handlers of \<^verbatim>\<open>responses.cpp\<close> and \<^verbatim>\<open>responses/check.hpp\<close>
  that keep no rows, the helpers of \<^verbatim>\<open>responses/detail/response_utils.hpp\<close>, the composite handler
  of \<^verbatim>\<open>responses/response.hpp\<close> and \<^verbatim>\<open>setup_request\<close> of \<^verbatim>\<open>check_request.hpp\<close>. A handler has a
  state and three operations; the locale \<open>response_handler\<close> is the contract they share. An operation
  returns a fault where the code violates an assertion, throws or leaves the bounds of an array.
\<close>

section \<open>Errors and command information\<close>

datatype fault =
    Assertion_failed
  | Out_of_range_thrown
  | Past_the_end

type_synonym 'a checked = "fault + 'a"

record extended_error =
  ee_code :: "error_code option"
  ee_diag :: bytes

definition no_error :: extended_error where
  "no_error = \<lparr>ee_code = None, ee_diag = []\<rparr>"

definition value_or :: "'a option \<Rightarrow> 'a \<Rightarrow> 'a" where
  "value_or x d = (case x of None \<Rightarrow> d | Some v \<Rightarrow> v)"

definition diagnostics_assign :: "error_notice_fields \<Rightarrow> bytes" where
  "diagnostics_assign err =
     value_or (enf_severity err) (of_str ''<Server error with unknown severity>'') @ of_str '': '' @
     value_or (enf_sqlstate err) (of_str ''<unknown SQLSTATE>'') @ of_str '': '' @
     value_or (enf_message err) (of_str ''<unknown error>'')"

definition store_error :: "error_notice_fields \<Rightarrow> extended_error" where
  "store_error err =
     \<lparr>ee_code = parse_sqlstate (value_or (enf_sqlstate err) []), ee_diag = diagnostics_assign err\<rparr>"

definition maybe_store_error :: "error_notice_fields \<Rightarrow> extended_error \<Rightarrow> extended_error" where
  "maybe_store_error err to = (if ee_code to = None then store_error err else to)"

definition maybe_store_error_of :: "any_request_message \<Rightarrow> extended_error \<Rightarrow> extended_error" where
  "maybe_store_error_of msg to =
     (case msg of Rm_error_response err \<Rightarrow> maybe_store_error err to | _ \<Rightarrow> to)"

record command_info =
  ci_command_complete_tag :: bytes
  ci_affected_rows :: "nat option"
  ci_portal_suspended :: bool

definition reset_info :: command_info where
  "reset_info = \<lparr>ci_command_complete_tag = [], ci_affected_rows = None, ci_portal_suspended = False\<rparr>"

text \<open>The error of the tag's parser is ignored.\<close>

definition from_command_complete :: "string_view \<Rightarrow> command_info \<Rightarrow> command_info" where
  "from_command_complete tag obj =
     obj\<lparr>ci_command_complete_tag := tag, ci_affected_rows := snd (parse_command_complete_tag tag)\<rparr>"

section \<open>Setup\<close>

text \<open>
  A \<^verbatim>\<open>handler_setup_result\<close> is an error code or the offset of the first message the handler does not
  take. An iterator is the list of the messages from it to the end.
\<close>

type_synonym handler_setup_result = "error_code + nat"

abbreviation incompatible_type :: handler_setup_result where
  "incompatible_type \<equiv> Inl (Client incompatible_response_type)"

definition is_sync_or_flush :: "request_message_type \<Rightarrow> bool" where
  "is_sync_or_flush t \<longleftrightarrow> t = msg_sync \<or> t = msg_flush"

definition skip_syncs :: "request_message_type list \<Rightarrow> request_message_type list" where
  "skip_syncs ts = dropWhile is_sync_or_flush ts"

definition offset_at :: "request \<Rightarrow> request_message_type list \<Rightarrow> nat" where
  "offset_at req ts = length (req_types req) - length ts"

text \<open>The loop over an extended query sequence; it ends after the execute.\<close>

fun resultset_scan :: "bool \<Rightarrow> request_message_type list \<Rightarrow> error_code + (bool \<times> request_message_type list)" where
  "resultset_scan describe_found [] = Inr (False, [])"
| "resultset_scan describe_found (t # ts) =
     (case t of
        msg_sync \<Rightarrow> resultset_scan describe_found ts
      | msg_flush \<Rightarrow> resultset_scan describe_found ts
      | msg_parse \<Rightarrow> resultset_scan describe_found ts
      | msg_bind \<Rightarrow> resultset_scan describe_found ts
      | msg_describe \<Rightarrow>
          if describe_found then Inl (Client incompatible_response_type) else resultset_scan True ts
      | msg_execute \<Rightarrow>
          if \<not> describe_found then Inl (Client incompatible_response_type) else Inr (True, ts)
      | _ \<Rightarrow> Inl (Client incompatible_response_type))"

definition resultset_setup :: "request \<Rightarrow> nat \<Rightarrow> handler_setup_result checked" where
  "resultset_setup req offset =
     (if length (req_types req) < offset then Inl Past_the_end
      else
        (case skip_syncs (drop offset (req_types req)) of
           [] \<Rightarrow> Inl Past_the_end
         | t # ts \<Rightarrow>
             if t = msg_query then Inr (Inr (offset_at req ts))
             else (case resultset_scan False (t # ts) of
                     Inl ec \<Rightarrow> Inr (Inl ec)
                   | Inr (execute_found, rest) \<Rightarrow>
                       if execute_found then Inr (Inr (offset_at req (skip_syncs rest)))
                       else Inr incompatible_type)))"

definition check_setup_impl :: "request \<Rightarrow> nat \<Rightarrow> request_message_type \<Rightarrow> handler_setup_result checked" where
  "check_setup_impl req offset type =
     (if length (req_types req) < offset then Inl Past_the_end
      else
        (case skip_syncs (drop offset (req_types req)) of
           [] \<Rightarrow> Inr incompatible_type
         | t # ts \<Rightarrow>
             if t \<noteq> type then Inr incompatible_type
             else Inr (Inr (offset_at req (skip_syncs ts)))))"

section \<open>Handlers without rows\<close>

text \<open>The operations of a handler: the requirements of the concept \<^verbatim>\<open>response_handler\<close>.\<close>

record 's handler_ops =
  ho_setup :: "request \<Rightarrow> nat \<Rightarrow> 's \<Rightarrow> (handler_setup_result \<times> 's) checked"
  ho_on_message :: "any_request_message \<Rightarrow> nat \<Rightarrow> 's \<Rightarrow> 's checked"
  ho_result :: "'s \<Rightarrow> extended_error"

definition with_state :: "'s \<Rightarrow> handler_setup_result checked \<Rightarrow> (handler_setup_result \<times> 's) checked" where
  "with_state s r = map_sum id (\<lambda>res. (res, s)) r"

text \<open>\<^verbatim>\<open>check\<close>, \<^verbatim>\<open>check_parse\<close> and \<^verbatim>\<open>check_close\<close> hold an error only.\<close>

definition check :: "extended_error handler_ops" where
  "check =
     \<lparr>ho_setup = (\<lambda>req offset err. Inr (Inr (length (req_types req)), no_error)),
      ho_on_message = (\<lambda>msg offset err. Inr (maybe_store_error_of msg err)),
      ho_result = (\<lambda>err. err)\<rparr>"

definition check_parse :: "extended_error handler_ops" where
  "check_parse =
     \<lparr>ho_setup = (\<lambda>req offset err. with_state no_error (check_setup_impl req offset msg_parse)),
      ho_on_message = (\<lambda>msg offset err. Inr (maybe_store_error_of msg err)),
      ho_result = (\<lambda>err. err)\<rparr>"

definition check_close :: "extended_error handler_ops" where
  "check_close =
     \<lparr>ho_setup = (\<lambda>req offset err. with_state no_error (check_setup_impl req offset msg_close)),
      ho_on_message = (\<lambda>msg offset err. Inr (maybe_store_error_of msg err)),
      ho_result = (\<lambda>err. err)\<rparr>"

text \<open>\<^verbatim>\<open>check_execute\<close>: the information is absent when the pointer is null.\<close>

record check_execute_t =
  ce_info :: "command_info option"
  ce_err :: extended_error

definition check_execute_setup ::
    "request \<Rightarrow> nat \<Rightarrow> check_execute_t \<Rightarrow> (handler_setup_result \<times> check_execute_t) checked" where
  "check_execute_setup req offset s =
     with_state \<lparr>ce_info = map_option (\<lambda>_. reset_info) (ce_info s), ce_err = no_error\<rparr> (resultset_setup req offset)"

definition check_execute_on_message ::
    "any_request_message \<Rightarrow> nat \<Rightarrow> check_execute_t \<Rightarrow> check_execute_t checked" where
  "check_execute_on_message msg offset s =
     (case msg of
        Rm_bind_complete \<Rightarrow> Inr s
      | Rm_parse_complete \<Rightarrow> Inr s
      | Rm_row_description d \<Rightarrow> Inr s
      | Rm_data_row r \<Rightarrow> Inr s
      | Rm_command_complete tag \<Rightarrow> Inr (s\<lparr>ce_info := map_option (from_command_complete tag) (ce_info s)\<rparr>)
      | Rm_portal_suspended \<Rightarrow>
          Inr (s\<lparr>ce_info := map_option (\<lambda>i. i\<lparr>ci_portal_suspended := True\<rparr>) (ce_info s)\<rparr>)
      | Rm_error_response err \<Rightarrow> Inr (s\<lparr>ce_err := maybe_store_error err (ce_err s)\<rparr>)
      | Rm_close_complete \<Rightarrow> Inl Assertion_failed
      | Rm_parameter_description v \<Rightarrow> Inl Assertion_failed
      | Rm_empty_query_response \<Rightarrow> Inl Assertion_failed
      | Rm_message_skipped \<Rightarrow> Inl Assertion_failed)"

definition check_execute :: "check_execute_t handler_ops" where
  "check_execute = \<lparr>ho_setup = check_execute_setup, ho_on_message = check_execute_on_message, ho_result = ce_err\<rparr>"

section \<open>The composite handler\<close>

text \<open>
  \<^verbatim>\<open>response\<close> holds a tuple of handlers; a component is the operations of a handler with its state. The
  states have one type here. \<^verbatim>\<open>offsets_\<close> has as many elements as there are handlers.
\<close>

record 's response =
  rp_handlers :: "('s handler_ops \<times> 's) list"
  rp_offsets :: "nat list"
  rp_current :: nat

definition response_init :: "('s handler_ops \<times> 's) list \<Rightarrow> 's response" where
  "response_init hs = \<lparr>rp_handlers = hs, rp_offsets = replicate (length hs) 0, rp_current = 0\<rparr>"

text \<open>
  The recursion of \<^verbatim>\<open>response_setup\<close>. It returns the states it has set up and the offsets it has
  stored; the handlers after a failed one and their offsets stay as they are.
\<close>

fun response_setup ::
    "request \<Rightarrow> nat \<Rightarrow> nat list \<Rightarrow> ('s handler_ops \<times> 's) list \<Rightarrow>
     (handler_setup_result \<times> nat list \<times> ('s handler_ops \<times> 's) list) checked" where
  "response_setup req initial_offset offs [] = Inr (Inr initial_offset, offs, [])"
| "response_setup req initial_offset offs ((ops, s) # hs) =
     (case ho_setup ops req initial_offset s of
        Inl fault \<Rightarrow> Inl fault
      | Inr (Inl ec, s') \<Rightarrow> Inr (Inl ec, offs, (ops, s') # hs)
      | Inr (Inr offset, s') \<Rightarrow>
          (case response_setup req offset (tl offs) hs of
             Inl fault \<Rightarrow> Inl fault
           | Inr (res, offs', hs') \<Rightarrow> Inr (res, offset # offs', (ops, s') # hs')))"

definition rp_setup :: "request \<Rightarrow> nat \<Rightarrow> 's response \<Rightarrow> (handler_setup_result \<times> 's response) checked" where
  "rp_setup req offset r =
     (case response_setup req offset (rp_offsets r) (rp_handlers r) of
        Inl fault \<Rightarrow> Inl fault
      | Inr (res, offs, hs) \<Rightarrow> Inr (res, r\<lparr>rp_handlers := hs, rp_offsets := offs\<rparr>))"

text \<open>Reading \<^verbatim>\<open>offsets_\<close> out of range is a fault.\<close>

definition rp_on_message :: "any_request_message \<Rightarrow> nat \<Rightarrow> 's response \<Rightarrow> 's response checked" where
  "rp_on_message msg offset r =
     (if length (rp_offsets r) \<le> rp_current r then Inl Past_the_end
      else
        (let current = (if offset \<ge> rp_offsets r ! rp_current r then rp_current r + 1 else rp_current r)
         in if length (rp_offsets r) \<le> current then Inl Past_the_end
            else if \<not> offset < rp_offsets r ! current then Inl Assertion_failed
            else (let (ops, s) = rp_handlers r ! current
                  in case ho_on_message ops msg offset s of
                       Inl fault \<Rightarrow> Inl fault
                     | Inr s' \<Rightarrow> Inr (r\<lparr>rp_handlers := (rp_handlers r)[current := (ops, s')],
                                         rp_current := current\<rparr>))))"

fun response_get_result :: "('s handler_ops \<times> 's) list \<Rightarrow> extended_error option" where
  "response_get_result [] = None"
| "response_get_result ((ops, s) # hs) =
     (if ee_code (ho_result ops s) \<noteq> None then Some (ho_result ops s) else response_get_result hs)"

definition rp_result :: "'s response \<Rightarrow> extended_error" where
  "rp_result r =
     (case response_get_result (rp_handlers r) of
        Some err \<Rightarrow> err
      | None \<Rightarrow> (case rp_handlers r ! 0 of (ops, s) \<Rightarrow> ho_result ops s))"

definition response :: "'s response handler_ops" where
  "response = \<lparr>ho_setup = rp_setup, ho_on_message = rp_on_message, ho_result = rp_result\<rparr>"

section \<open>Setting up a request\<close>

definition setup_request :: "'s handler_ops \<Rightarrow> request \<Rightarrow> 's \<Rightarrow> (error_code option \<times> 's) checked" where
  "setup_request ops req s =
     (case check_request req of
        Some ec \<Rightarrow> Inr (Some ec, s)
      | None \<Rightarrow>
          (case ho_setup ops req 0 s of
             Inl fault \<Rightarrow> Inl fault
           | Inr (Inl ec, s') \<Rightarrow> Inr (Some ec, s')
           | Inr (Inr offset, s') \<Rightarrow>
               if offset \<noteq> length (req_types req) then Inr (Some (Client incompatible_response_length), s')
               else Inr (None, s')))"

section \<open>Delivering calls\<close>

text \<open>
  The state machine of the response is polymorphic in the handler; a handler that may fault runs in it
  as a fault or a state, and a fault stays.
\<close>

definition guarded :: "'s handler_ops \<Rightarrow> 's checked handler_fn" where
  "guarded ops msg offset h = (case h of Inl fault \<Rightarrow> Inl fault | Inr s \<Rightarrow> ho_on_message ops msg offset s)"

fun run_calls :: "'s handler_ops \<Rightarrow> call_log \<Rightarrow> 's \<Rightarrow> 's checked" where
  "run_calls ops [] s = Inr s"
| "run_calls ops ((msg, offset) # cs) s =
     (case ho_on_message ops msg offset s of Inl fault \<Rightarrow> Inl fault | Inr s' \<Rightarrow> run_calls ops cs s')"

end
