(* ===== verification/Pg_Responses_Facts.thy ===== *)
theory Pg_Responses_Facts
  imports Pg_Responses "HOL-Library.Sublist"
begin

text \<open>
  What response handlers promise. The locale \<open>response_handler\<close> states the contract: a successful setup
  starts without an error and takes a range of the request's messages that is not empty of work, and an
  error the server reports is never lost. The interpretations are the handlers without rows and the
  composite of lawful handlers. The composite hands every call to the handler whose range it is in.
\<close>

section \<open>Contracts\<close>

abbreviation errored :: "extended_error \<Rightarrow> bool" where
  "errored err \<equiv> ee_code err \<noteq> None"

abbreviation is_server_error :: "any_request_message \<Rightarrow> bool" where
  "is_server_error msg \<equiv> \<exists>e. msg = Rm_error_response e \<and> errored (store_error e)"

text \<open>The messages from \<open>offset\<close> to \<open>offset'\<close> hold one that the server answers, or go up to the end.\<close>

definition takes_work :: "request \<Rightarrow> nat \<Rightarrow> nat \<Rightarrow> bool" where
  "takes_work req offset offset' \<longleftrightarrow> offset \<le> offset' \<and> offset' \<le> length (req_types req) \<and>
     (offset' = length (req_types req) \<or>
      (\<exists>i. offset \<le> i \<and> i < offset' \<and> \<not> is_sync_or_flush (req_types req ! i)))"

locale response_handler =
  fixes ops :: "'s handler_ops" and ok :: "'s \<Rightarrow> bool"
  assumes setup_takes: "ok s \<Longrightarrow> ho_setup ops req offset s = Inr (Inr offset', s') \<Longrightarrow>
      offset \<le> length (req_types req) \<Longrightarrow> takes_work req offset offset'"
    and setup_clears: "ok s \<Longrightarrow> ho_setup ops req offset s = Inr (Inr offset', s') \<Longrightarrow> \<not> errored (ho_result ops s')"
    and setup_ok: "ok s \<Longrightarrow> ho_setup ops req offset s = Inr (res, s') \<Longrightarrow> ok s'"
    and message_ok: "ok s \<Longrightarrow> ho_on_message ops msg n s = Inr s' \<Longrightarrow> ok s'"
    and error_sticks: "ok s \<Longrightarrow> ho_on_message ops msg n s = Inr s' \<Longrightarrow>
      errored (ho_result ops s) \<or> is_server_error msg \<Longrightarrow> errored (ho_result ops s')"
begin

lemma run_ok: "ok s \<Longrightarrow> run_calls ops cs s = Inr s' \<Longrightarrow> ok s'"
  by (induction cs arbitrary: s) (auto split: sum.splits, metis message_ok)

lemma error_reported:
  assumes "ok s" and "run_calls ops cs s = Inr s'"
    and "errored (ho_result ops s) \<or> (\<exists>(msg, n) \<in> set cs. is_server_error msg)"
  shows "errored (ho_result ops s')"
  using assms
proof (induction cs arbitrary: s)
  case (Cons c cs)
  obtain msg n where c: "c = (msg, n)" by (cases c)
  with Cons.prems(2) obtain t where t: "ho_on_message ops msg n s = Inr t" "run_calls ops cs t = Inr s'"
    by (auto split: sum.splits)
  have "ok t" using message_ok [OF Cons.prems(1) t(1)] .
  moreover have "errored (ho_result ops t) \<or> (\<exists>(msg, n) \<in> set cs. is_server_error msg)"
    using Cons.prems(3) error_sticks [OF Cons.prems(1) t(1)] c by auto
  ultimately show ?case using Cons.IH t(2) by blast
qed simp

end

text \<open>A handler that adds no error of its own: its result is the first error of the server.\<close>

locale plain_handler =
  fixes ops :: "'s handler_ops"
  assumes plain_setup_takes: "ho_setup ops req offset s = Inr (Inr offset', s') \<Longrightarrow>
      offset \<le> length (req_types req) \<Longrightarrow> takes_work req offset offset'"
    and plain_setup_clears: "ho_setup ops req offset s = Inr (res, s') \<Longrightarrow> ho_result ops s' = no_error"
    and plain_result: "ho_on_message ops msg n s = Inr s' \<Longrightarrow>
      ho_result ops s' = maybe_store_error_of msg (ho_result ops s)"
begin

lemma run_result: "run_calls ops cs s = Inr s' \<Longrightarrow>
    ho_result ops s' = fold (\<lambda>(msg, n). maybe_store_error_of msg) cs (ho_result ops s)"
  by (induction cs arbitrary: s) (auto simp: plain_result split: sum.splits)

end

lemma maybe_store_sticks:
  "errored err \<or> is_server_error msg \<Longrightarrow> errored (maybe_store_error_of msg err)"
  by (auto simp: maybe_store_error_of_def maybe_store_error_def split: any_request_message.splits)

lemma failed_no_error [simp]: "ee_code no_error = None"
  by (simp add: no_error_def)

sublocale plain_handler \<subseteq> response_handler ops "\<lambda>s. True"
proof unfold_locales
  fix msg n s s'
  assume "ho_on_message ops msg n s = Inr s'" and "errored (ho_result ops s) \<or> is_server_error msg"
  then show "errored (ho_result ops s')" by (metis plain_result maybe_store_sticks)
qed (auto simp: plain_setup_takes plain_setup_clears)

section \<open>Setup\<close>

lemma suffix_nth:
  assumes "suffix (t # ts) xs"
  shows "xs ! (length xs - length (t # ts)) = t" and "length (t # ts) \<le> length xs"
  using assms by (auto simp: suffix_def nth_append)

lemma skip_syncs_suffix: "suffix (skip_syncs ts) ts"
  by (simp add: skip_syncs_def suffix_dropWhile)

lemma skip_syncs_ConsD: "skip_syncs ts = u # us \<Longrightarrow> \<not> is_sync_or_flush u"
  unfolding skip_syncs_def by (metis hd_dropWhile list.distinct(1) list.sel(1))

lemma resultset_scan_suffix: "resultset_scan d ts = Inr (b, rest) \<Longrightarrow> suffix rest ts"
  by (induction d ts rule: resultset_scan.induct)
    (auto simp: suffix_Cons split: request_message_type.splits if_splits)

text \<open>A setup that passes a message with a reply takes work.\<close>

lemma takes_workI:
  assumes "suffix (t # ts) (drop offset (req_types req))" and "\<not> is_sync_or_flush t" and "suffix rest ts"
    and "offset \<le> length (req_types req)"
  shows "takes_work req offset (offset_at req rest)"
proof -
  let ?n = "length (req_types req)" and ?i = "offset_at req (t # ts)"
  have s: "suffix (t # ts) (req_types req)" using assms(1) suffix_drop suffix_order.trans by blast
  have len: "length (t # ts) \<le> ?n - offset" using suffix_length_le [OF assms(1)] by simp
  have "length rest \<le> length ts" using suffix_length_le [OF assms(3)] .
  then have "offset \<le> ?i" "?i < offset_at req rest" "offset_at req rest \<le> ?n"
    using len assms(4) by (auto simp: offset_at_def)
  moreover have "req_types req ! ?i = t" using suffix_nth(1) [OF s] by (simp add: offset_at_def)
  ultimately show ?thesis using assms(2) unfolding takes_work_def by auto
qed

lemma resultset_setup_takes:
  assumes "resultset_setup req offset = Inr (Inr offset')" and "offset \<le> length (req_types req)"
  shows "takes_work req offset offset'"
proof -
  obtain t ts where t: "skip_syncs (drop offset (req_types req)) = t # ts"
    and c: "(t = msg_query \<and> offset' = offset_at req ts) \<or>
      (t \<noteq> msg_query \<and> (\<exists>rest. resultset_scan False (t # ts) = Inr (True, rest) \<and>
        offset' = offset_at req (skip_syncs rest)))"
    using assms by (auto simp: resultset_setup_def split: list.splits if_splits sum.splits)
  have s: "suffix (t # ts) (drop offset (req_types req))" using skip_syncs_suffix t by metis
  note ns = skip_syncs_ConsD [OF t]
  have "suffix rest ts" if "resultset_scan False (t # ts) = Inr (True, rest)" for rest
    using that resultset_scan_suffix by (auto split: request_message_type.splits)
  then show ?thesis
    using c takes_workI [OF s ns _ assms(2)] skip_syncs_suffix suffix_order.trans by blast
qed

lemma check_setup_takes:
  assumes "check_setup_impl req offset ty = Inr (Inr offset')" and "offset \<le> length (req_types req)"
  shows "takes_work req offset offset'"
proof -
  obtain t ts where t: "skip_syncs (drop offset (req_types req)) = t # ts"
    and o: "offset' = offset_at req (skip_syncs ts)"
    using assms by (auto simp: check_setup_impl_def split: list.splits if_splits)
  have "suffix (t # ts) (drop offset (req_types req))" using skip_syncs_suffix t by metis
  then show ?thesis
    unfolding o using takes_workI [OF _ skip_syncs_ConsD [OF t] skip_syncs_suffix assms(2)] by blast
qed

lemma with_state_simps [simp]:
  "with_state s r = Inr (res, s') \<longleftrightarrow> r = Inr res \<and> s' = s"
  by (cases r) (auto simp: with_state_def)

interpretation check_h: plain_handler check
  by unfold_locales (auto simp: check_def takes_work_def)

interpretation check_parse_h: plain_handler check_parse
  by unfold_locales (auto simp: check_parse_def intro: check_setup_takes)

interpretation check_close_h: plain_handler check_close
  by unfold_locales (auto simp: check_close_def intro: check_setup_takes)

interpretation check_execute_h: plain_handler check_execute
  by unfold_locales (auto simp: check_execute_def check_execute_setup_def check_execute_on_message_def
      maybe_store_error_of_def intro: resultset_setup_takes split: any_request_message.splits)

section \<open>The composite\<close>

definition lawful :: "'s handler_ops \<times> 's \<Rightarrow> bool" where
  "lawful h \<longleftrightarrow> (\<exists>ok. response_handler (fst h) ok \<and> ok (snd h))"

lemma lawful_setup:
  assumes "lawful (ops, s)" and "ho_setup ops req offset s = Inr (res, s')"
  shows "lawful (ops, s')"
    and "res = Inr offset' \<Longrightarrow> \<not> errored (ho_result ops s')"
    and "res = Inr offset' \<Longrightarrow> offset \<le> length (req_types req) \<Longrightarrow> takes_work req offset offset'"
proof -
  obtain ok where h: "response_handler ops ok" and s: "ok s" using assms(1) by (auto simp: lawful_def)
  show "lawful (ops, s')"
    using h response_handler.setup_ok [OF h s assms(2)] by (auto simp: lawful_def)
  show "res = Inr offset' \<Longrightarrow> \<not> errored (ho_result ops s')"
    using response_handler.setup_clears [OF h s] assms(2) by blast
  show "res = Inr offset' \<Longrightarrow> offset \<le> length (req_types req) \<Longrightarrow> takes_work req offset offset'"
    using response_handler.setup_takes [OF h s] assms(2) by blast
qed

lemma lawful_message:
  assumes "lawful (ops, s)" and "ho_on_message ops msg n s = Inr s'"
  shows "lawful (ops, s')"
    and "errored (ho_result ops s) \<or> is_server_error msg \<Longrightarrow> errored (ho_result ops s')"
proof -
  obtain ok where h: "response_handler ops ok" and s: "ok s" using assms(1) by (auto simp: lawful_def)
  show "lawful (ops, s')"
    using h response_handler.message_ok [OF h s assms(2)] by (auto simp: lawful_def)
  show "errored (ho_result ops s) \<or> is_server_error msg \<Longrightarrow> errored (ho_result ops s')"
    using response_handler.error_sticks [OF h s assms(2)] by blast
qed

text \<open>The offsets stored by a setup cut the messages into ranges that each hold work.\<close>

fun ranges :: "request \<Rightarrow> nat \<Rightarrow> nat list \<Rightarrow> nat \<Rightarrow> bool" where
  "ranges req offset [] fin \<longleftrightarrow> offset = fin"
| "ranges req offset (x # xs) fin \<longleftrightarrow> takes_work req offset x \<and> ranges req x xs fin"

lemma response_setup_keeps:
  assumes "response_setup req offset offs hs = Inr (res, offs', hs')"
    and "length offs = length hs" and "list_all lawful hs"
  shows "length offs' = length hs \<and> map fst hs' = map fst hs \<and> list_all lawful hs'"
  using assms
proof (induction req offset offs hs arbitrary: res offs' hs' rule: response_setup.induct)
  case (2 req offset offs ops s hs)
  then obtain x xs where "offs = x # xs" by (cases offs) auto
  with 2 show ?case by (fastforce split: sum.splits dest: lawful_setup(1))
qed simp

lemma response_setup_ranges:
  assumes "response_setup req offset offs hs = Inr (Inr offset', offs', hs')"
    and "length offs = length hs" and "list_all lawful hs" and "offset \<le> length (req_types req)"
  shows "ranges req offset offs' offset'"
  using assms
proof (induction req offset offs hs arbitrary: offs' hs' rule: response_setup.induct)
  case (2 req offset offs ops s hs)
  from 2(2) obtain y s' ys hs'' where
      h: "ho_setup ops req offset s = Inr (Inr y, s')" "response_setup req y (tl offs) hs = Inr (Inr offset', ys, hs'')"
      "offs' = y # ys"
    by (auto split: sum.splits)
  have "takes_work req offset y" using lawful_setup(3) [OF _ h(1) refl "2.prems"(4)] "2.prems"(3) by simp
  then show ?case using "2.IH" [OF h(1) refl refl h(2)] "2.prems" h(3) by (auto simp: takes_work_def)
qed simp

lemma response_setup_clears:
  assumes "response_setup req offset offs hs = Inr (Inr offset', offs', hs')"
    and "length offs = length hs" and "list_all lawful hs"
  shows "list_all (\<lambda>(ops, s). \<not> errored (ho_result ops s)) hs'"
  using assms
proof (induction req offset offs hs arbitrary: offs' hs' rule: response_setup.induct)
  case (2 req offset offs ops s hs)
  from 2(2) obtain y s' ys hs'' where
      h: "ho_setup ops req offset s = Inr (Inr y, s')" "response_setup req y (tl offs) hs = Inr (Inr offset', ys, hs'')"
      "hs' = (ops, s') # hs''"
    by (auto split: sum.splits)
  have "\<not> errored (ho_result ops s')" using lawful_setup(2) [OF _ h(1) refl] "2.prems"(3) by simp
  then show ?case using "2.IH" [OF h(1) refl refl h(2)] "2.prems" h(3) by auto
qed simp

lemma ranges_last:
  assumes "ranges req offset (x # xs) fin" and "offset \<le> length (req_types req)"
  shows "takes_work req offset fin"
  using assms
proof (induction xs arbitrary: offset x)
  case (Cons y ys)
  then have "takes_work req x fin" by (auto simp: takes_work_def)
  moreover have "takes_work req offset x" using Cons.prems by simp
  ultimately show ?case unfolding takes_work_def by (meson le_trans order_antisym order_less_le_trans)
qed simp

definition response_ok :: "'s response \<Rightarrow> bool" where
  "response_ok r \<longleftrightarrow> rp_handlers r \<noteq> [] \<and> length (rp_offsets r) = length (rp_handlers r) \<and>
     list_all lawful (rp_handlers r)"

lemma get_result_failed:
  "(\<exists>err. response_get_result hs = Some err) \<longleftrightarrow> (\<exists>(ops, s) \<in> set hs. errored (ho_result ops s))"
  "response_get_result hs = Some err \<Longrightarrow> errored err"
  by (induction hs rule: response_get_result.induct) (auto split: if_splits)

lemma rp_result_failed:
  assumes "rp_handlers r \<noteq> []"
  shows "errored (rp_result r) \<longleftrightarrow> (\<exists>(ops, s) \<in> set (rp_handlers r). errored (ho_result ops s))"
proof (cases "response_get_result (rp_handlers r)")
  case None
  then have all: "\<not> errored (ho_result ops s)" if "(ops, s) \<in> set (rp_handlers r)" for ops s
    using get_result_failed(1) [of "rp_handlers r"] that by auto
  obtain ops s where "rp_handlers r ! 0 = (ops, s)" by fastforce
  moreover from this have "(ops, s) \<in> set (rp_handlers r)"
    using assms by (metis length_greater_0_conv nth_mem)
  ultimately show ?thesis using all None by (auto simp: rp_result_def)
next
  case (Some err)
  then show ?thesis
    using get_result_failed(2) [OF Some] get_result_failed(1) [of "rp_handlers r"] by (auto simp: rp_result_def)
qed

text \<open>The handler a message is given to, and its update.\<close>

lemma rp_on_messageE:
  assumes "rp_on_message msg n r = Inr r'" and "response_ok r"
  obtains k ops s s' where "k < length (rp_handlers r)" "rp_handlers r ! k = (ops, s)"
    "ho_on_message ops msg n s = Inr s'"
    "r' = r\<lparr>rp_handlers := (rp_handlers r)[k := (ops, s')], rp_current := k\<rparr>" "lawful (ops, s)"
    "k = (if n \<ge> rp_offsets r ! rp_current r then rp_current r + 1 else rp_current r)"
proof -
  let ?k = "if n \<ge> rp_offsets r ! rp_current r then rp_current r + 1 else rp_current r"
  obtain ops s where os: "rp_handlers r ! ?k = (ops, s)" by fastforce
  from assms(1) os obtain s' where h: "?k < length (rp_offsets r)" "ho_on_message ops msg n s = Inr s'"
      "r' = r\<lparr>rp_handlers := (rp_handlers r)[?k := (ops, s')], rp_current := ?k\<rparr>"
    by (cases "ho_on_message ops msg n s") (auto simp: rp_on_message_def Let_def not_le split: if_splits)
  moreover have k: "?k < length (rp_handlers r)" using assms(2) h(1) by (simp add: response_ok_def)
  moreover have "lawful (ops, s)"
    using assms(2) nth_mem [OF k] os by (auto simp: response_ok_def list_all_iff)
  ultimately show ?thesis using that os by blast
qed

lemma rp_setup_ok:
  assumes "rp_setup req offset r = Inr (res, r')" and "response_ok r"
  shows "response_ok r'" and "map fst (rp_handlers r') = map fst (rp_handlers r)"
    and "rp_current r' = rp_current r"
proof -
  obtain offs hs where h: "response_setup req offset (rp_offsets r) (rp_handlers r) = Inr (res, offs, hs)"
      "r' = r\<lparr>rp_handlers := hs, rp_offsets := offs\<rparr>"
    using assms(1) by (auto simp: rp_setup_def split: sum.splits)
  have k: "length offs = length (rp_handlers r)" "map fst hs = map fst (rp_handlers r)" "list_all lawful hs"
    using response_setup_keeps [OF h(1)] assms(2) by (auto simp: response_ok_def)
  then show "response_ok r'" using assms(2) h(2) map_eq_imp_length_eq [OF k(2)] by (auto simp: response_ok_def)
  show "map fst (rp_handlers r') = map fst (rp_handlers r)" "rp_current r' = rp_current r"
    using k h(2) by simp_all
qed

lemma rp_setup_ranges:
  assumes "rp_setup req offset r = Inr (Inr offset', r')" and "response_ok r"
    and "offset \<le> length (req_types req)"
  shows "ranges req offset (rp_offsets r') offset'"
proof -
  obtain offs hs where h: "response_setup req offset (rp_offsets r) (rp_handlers r) = Inr (Inr offset', offs, hs)"
      "r' = r\<lparr>rp_handlers := hs, rp_offsets := offs\<rparr>"
    using assms(1) by (auto simp: rp_setup_def split: sum.splits)
  show "ranges req offset (rp_offsets r') offset'"
    using response_setup_ranges [OF h(1)] assms(2,3) h(2) by (auto simp: response_ok_def)
qed

lemma rp_setup_clears:
  assumes "rp_setup req offset r = Inr (Inr offset', r')" and "response_ok r"
  shows "\<not> errored (rp_result r')"
proof -
  obtain offs hs where h: "response_setup req offset (rp_offsets r) (rp_handlers r) = Inr (Inr offset', offs, hs)"
      "r' = r\<lparr>rp_handlers := hs, rp_offsets := offs\<rparr>"
    using assms(1) by (auto simp: rp_setup_def split: sum.splits)
  have "list_all (\<lambda>(ops, s). \<not> errored (ho_result ops s)) hs"
    using response_setup_clears [OF h(1)] assms(2) by (auto simp: response_ok_def)
  then show ?thesis
    using rp_result_failed [of r'] rp_setup_ok(1) [OF assms] h(2) by (auto simp: response_ok_def list_all_iff)
qed

lemma rp_on_message_ok:
  assumes "rp_on_message msg n r = Inr r'" and "response_ok r"
  shows "response_ok r'" and "errored (rp_result r) \<or> is_server_error msg \<Longrightarrow> errored (rp_result r')"
proof -
  from rp_on_messageE [OF assms] obtain k ops t t' where
      k: "k < length (rp_handlers r)" "rp_handlers r ! k = (ops, t)" and t: "ho_on_message ops msg n t = Inr t'"
      and r': "r' = r\<lparr>rp_handlers := (rp_handlers r)[k := (ops, t')], rp_current := k\<rparr>" and l: "lawful (ops, t)"
    by metis
  have hs': "rp_handlers r' = (rp_handlers r)[k := (ops, t')]" using r' by simp
  show ok': "response_ok r'"
    using assms(2) lawful_message(1) [OF l t] r' unfolding response_ok_def list_all_iff
    by (auto dest!: set_update_subset_insert [THEN subsetD])
  assume a: "errored (rp_result r) \<or> is_server_error msg"
  have "\<exists>(ops, s) \<in> set (rp_handlers r'). errored (ho_result ops s)"
  proof (cases "is_server_error msg \<or> errored (ho_result ops t)")
    case True
    have "(ops, t') \<in> set (rp_handlers r')" using k(1) hs' by (simp add: set_update_memI)
    then show ?thesis using lawful_message(2) [OF l t] True by blast
  next
    case False
    with a obtain ops' u where u: "(ops', u) \<in> set (rp_handlers r)" "errored (ho_result ops' u)"
      using rp_result_failed [of r] assms(2) by (auto simp: response_ok_def)
    then obtain j where j: "j < length (rp_handlers r)" "rp_handlers r ! j = (ops', u)" by (metis in_set_conv_nth)
    with False k(2) u(2) have "j \<noteq> k" by auto
    with j have "(rp_handlers r') ! j = (ops', u)" "j < length (rp_handlers r')" using hs' by simp_all
    then have "(ops', u) \<in> set (rp_handlers r')" by (metis nth_mem)
    then show ?thesis using u(2) by blast
  qed
  then show "errored (rp_result r')" using rp_result_failed [of r'] ok' by (simp add: response_ok_def)
qed

interpretation response_h: response_handler response response_ok
proof unfold_locales
  fix s s' :: "'a response" and req offset offset'
  assume ok: "response_ok s" and st: "ho_setup response req offset s = Inr (Inr offset', s')"
    and le: "offset \<le> length (req_types req)"
  from st have st': "rp_setup req offset s = Inr (Inr offset', s')" by (simp add: response_def)
  have "rp_offsets s' \<noteq> []" using rp_setup_ok(1) [OF st' ok] by (auto simp: response_ok_def)
  then show "takes_work req offset offset'"
    using rp_setup_ranges [OF st' ok le] ranges_last [of req offset "hd (rp_offsets s')" "tl (rp_offsets s')"] le
    by simp
next
  fix s s' :: "'a response" and msg n
  assume "response_ok s" "ho_on_message response msg n s = Inr s'" "errored (ho_result response s) \<or> is_server_error msg"
  then show "errored (ho_result response s')"
    using rp_on_message_ok(2) [of msg n s s'] by (simp add: response_def)
qed (use rp_setup_clears rp_setup_ok(1) rp_on_message_ok(1) in \<open>auto simp: response_def\<close>)

section \<open>Dispatch in a conversation\<close>

text \<open>A fault in a handler stops its updates.\<close>

lemma deliver_fault: "deliver (guarded ops) cs (Inl fault) = Inl fault"
  by (induction cs) (auto simp: guarded_def)

lemma deliver_guarded: "deliver (guarded ops) cs (Inr s) = run_calls ops cs s"
  by (induction cs arbitrary: s) (auto simp: guarded_def deliver_fault split: sum.splits)

lemma handler_run:
  assumes "check_request req = None" and "replies ac 0 (req_types req) (sync_messages ms) cs"
  shows "\<exists>f' rest. rr_run (guarded ops) ms (read_response_fsm_init req (Inr s) ac) = Some (Fsm_done None, f', rest) \<and>
    sync_messages rest = [] \<and> rr_handler f' = run_calls ops cs s"
  using conforming_run [OF assms, of "guarded ops" "Inr s"] unfolding deliver_guarded .

text \<open>
  The calls \<open>cs\<close> for the messages \<open>ts\<close>, the first of which has the index \<open>n\<close>: they come in the order of the
  messages, and every message that is not a sync or a flush has one.
\<close>

definition answers :: "nat \<Rightarrow> request_message_type list \<Rightarrow> call_log \<Rightarrow> bool" where
  "answers n ts cs \<longleftrightarrow> sorted (map snd cs) \<and> (\<forall>x \<in> snd ` set cs. n \<le> x \<and> x < n + length ts) \<and>
     (\<forall>i < length ts. \<not> is_sync_or_flush (ts ! i) \<longrightarrow> n + i \<in> snd ` set cs)"

lemma answers_Nil [simp]: "answers n [] []"
  by (simp add: answers_def)

lemma answers_append:
  assumes "answers n ts cs" and "answers (n + length ts) us ds"
  shows "answers n (ts @ us) (cs @ ds)"
proof -
  have a: "sorted (map snd cs)" "\<And>x. x \<in> snd ` set cs \<Longrightarrow> n \<le> x \<and> x < n + length ts"
    "\<And>i. i < length ts \<Longrightarrow> \<not> is_sync_or_flush (ts ! i) \<Longrightarrow> n + i \<in> snd ` set cs"
    and b: "sorted (map snd ds)" "\<And>x. x \<in> snd ` set ds \<Longrightarrow> n + length ts \<le> x \<and> x < n + length ts + length us"
    "\<And>i. i < length us \<Longrightarrow> \<not> is_sync_or_flush (us ! i) \<Longrightarrow> n + length ts + i \<in> snd ` set ds"
    using assms unfolding answers_def by blast+
  have "sorted (map snd (cs @ ds))" using a(1,2) b(1,2) by (fastforce simp: sorted_append)
  moreover have "\<forall>x \<in> snd ` set (cs @ ds). n \<le> x \<and> x < n + length (ts @ us)"
    using a(2) b(2) by fastforce
  moreover have "n + i \<in> snd ` set (cs @ ds)"
    if "i < length (ts @ us)" "\<not> is_sync_or_flush ((ts @ us) ! i)" for i
  proof (cases "i < length ts")
    case True
    then show ?thesis using that a(3) [of i] by (auto simp: nth_append)
  next
    case False
    then have "i - length ts < length us" using that(1) by simp
    then show ?thesis using False that b(3) [of "i - length ts"] by (auto simp: nth_append)
  qed
  ultimately show ?thesis unfolding answers_def by blast
qed

lemma answers_Cons:
  assumes "is_sync_or_flush t \<or> ys \<noteq> []" and "answers (Suc n) ts cs"
  shows "answers n (t # ts) (calls_at n ys @ cs)"
proof -
  have "answers n [t] (calls_at n ys)"
    using assms(1) by (cases ys) (auto simp: answers_def calls_at_def sorted_map map_replicate_const)
  from answers_append [OF this, of ts cs] assms(2) show ?thesis by simp
qed

lemma answers_skipped:
  assumes "list_all is_ext es"
  shows "answers n es (skipped_calls n es)"
  using assms
proof (induction es arbitrary: n)
  case (Cons t es)
  then have "t \<noteq> msg_sync" by (auto simp: is_ext_def)
  then show ?case
    using answers_Cons [of t "if t = msg_flush then [] else [Rm_message_skipped]" n es] Cons
    by (auto simp: is_sync_or_flush_def)
qed simp

lemma query_reply_nonempty:
  assumes "query_reply ac xs ys"
  shows "ys \<noteq> []"
proof -
  have one: "vs \<noteq> []" if "query_result ac us vs" for us vs using that by cases simp_all
  have more: "vs \<noteq> []" if "query_results ac us vs" for us vs using that by induction (simp_all add: one)
  from assms show ?thesis by cases (auto dest: more)
qed

lemma exec_reply_nonempty: "exec_reply ac xs ys \<Longrightarrow> ys \<noteq> []"
  by (erule exec_reply.cases) auto

lemma replies_answers: "replies ac n ts ms cs \<Longrightarrow> answers n ts cs"
proof (induction rule: replies.induct)
  case (replies_flush n ts ms cs)
  then show ?case using answers_Cons [of msg_flush "[]"] by (simp add: is_sync_or_flush_def)
next
  case (replies_sync n ts ms cs s)
  then show ?case using answers_Cons [of msg_sync "[]"] by (simp add: is_sync_or_flush_def)
next
  case (replies_simple t x y n ts ms cs)
  then show ?case using answers_Cons [of t "[y]"] by simp
next
  case (replies_execute xs ys n ts ms cs)
  then show ?case using answers_Cons [of msg_execute ys] by (simp add: exec_reply_nonempty)
next
  case (replies_query xs ys n ts ms cs s)
  then show ?case using answers_Cons [of msg_query ys] by (simp add: query_reply_nonempty)
next
  case (replies_error t xs ys es n rest ms cs e)
  have "answers (Suc n) (es @ msg_sync # rest) (skipped_calls (Suc n) es @ cs)"
    by (rule answers_append) (use replies_error answers_skipped in simp_all)
  then show ?case using answers_Cons [of t "ys @ [Rm_error_response e]"] by simp
qed simp

text \<open>
  The pace at which the composite can follow: each call is for the current handler or for the next one.
\<close>

fun paced :: "nat list \<Rightarrow> nat \<Rightarrow> call_log \<Rightarrow> bool" where
  "paced offs k [] \<longleftrightarrow> True"
| "paced offs k ((msg, n) # cs) \<longleftrightarrow>
     (let k' = (if n \<ge> offs ! k then k + 1 else k)
      in k' < length offs \<and> n < offs ! k' \<and> paced offs k' cs)"

lemma ranges_nth:
  assumes "ranges req offset offs fin" and "offs \<noteq> []"
  shows "takes_work req offset (offs ! 0)" and "offs ! (length offs - 1) = fin"
    and "Suc k < length offs \<Longrightarrow> takes_work req (offs ! k) (offs ! Suc k)"
    and "sorted offs"
  using assms
proof (induction offs arbitrary: offset k)
  case (Cons x xs)
  {
    case 1
    then show ?case by simp
  next
    case 2
    then show ?case using Cons.IH(2) [of x] by (cases xs) auto
  next
    case 3
    then show ?case using Cons.IH(1) [of x] Cons.IH(3) [of "k - 1" x] by (cases xs; cases k) auto
  next
    case 4
    then show ?case using Cons.IH(1) [of x] Cons.IH(4) [of x]
      by (cases xs) (auto simp: takes_work_def)
  }
qed simp_all

lemma ranges_paced:
  assumes "ranges req 0 offs (length (req_types req))" and "k < length offs" and "sorted (map snd cs)"
    and "\<And>x. x \<in> snd ` set cs \<Longrightarrow> x < length (req_types req)"
    and "\<And>i. offs ! k \<le> i \<Longrightarrow> i < length (req_types req) \<Longrightarrow> \<not> is_sync_or_flush (req_types req ! i) \<Longrightarrow>
      i \<in> snd ` set cs"
  shows "paced offs k cs"
  using assms(2-5)
proof (induction cs arbitrary: k)
  case (Cons c cs)
  obtain msg n where c: "c = (msg, n)" by (cases c)
  have ne: "offs \<noteq> []" using Cons.prems(1) by auto
  note R = ranges_nth [OF assms(1) ne]
  have n: "n < length (req_types req)" "\<And>x. x \<in> snd ` set cs \<Longrightarrow> n \<le> x"
    using Cons.prems(2,3) c by auto
  have k1: "Suc k < length offs \<and> n < offs ! Suc k" if "offs ! k \<le> n"
  proof -
    have "k \<noteq> length offs - 1" using that n(1) R(2) by auto
    then have lt: "Suc k < length offs" using Cons.prems(1) by auto
    have "n < offs ! Suc k"
    proof (rule ccontr)
      assume "\<not> n < offs ! Suc k"
      then obtain i where i: "offs ! k \<le> i" "i < offs ! Suc k" "\<not> is_sync_or_flush (req_types req ! i)"
        using R(3) [OF lt] n(1) by (auto simp: takes_work_def)
      then have "i < n" using \<open>\<not> n < offs ! Suc k\<close> by simp
      then have "i \<in> snd ` set cs" using Cons.prems(4) [OF i(1) _ i(3)] n(1) c by auto
      then show False using n(2) \<open>i < n\<close> by fastforce
    qed
    with lt show ?thesis by blast
  qed
  define k' where "k' = (if offs ! k \<le> n then k + 1 else k)"
  have k': "k' < length offs" "n < offs ! k'" using k1 Cons.prems(1) by (auto simp: k'_def not_le)
  have "offs ! k \<le> offs ! k'" using R(4) k'(1) by (auto simp: k'_def intro: sorted_nth_mono)
  have "paced offs k' cs"
  proof (rule Cons.IH [OF k'(1)])
    show "i \<in> snd ` set cs"
      if "offs ! k' \<le> i" "i < length (req_types req)" "\<not> is_sync_or_flush (req_types req ! i)" for i
    proof -
      have "i \<in> snd ` set (c # cs)" using Cons.prems(4) [OF _ that(2,3)] that(1) \<open>offs ! k \<le> offs ! k'\<close> by simp
      then show ?thesis using c k'(2) that(1) by auto
    qed
  qed (use Cons.prems(2,3) in auto)
  then show ?case using k' by (simp add: c k'_def)
qed simp

text \<open>The calls in the range of handler \<open>k\<close>.\<close>

definition in_range :: "nat list \<Rightarrow> nat \<Rightarrow> nat \<Rightarrow> bool" where
  "in_range offs k n \<longleftrightarrow> (k = 0 \<or> offs ! (k - 1) \<le> n) \<and> n < offs ! k"

definition calls_of :: "nat list \<Rightarrow> nat \<Rightarrow> call_log \<Rightarrow> call_log" where
  "calls_of offs k cs = filter (\<lambda>(msg, n). in_range offs k n) cs"

lemma in_range_unique:
  assumes "sorted offs" and "k < length offs" and "j < length offs" and "in_range offs k n"
  shows "in_range offs j n \<longleftrightarrow> j = k"
proof (cases j k rule: linorder_cases)
  case less
  then have "offs ! j \<le> offs ! (k - 1)" using assms(1,2) by (intro sorted_nth_mono) auto
  then show ?thesis using less assms(4) by (auto simp: in_range_def)
next
  case greater
  then have "offs ! k \<le> offs ! (j - 1)" using assms(1,3) by (intro sorted_nth_mono) auto
  then show ?thesis using greater assms(4) by (auto simp: in_range_def)
qed (use assms(4) in simp)

lemma run_paced:
  assumes "paced offs (rp_current r) cs" and "rp_offsets r = offs" and "length (rp_handlers r) = length offs"
    and "sorted offs" and "sorted (map snd cs)"
    and "\<And>x. x \<in> snd ` set cs \<Longrightarrow> rp_current r = 0 \<or> offs ! (rp_current r - 1) \<le> x"
    and "rp_current r < length offs"
    and "length ss = length offs"
    and "\<And>k. k < length offs \<Longrightarrow>
      run_calls (fst (rp_handlers r ! k)) (calls_of offs k cs) (snd (rp_handlers r ! k)) = Inr (ss ! k)"
  shows "\<exists>r'. run_calls response cs r = Inr r' \<and> map snd (rp_handlers r') = ss \<and>
    map fst (rp_handlers r') = map fst (rp_handlers r)"
  using assms
proof (induction cs arbitrary: r)
  case Nil
  then have "map snd (rp_handlers r) = ss" by (intro nth_equalityI) (auto simp: calls_of_def)
  then show ?case by simp
next
  case (Cons c cs)
  obtain msg n where c: "c = (msg, n)" by (cases c)
  define k where "k = (if n \<ge> offs ! rp_current r then rp_current r + 1 else rp_current r)"
  have k: "k < length offs" "n < offs ! k" "paced offs k cs" using Cons.prems(1) by (auto simp: c k_def Let_def)
  have rng: "in_range offs k n"
    using k(2) Cons.prems(6) [of n] by (auto simp: in_range_def k_def c)
  obtain ops s where h: "rp_handlers r ! k = (ops, s)" by fastforce
  have own: "calls_of offs k (c # cs) = (msg, n) # calls_of offs k cs" using rng by (simp add: calls_of_def c)
  have other: "calls_of offs j (c # cs) = calls_of offs j cs" if "j < length offs" "j \<noteq> k" for j
    using in_range_unique [OF Cons.prems(4) k(1) that(1) rng] that(2) by (simp add: calls_of_def c)
  obtain t where t: "ho_on_message ops msg n s = Inr t" "run_calls ops (calls_of offs k cs) t = Inr (ss ! k)"
    using Cons.prems(9) [OF k(1)] own h by (auto split: sum.splits)
  define r' where "r' = r\<lparr>rp_handlers := (rp_handlers r)[k := (ops, t)], rp_current := k\<rparr>"
  have step: "rp_on_message msg n r = Inr r'"
    using Cons.prems(2,7) k(1,2) h t(1)
    by (auto simp: rp_on_message_def Let_def r'_def k_def [symmetric] not_le split: if_splits)
  have "\<exists>r''. run_calls response cs r' = Inr r'' \<and> map snd (rp_handlers r'') = ss \<and>
      map fst (rp_handlers r'') = map fst (rp_handlers r')"
  proof (rule Cons.IH)
    show "rp_current r' = 0 \<or> offs ! (rp_current r' - 1) \<le> x" if "x \<in> snd ` set cs" for x
      using that Cons.prems(5) rng by (fastforce simp: r'_def c in_range_def)
    show "run_calls (fst (rp_handlers r' ! j)) (calls_of offs j cs) (snd (rp_handlers r' ! j)) = Inr (ss ! j)"
      if "j < length offs" for j
      using that other [of j] Cons.prems(3) Cons.prems(9) [of j] t(2) by (cases "j = k") (auto simp: r'_def)
  qed (use Cons.prems k in \<open>auto simp: r'_def\<close>)
  moreover have "map fst (rp_handlers r') = map fst (rp_handlers r)"
    using h k(1) Cons.prems(3) by (auto simp: r'_def map_update list_update_same_conv)
  ultimately show ?case using step by (simp add: c response_def)
qed

end
