(* ===== verification/Pg_Dispatch.thy ===== *)
theory Pg_Dispatch
  imports Pg_Responses_Facts
begin

text \<open>
  The composite handler in a conversation, and what setup accepts: every call reaches the handler whose
  range it is in, the message sequences that a resultset handler takes are characterized, and so are the
  two cases in which the code goes wrong, a setup with nothing left to take and a composite that is used
  a second time.
\<close>

section \<open>Setup\<close>

definition quiet :: "request_message_type \<Rightarrow> bool" where
  "quiet t \<longleftrightarrow> t = msg_parse \<or> t = msg_bind \<or> t = msg_sync \<or> t = msg_flush"

lemma quiet_simps [simp]:
  "quiet msg_parse" "quiet msg_bind" "quiet msg_sync" "quiet msg_flush"
  "\<not> quiet msg_describe" "\<not> quiet msg_execute" "\<not> quiet msg_query" "\<not> quiet msg_close"
  by (simp_all add: quiet_def)

lemma ex_list: "(\<exists>xs. P xs) \<longleftrightarrow> P [] \<or> (\<exists>x xs. P (x # xs))"
  by (metis list.exhaust)

lemma scan_found_iff:
  "resultset_scan True ts = Inr (True, rest) \<longleftrightarrow> (\<exists>b. ts = b @ msg_execute # rest \<and> list_all quiet b)"
proof (induction ts)
  case (Cons t ts)
  have "(\<exists>b. t # ts = b @ msg_execute # rest \<and> list_all quiet b) \<longleftrightarrow>
      (t = msg_execute \<and> ts = rest) \<or> (quiet t \<and> (\<exists>b. ts = b @ msg_execute # rest \<and> list_all quiet b))"
    by (subst ex_list) auto
  with Cons show ?case by (cases t) simp_all
qed simp

lemma scan_iff:
  "resultset_scan False ts = Inr (True, rest) \<longleftrightarrow>
     (\<exists>a b. ts = a @ msg_describe # b @ msg_execute # rest \<and> list_all quiet a \<and> list_all quiet b)"
proof (induction ts)
  case (Cons t ts)
  have "(\<exists>a b. t # ts = a @ msg_describe # b @ msg_execute # rest \<and> list_all quiet a \<and> list_all quiet b) \<longleftrightarrow>
      (t = msg_describe \<and> (\<exists>b. ts = b @ msg_execute # rest \<and> list_all quiet b)) \<or>
      (quiet t \<and> (\<exists>a b. ts = a @ msg_describe # b @ msg_execute # rest \<and> list_all quiet a \<and> list_all quiet b))"
    by (subst ex_list) auto
  with Cons show ?case by (cases t) (simp_all add: scan_found_iff)
qed simp

lemma skip_syncs_append:
  "list_all is_sync_or_flush syncs \<Longrightarrow> skip_syncs (syncs @ ts) = skip_syncs ts"
  by (induction syncs) (simp_all add: skip_syncs_def)

lemma skip_syncs_split:
  obtains syncs where "ts = syncs @ skip_syncs ts" "list_all is_sync_or_flush syncs"
  using that [of "takeWhile is_sync_or_flush ts"]
  by (simp add: skip_syncs_def list_all_iff) (meson set_takeWhileD)

lemma skip_syncs_id: "ts = [] \<or> \<not> is_sync_or_flush (hd ts) \<Longrightarrow> skip_syncs ts = ts"
  by (cases ts) (auto simp: skip_syncs_def)

lemma skip_syncs_idem: "skip_syncs (skip_syncs ts) = skip_syncs ts"
  using skip_syncs_ConsD [of ts] by (cases "skip_syncs ts") (auto intro: skip_syncs_id)

lemma quiet_syncs: "list_all is_sync_or_flush syncs \<Longrightarrow> list_all quiet syncs"
  by (auto simp: list_all_iff is_sync_or_flush_def quiet_def)

text \<open>
  The setup of a resultset handler succeeds exactly on these messages: leading Sync and Flush
  messages, then either a single Query, or a Describe and later an Execute with nothing but Parse, Bind,
  Sync and Flush before and between them, followed by all the Sync and Flush messages there are.
\<close>

theorem resultset_setup_iff:
  "resultset_setup req offset = Inr (Inr offset') \<longleftrightarrow> offset \<le> length (req_types req) \<and>
     (\<exists>syncs body rest. drop offset (req_types req) = syncs @ body @ rest \<and> list_all is_sync_or_flush syncs \<and>
        offset' = length (req_types req) - length rest \<and>
        (body = [msg_query] \<or>
         (\<exists>a b c. body = a @ msg_describe # b @ msg_execute # c \<and> list_all quiet a \<and> list_all quiet b \<and>
            list_all is_sync_or_flush c \<and> skip_syncs rest = rest)))"
  (is "?l \<longleftrightarrow> ?le \<and> ?r")
proof (cases "?le")
  case True
  let ?ts = "drop offset (req_types req)"
  obtain syncs where s: "?ts = syncs @ skip_syncs ?ts" "list_all is_sync_or_flush syncs" by (rule skip_syncs_split)
  have "?l \<longleftrightarrow> ?r"
  proof
    assume ?l
    then obtain t ts where t: "skip_syncs ?ts = t # ts"
      and c: "(t = msg_query \<and> offset' = offset_at req ts) \<or>
        (\<exists>rest. resultset_scan False (t # ts) = Inr (True, rest) \<and> offset' = offset_at req (skip_syncs rest))"
      using True by (auto simp: resultset_setup_def split: list.splits if_splits sum.splits)
    from c show ?r
    proof (elim disjE conjE exE)
      assume "t = msg_query" "offset' = offset_at req ts"
      then show ?r using s t by (intro exI [of _ syncs] exI [of _ "[msg_query]"] exI [of _ ts]) (simp add: offset_at_def)
    next
      fix rest
      assume "resultset_scan False (t # ts) = Inr (True, rest)" and o: "offset' = offset_at req (skip_syncs rest)"
      then obtain a b where ab: "t # ts = a @ msg_describe # b @ msg_execute # rest" "list_all quiet a" "list_all quiet b"
        unfolding scan_iff by blast
      obtain c where c: "rest = c @ skip_syncs rest" "list_all is_sync_or_flush c" by (rule skip_syncs_split)
      have "?ts = syncs @ (a @ msg_describe # b @ msg_execute # c) @ skip_syncs rest"
        using s(1) t ab(1) c(1) by (metis append.assoc append_Cons)
      then show ?r using s(2) o ab(2,3) c(2) skip_syncs_idem [of rest] unfolding offset_at_def by blast
    qed
  next
    assume ?r
    then obtain syncs' body rest where e: "?ts = syncs' @ body @ rest" "list_all is_sync_or_flush syncs'"
        "offset' = length (req_types req) - length rest"
      and b: "body = [msg_query] \<or>
         (\<exists>a b c. body = a @ msg_describe # b @ msg_execute # c \<and> list_all quiet a \<and> list_all quiet b \<and>
            list_all is_sync_or_flush c \<and> skip_syncs rest = rest)" by blast
    have sk: "skip_syncs ?ts = skip_syncs (body @ rest)" using e(1) skip_syncs_append [OF e(2)] by metis
    from b show ?l
    proof (rule disjE)
      assume "body = [msg_query]"
      then show ?l using True sk e(3)
        by (simp add: resultset_setup_def skip_syncs_def is_sync_or_flush_def offset_at_def)
    next
      assume "\<exists>a b c. body = a @ msg_describe # b @ msg_execute # c \<and> list_all quiet a \<and> list_all quiet b \<and>
            list_all is_sync_or_flush c \<and> skip_syncs rest = rest"
      then obtain a b c where body: "body = a @ msg_describe # b @ msg_execute # c"
        and q: "list_all quiet a" "list_all quiet b" and c: "list_all is_sync_or_flush c"
        and rest: "skip_syncs rest = rest" by blast
      obtain a0 where a0: "a = a0 @ skip_syncs a" "list_all is_sync_or_flush a0" by (rule skip_syncs_split)
      let ?m = "skip_syncs a @ msg_describe # b @ msg_execute # c @ rest"
      have "hd ?m \<noteq> msg_query \<and> \<not> is_sync_or_flush (hd ?m)"
      proof (cases "skip_syncs a")
        case (Cons u us)
        then have "u \<in> set a" using a0(1) by (metis in_set_conv_decomp)
        then have "quiet u" using q(1) by (simp add: list_all_iff)
        then show ?thesis using Cons skip_syncs_ConsD [OF Cons] by (auto simp: quiet_def)
      qed (simp add: is_sync_or_flush_def)
      moreover have "skip_syncs ?ts = skip_syncs ?m"
        unfolding sk body using skip_syncs_append [OF a0(2), of ?m] a0(1) by (metis append.assoc append_Cons)
      ultimately have m: "skip_syncs ?ts = ?m" "hd ?m \<noteq> msg_query" using skip_syncs_id by auto
      have "list_all quiet (skip_syncs a)" using a0(1) q(1) by (metis list_all_append)
      then have "resultset_scan False ?m = Inr (True, c @ rest)" using q(2) unfolding scan_iff by blast
      moreover have "skip_syncs (c @ rest) = rest" using skip_syncs_append [OF c] rest by simp
      moreover obtain u us where "?m = u # us" by (cases ?m) simp_all
      ultimately show ?l using True m e(3) by (simp add: resultset_setup_def offset_at_def)
    qed
  qed
  with True show ?thesis by blast
qed (simp add: resultset_setup_def)

section \<open>Dispatch\<close>

lemma setup_requestE:
  assumes "setup_request ops req s = Inr (None, s')"
  shows "check_request req = None" and "ho_setup ops req 0 s = Inr (Inr (length (req_types req)), s')"
  using assms by (auto simp: setup_request_def split: option.splits sum.splits if_splits)

text \<open>
  C13. A composite of lawful handlers, set up for a request, follows every conversation the protocol
  prescribes: neither its assertion on the offset nor its array accesses fail, and each handler gets
  exactly the calls for the messages between the previous handler's offset and its own, in order. The
  states the handlers end in are those of running each of them alone on its calls.
\<close>

theorem response_dispatches:
  assumes "hs \<noteq> []" and "list_all lawful hs"
    and "setup_request response req (response_init hs) = Inr (None, r)"
    and "replies ac 0 (req_types req) (sync_messages ms) cs"
    and "length ss = length hs"
    and "\<forall>k < length hs. run_calls (fst (hs ! k)) (calls_of (rp_offsets r) k cs) (snd (rp_handlers r ! k)) = Inr (ss ! k)"
  shows "\<exists>f' rest r'. rr_run (guarded response) ms (read_response_fsm_init req (Inr r) ac) = Some (Fsm_done None, f', rest) \<and>
    sync_messages rest = [] \<and> rr_handler f' = Inr r' \<and> map snd (rp_handlers r') = ss"
proof -
  let ?n = "length (req_types req)"
  note chk = setup_requestE [OF assms(3)]
  have st: "rp_setup req 0 (response_init hs) = Inr (Inr ?n, r)" using chk(2) by (simp add: response_def)
  have ok0: "response_ok (response_init hs)" using assms(1,2) by (simp add: response_ok_def response_init_def)
  note ok = rp_setup_ok [OF st ok0]
  have len: "length (rp_handlers r) = length hs" "length (rp_offsets r) = length hs" "rp_current r = 0"
    using ok map_eq_imp_length_eq [OF ok(2)] by (auto simp: response_ok_def response_init_def)
  have rng: "ranges req 0 (rp_offsets r) ?n" using rp_setup_ranges [OF st ok0] by simp
  have ans: "answers 0 (req_types req) cs" using replies_answers [OF assms(4)] .
  have fst_eq: "fst (rp_handlers r ! k) = fst (hs ! k)" if "k < length hs" for k
    using ok(2) len(1) that by (metis nth_map response_init_def response.select_convs(1))
  have ne: "rp_offsets r \<noteq> []" using len(2) assms(1) by auto
  have "paced (rp_offsets r) 0 cs"
    by (rule ranges_paced [OF rng]) (use assms(1) len ans in \<open>auto simp: answers_def\<close>)
  then have "\<exists>r'. run_calls response cs r = Inr r' \<and> map snd (rp_handlers r') = ss \<and>
      map fst (rp_handlers r') = map fst (rp_handlers r)"
    using ranges_nth(4) [OF rng ne] assms(1,5,6) len ans fst_eq
    by (intro run_paced [where offs = "rp_offsets r"]) (auto simp: answers_def)
  then obtain r' where r': "run_calls response cs r = Inr r'" "map snd (rp_handlers r') = ss" by blast
  from handler_run [OF chk(1) assms(4), of response r] show ?thesis using r' by auto
qed

definition parse_then_close :: request where
  "parse_then_close = \<lparr>req_buffer = [], req_types = [msg_parse, msg_sync, msg_close, msg_sync], req_autosync = True\<rparr>"

definition two_checks :: "(extended_error handler_ops \<times> extended_error) list" where
  "two_checks = [(check_parse, no_error), (check_close, no_error)]"

lemma two_checks_lawful: "list_all lawful two_checks"
  using check_parse_h.response_handler_axioms check_close_h.response_handler_axioms
  by (auto simp: two_checks_def lawful_def)

lemmas setup_evals = setup_request_def check_request_def response_def rp_setup_def check_setup_impl_def
  with_state_def skip_syncs_def is_sync_or_flush_def offset_at_def no_error_def

lemma two_checks_setup:
  assumes "rp_handlers r = two_checks" and "length (rp_offsets r) = 2"
  shows "setup_request response parse_then_close r = Inr (None, r\<lparr>rp_handlers := two_checks, rp_offsets := [2, 4]\<rparr>)"
proof -
  obtain x y where "rp_offsets r = [x, y]" using assms(2) by (auto simp: length_Suc_conv numeral_2_eq_2)
  then show ?thesis using assms(1)
    by (simp add: setup_evals parse_then_close_def two_checks_def check_parse_def check_close_def)
qed

theorem response_dispatches_witness:
  "\<exists>f' rest r'. rr_run (guarded response)
      [Parse_complete, Ready_for_query status_idle, Error_response no_error_fields, Ready_for_query status_idle]
      (read_response_fsm_init parse_then_close (Inr ((response_init two_checks)\<lparr>rp_offsets := [2, 4]\<rparr>)) False) =
        Some (Fsm_done None, f', rest) \<and>
    sync_messages rest = [] \<and> rr_handler f' = Inr r' \<and>
    map snd (rp_handlers r') = [no_error, store_error no_error_fields]"
proof (rule response_dispatches [of two_checks _ _ _ _ "[(Rm_parse_complete, 0), (Rm_error_response no_error_fields, 2)]"])
  show "setup_request response parse_then_close (response_init two_checks) =
      Inr (None, (response_init two_checks)\<lparr>rp_offsets := [2, 4]\<rparr>)"
    using two_checks_setup [of "response_init two_checks"] by (simp add: response_init_def two_checks_def)
  have "replies False (Suc (Suc (Suc 0))) [msg_sync] [Ready_for_query status_idle] []"
    by (rule replies_sync [OF replies_end])
  then have "replies False (Suc (Suc 0)) [msg_close, msg_sync]
      [Error_response no_error_fields, Ready_for_query status_idle] [(Rm_error_response no_error_fields, 2)]"
    using replies_error [of msg_close False "[]" "[]" "[]" "Suc (Suc 0)" "[]" "[Ready_for_query status_idle]" "[]" no_error_fields]
    by (simp add: is_ext_def numeral_2_eq_2)
  from replies_simple [OF simple_reply.intros(1) replies_sync [OF this]]
  show "replies False 0 (req_types parse_then_close)
      (sync_messages [Parse_complete, Ready_for_query status_idle, Error_response no_error_fields, Ready_for_query status_idle])
      [(Rm_parse_complete, 0), (Rm_error_response no_error_fields, 2)]"
    by (simp add: parse_then_close_def sync_messages_def)
  show "\<forall>k < length two_checks.
      run_calls (fst (two_checks ! k)) (calls_of (rp_offsets ((response_init two_checks)\<lparr>rp_offsets := [2, 4]\<rparr>)) k
        [(Rm_parse_complete, 0), (Rm_error_response no_error_fields, 2)])
        (snd (rp_handlers ((response_init two_checks)\<lparr>rp_offsets := [2, 4]\<rparr>) ! k)) =
      Inr ([no_error, store_error no_error_fields] ! k)"
    by (simp add: two_checks_def response_init_def All_less_Suc calls_of_def in_range_def check_parse_def
        check_close_def maybe_store_error_of_def maybe_store_error_def)
qed (simp_all add: two_checks_lawful, simp_all add: two_checks_def)

section \<open>Where the code goes wrong\<close>

text \<open>
  The setup of a resultset handler reads past the end of the messages exactly when only Sync and Flush
  messages are left for it. A response with more resultset handlers than the request has commands
  runs into this, although the request itself is accepted.
\<close>

theorem setup_reads_past_the_end:
  "(resultset_setup req offset = Inl Past_the_end \<longleftrightarrow>
      length (req_types req) < offset \<or> list_all is_sync_or_flush (drop offset (req_types req))) \<and>
   check_request \<lparr>req_buffer = [], req_types = [msg_query], req_autosync = True\<rparr> = None \<and>
   setup_request response \<lparr>req_buffer = [], req_types = [msg_query], req_autosync = True\<rparr>
     (response_init [(check_execute, \<lparr>ce_info = None, ce_err = no_error\<rparr>),
                     (check_execute, \<lparr>ce_info = None, ce_err = no_error\<rparr>)]) = Inl Past_the_end"
proof (intro conjI)
  show "resultset_setup req offset = Inl Past_the_end \<longleftrightarrow>
      length (req_types req) < offset \<or> list_all is_sync_or_flush (drop offset (req_types req))"
  proof -
    have all: "list_all is_sync_or_flush ts \<longleftrightarrow> skip_syncs ts = []" for ts
      by (simp add: skip_syncs_def dropWhile_eq_Nil_conv list_all_iff)
    show ?thesis unfolding all by (auto simp: resultset_setup_def split: list.splits sum.splits prod.splits)
  qed
qed (simp_all add: setup_evals response_init_def check_execute_def check_execute_setup_def resultset_setup_def)

text \<open>
  Setting a composite up again does not start it again: the position of the current handler stays
  where the first use left it, so in a second use with the same request an error in the reply to the
  first message is given to the second handler, and the first reports success.
\<close>

theorem response_reuse_misroutes:
  "\<exists>r r1 r2 r3.
     setup_request response parse_then_close (response_init two_checks) = Inr (None, r) \<and>
     run_calls response [(Rm_parse_complete, 0), (Rm_close_complete, 2)] r = Inr r1 \<and>
     setup_request response parse_then_close r1 = Inr (None, r2) \<and>
     run_calls response [(Rm_error_response e, 0), (Rm_close_complete, 2)] r2 = Inr r3 \<and>
     map snd (rp_handlers r3) = [no_error, store_error e]"
proof -
  let ?r = "(response_init two_checks)\<lparr>rp_offsets := [2, 4]\<rparr>"
  have 1: "setup_request response parse_then_close (response_init two_checks) = Inr (None, ?r)"
    using two_checks_setup [of "response_init two_checks"] by (simp add: response_init_def two_checks_def)
  have 2: "run_calls response [(Rm_parse_complete, 0), (Rm_close_complete, 2)] ?r = Inr (?r\<lparr>rp_current := 1\<rparr>)"
    by (simp add: response_def rp_on_message_def two_checks_def response_init_def check_parse_def check_close_def
        maybe_store_error_of_def)
  have 3: "setup_request response parse_then_close (?r\<lparr>rp_current := 1\<rparr>) = Inr (None, ?r\<lparr>rp_current := 1\<rparr>)"
    using two_checks_setup [of "?r\<lparr>rp_current := 1\<rparr>"] by (simp add: response_init_def two_checks_def)
  have 4: "run_calls response [(Rm_error_response e, 0), (Rm_close_complete, 2)] (?r\<lparr>rp_current := 1\<rparr>) =
      Inr (?r\<lparr>rp_current := 1, rp_handlers := [(check_parse, no_error), (check_close, store_error e)]\<rparr>)"
    by (simp add: response_def rp_on_message_def two_checks_def response_init_def check_close_def
        maybe_store_error_of_def maybe_store_error_def no_error_def)
  from 1 2 3 4 show ?thesis by (intro exI conjI) (assumption | simp)+
qed

end
