(* ===== verification/Pg_Resultsets.thy ===== *)
theory Pg_Resultsets
  imports Pg_Dispatch
begin

text \<open>
  Owned results: the storage classes of \<^verbatim>\<open>responses/resultsets.hpp\<close>, \<^verbatim>\<open>field_descriptions.hpp\<close> and
  \<^verbatim>\<open>detail/dynamic_utils.hpp\<close>, which keep all strings and values in one byte vector and refer to them
  by offset and length, the views that read them, and the handlers \<^verbatim>\<open>resultsets_handler\<close> and
  \<^verbatim>\<open>describe_into\<close> of \<^verbatim>\<open>responses.cpp\<close> that fill them. A read that would leave a vector is a fault.
\<close>

section \<open>Storage\<close>

record offset_and_length =
  ol_offset :: nat
  ol_length :: nat

definition subspan :: "nat \<Rightarrow> nat \<Rightarrow> 'a list \<Rightarrow> 'a list checked" where
  "subspan offset len xs =
     (if offset + len \<le> length xs then Inr (take len (drop offset xs)) else Inl Past_the_end)"

definition to_field_view :: "bytes \<Rightarrow> offset_and_length \<Rightarrow> field_view checked" where
  "to_field_view data ol =
     (if ol_length ol = size_max then Inr None else map_sum id Some (subspan (ol_offset ol) (ol_length ol) data))"

definition to_string_view :: "bytes \<Rightarrow> offset_and_length \<Rightarrow> string_view checked" where
  "to_string_view data ol = subspan (ol_offset ol) (ol_length ol) data"

record offsetted_field_description =
  ofd_name :: offset_and_length
  ofd_table_oid :: int32
  ofd_column_attribute :: int16
  ofd_type_oid :: int32
  ofd_type_length :: int16
  ofd_type_modifier :: int32
  ofd_fmt_code :: format_code

definition to_field_description :: "bytes \<Rightarrow> offsetted_field_description \<Rightarrow> field_description checked" where
  "to_field_description data d =
     map_sum id (\<lambda>name. \<lparr>fd_name = name, fd_table_oid = ofd_table_oid d,
         fd_column_attribute = ofd_column_attribute d, fd_type_oid = ofd_type_oid d,
         fd_type_length = ofd_type_length d, fd_type_modifier = ofd_type_modifier d,
         fd_fmt_code = ofd_fmt_code d\<rparr>)
       (to_string_view data (ofd_name d))"

definition insert_data :: "bytes \<Rightarrow> bytes \<Rightarrow> (offset_and_length \<times> bytes) checked" where
  "insert_data to value =
     (if length value = size_max then Inl Assertion_failed
      else Inr (\<lparr>ol_offset = length to, ol_length = length value\<rparr>, to @ value))"

text \<open>The loop over the descriptions of \<^verbatim>\<open>field_descriptions::assign\<close> and \<^verbatim>\<open>resultsets::add_row_description\<close>.\<close>

fun push_descriptions ::
    "field_description list \<Rightarrow> offsetted_field_description list \<Rightarrow> bytes \<Rightarrow>
     (offsetted_field_description list \<times> bytes) checked" where
  "push_descriptions [] descrs data = Inr (descrs, data)"
| "push_descriptions (d # ds) descrs data =
     (case insert_data data (fd_name d) of
        Inl fault \<Rightarrow> Inl fault
      | Inr (name, data') \<Rightarrow>
          push_descriptions ds
            (descrs @ [\<lparr>ofd_name = name, ofd_table_oid = fd_table_oid d,
               ofd_column_attribute = fd_column_attribute d, ofd_type_oid = fd_type_oid d,
               ofd_type_length = fd_type_length d, ofd_type_modifier = fd_type_modifier d,
               ofd_fmt_code = fd_fmt_code d\<rparr>]) data')"

text \<open>The items a message's view yields; a malformed view reads past its end.\<close>

definition description_items :: "forward_parsing_view \<Rightarrow> field_description list checked" where
  "description_items v =
     (case fpv_items field_description_dereference field_description_advance (fpv_data v) of
        None \<Rightarrow> Inl Past_the_end
      | Some ds \<Rightarrow> Inr ds)"

definition column_items :: "forward_parsing_view \<Rightarrow> field_view list checked" where
  "column_items v =
     (case fpv_items field_view_dereference field_view_advance (fpv_data v) of
        None \<Rightarrow> Inl Past_the_end
      | Some cols \<Rightarrow> Inr cols)"

record field_descriptions =
  fds_field_descr :: "offsetted_field_description list"
  fds_data :: bytes

definition fds_clear :: field_descriptions where
  "fds_clear = \<lparr>fds_field_descr = [], fds_data = []\<rparr>"

definition fds_assign :: "forward_parsing_view \<Rightarrow> field_descriptions \<Rightarrow> field_descriptions checked" where
  "fds_assign row_descr obj =
     (case description_items row_descr of
        Inl fault \<Rightarrow> Inl fault
      | Inr ds \<Rightarrow>
          map_sum id (\<lambda>(descrs, data). \<lparr>fds_field_descr = descrs, fds_data = data\<rparr>)
            (push_descriptions ds (fds_field_descr fds_clear) (fds_data fds_clear)))"

record resultset_descriptor =
  rd_err :: extended_error
  rd_info :: command_info
  rd_descr :: offset_and_length
  rd_values :: offset_and_length

record resultsets =
  rt_field_descr :: "offsetted_field_description list"
  rt_values :: "offset_and_length list"
  rt_resultsets :: "resultset_descriptor list"
  rt_data :: bytes

definition rt_clear :: resultsets where
  "rt_clear = \<lparr>rt_field_descr = [], rt_values = [], rt_resultsets = [], rt_data = []\<rparr>"

definition add_row_description :: "forward_parsing_view \<Rightarrow> resultsets \<Rightarrow> resultsets checked" where
  "add_row_description row_descr r =
     (case description_items row_descr of
        Inl fault \<Rightarrow> Inl fault
      | Inr ds \<Rightarrow>
          map_sum id (\<lambda>(descrs, data). r\<lparr>rt_field_descr := descrs, rt_data := data\<rparr>)
            (push_descriptions ds (rt_field_descr r) (rt_data r)))"

text \<open>The loop of \<^verbatim>\<open>resultsets::add_row\<close>. A NULL has the largest length.\<close>

fun push_values :: "field_view list \<Rightarrow> offset_and_length list \<Rightarrow> bytes \<Rightarrow> (offset_and_length list \<times> bytes) checked" where
  "push_values [] values data = Inr (values, data)"
| "push_values (None # fvs) values data =
     push_values fvs (values @ [\<lparr>ol_offset = 0, ol_length = size_max\<rparr>]) data"
| "push_values (Some bs # fvs) values data =
     (case insert_data data bs of
        Inl fault \<Rightarrow> Inl fault
      | Inr (v, data') \<Rightarrow> push_values fvs (values @ [v]) data')"

definition add_row :: "forward_parsing_view \<Rightarrow> resultsets \<Rightarrow> resultsets checked" where
  "add_row row r =
     (case column_items row of
        Inl fault \<Rightarrow> Inl fault
      | Inr cols \<Rightarrow>
          map_sum id (\<lambda>(values, data). r\<lparr>rt_values := values, rt_data := data\<rparr>)
            (push_values cols (rt_values r) (rt_data r)))"

text \<open>The product of the two sizes wraps around.\<close>

definition finish_resultset ::
    "nat \<Rightarrow> nat \<Rightarrow> command_info \<Rightarrow> extended_error \<Rightarrow> resultsets \<Rightarrow> resultsets checked" where
  "finish_resultset num_rows num_cols info err r =
     (let num_values = (num_cols * num_rows) mod (size_max + 1)
      in if \<not> (length (rt_field_descr r) \<ge> num_cols \<and> length (rt_values r) \<ge> num_values)
         then Inl Assertion_failed
         else Inr (r\<lparr>rt_resultsets := rt_resultsets r @
           [\<lparr>rd_err = err, rd_info = info,
             rd_descr = \<lparr>ol_offset = length (rt_field_descr r) - num_cols, ol_length = num_cols\<rparr>,
             rd_values = \<lparr>ol_offset = length (rt_values r) - num_values, ol_length = num_values\<rparr>\<rparr>]\<rparr>))"

section \<open>Views\<close>

record rows_view =
  rv_values :: "offset_and_length list"
  rv_num_columns :: nat

definition rows_view_init :: "offset_and_length list \<Rightarrow> nat \<Rightarrow> rows_view checked" where
  "rows_view_init values num_columns =
     (if values = [] \<or> length values mod num_columns = 0
      then Inr \<lparr>rv_values = values, rv_num_columns = num_columns\<rparr> else Inl Assertion_failed)"

definition rv_size :: "rows_view \<Rightarrow> nat" where
  "rv_size v = (if rv_num_columns v = 0 then 0 else length (rv_values v) div rv_num_columns v)"

definition rv_at :: "rows_view \<Rightarrow> nat \<Rightarrow> offset_and_length list checked" where
  "rv_at v i = subspan (i * rv_num_columns v) (rv_num_columns v) (rv_values v)"

fun collect :: "('a \<Rightarrow> 'b checked) \<Rightarrow> 'a list \<Rightarrow> 'b list checked" where
  "collect f [] = Inr []"
| "collect f (x # xs) =
     (case f x of
        Inl fault \<Rightarrow> Inl fault
      | Inr y \<Rightarrow> (case collect f xs of Inl fault \<Rightarrow> Inl fault | Inr ys \<Rightarrow> Inr (y # ys)))"

text \<open>The members of \<^verbatim>\<open>resultset_view\<close>.\<close>

definition rs_field_descriptions :: "resultsets \<Rightarrow> resultset_descriptor \<Rightarrow> field_description list checked" where
  "rs_field_descriptions r d =
     (case subspan (ol_offset (rd_descr d)) (ol_length (rd_descr d)) (rt_field_descr r) of
        Inl fault \<Rightarrow> Inl fault
      | Inr descrs \<Rightarrow> collect (to_field_description (rt_data r)) descrs)"

definition rs_rows :: "resultsets \<Rightarrow> resultset_descriptor \<Rightarrow> rows_view checked" where
  "rs_rows r d =
     (case subspan (ol_offset (rd_values d)) (ol_length (rd_values d)) (rt_values r) of
        Inl fault \<Rightarrow> Inl fault
      | Inr values \<Rightarrow> rows_view_init values (ol_length (rd_descr d)))"

text \<open>Iterating over the rows of a view and the values of each row.\<close>

definition rows_items :: "bytes \<Rightarrow> rows_view \<Rightarrow> field_view list list checked" where
  "rows_items data v =
     collect (\<lambda>i. case rv_at v i of Inl fault \<Rightarrow> Inl fault | Inr ols \<Rightarrow> collect (to_field_view data) ols)
       [0..<rv_size v]"

record resultset_content =
  rc_err :: extended_error
  rc_info :: command_info
  rc_descr :: "field_description list"
  rc_rows :: "field_view list list"

definition read_resultset :: "resultsets \<Rightarrow> resultset_descriptor \<Rightarrow> resultset_content checked" where
  "read_resultset r d =
     (case rs_field_descriptions r d of
        Inl fault \<Rightarrow> Inl fault
      | Inr ds \<Rightarrow>
          (case rs_rows r d of
             Inl fault \<Rightarrow> Inl fault
           | Inr v \<Rightarrow>
               map_sum id (\<lambda>rows. \<lparr>rc_err = rd_err d, rc_info = rd_info d, rc_descr = ds, rc_rows = rows\<rparr>)
                 (rows_items (rt_data r) v)))"

definition read_resultsets :: "resultsets \<Rightarrow> resultset_content list checked" where
  "read_resultsets r = collect (read_resultset r) (rt_resultsets r)"

section \<open>Handlers\<close>

datatype resultsets_state = rh_parsing_meta | rh_parsing_data

record resultsets_handler_t =
  rh_obj :: resultsets
  rh_err :: extended_error
  rh_state :: resultsets_state
  rh_num_cols :: nat
  rh_num_rows :: nat

definition rh_reset_state :: "resultsets_handler_t \<Rightarrow> resultsets_handler_t" where
  "rh_reset_state h = h\<lparr>rh_state := rh_parsing_meta, rh_num_cols := 0, rh_num_rows := 0\<rparr>"

lemma resultset_setup_progress:
  assumes "resultset_setup req offset = Inr (Inr offset')" and "offset < length (req_types req)"
  shows "offset < offset'"
  using resultset_setup_takes [OF assms(1)] assms(2) by (auto simp: takes_work_def)

definition setup_left :: "request \<times> handler_setup_result checked \<Rightarrow> nat" where
  "setup_left = (\<lambda>(req, r). case r of Inr (Inr offset) \<Rightarrow> Suc (length (req_types req)) - offset | _ \<Rightarrow> 0)"

function resultsets_setup_loop :: "request \<Rightarrow> handler_setup_result checked \<Rightarrow> handler_setup_result checked" where
  "resultsets_setup_loop req (Inl fault) = Inl fault"
| "resultsets_setup_loop req (Inr (Inl ec)) = Inr (Inl ec)"
| "resultsets_setup_loop req (Inr (Inr offset)) =
     (if offset \<ge> length (req_types req) then Inr (Inr offset)
      else resultsets_setup_loop req (resultset_setup req offset))"
  by pat_completeness auto
termination
proof (relation "measure setup_left")
  fix req :: request and offset
  assume "\<not> length (req_types req) \<le> offset"
  then show "((req, resultset_setup req offset), (req, Inr (Inr offset))) \<in> measure setup_left"
    using resultset_setup_progress [of req offset] by (fastforce simp: setup_left_def split: sum.splits)
qed simp

definition resultsets_handler_setup ::
    "request \<Rightarrow> nat \<Rightarrow> resultsets_handler_t \<Rightarrow> (handler_setup_result \<times> resultsets_handler_t) checked" where
  "resultsets_handler_setup req offset h =
     with_state (rh_reset_state (h\<lparr>rh_obj := rt_clear, rh_err := no_error\<rparr>))
       (resultsets_setup_loop req (resultset_setup req offset))"

text \<open>A finished resultset: the object is updated and the state is reset.\<close>

definition rh_finish ::
    "command_info \<Rightarrow> extended_error \<Rightarrow> resultsets_handler_t \<Rightarrow> resultsets_handler_t checked" where
  "rh_finish info err h =
     map_sum id (\<lambda>obj. rh_reset_state (h\<lparr>rh_obj := obj\<rparr>))
       (finish_resultset (rh_num_rows h) (rh_num_cols h) info err (rh_obj h))"

definition resultsets_handler_on_message ::
    "any_request_message \<Rightarrow> nat \<Rightarrow> resultsets_handler_t \<Rightarrow> resultsets_handler_t checked" where
  "resultsets_handler_on_message msg offset h =
     (case msg of
        Rm_bind_complete \<Rightarrow> Inr h
      | Rm_parse_complete \<Rightarrow> Inr h
      | Rm_row_description d \<Rightarrow>
          if rh_state h \<noteq> rh_parsing_meta then Inl Assertion_failed
          else map_sum id
                 (\<lambda>obj. h\<lparr>rh_num_cols := fpv_size d, rh_obj := obj, rh_state := rh_parsing_data\<rparr>)
                 (add_row_description d (rh_obj h))
      | Rm_data_row row \<Rightarrow>
          if rh_state h \<noteq> rh_parsing_data then Inl Assertion_failed
          else map_sum id (\<lambda>obj. h\<lparr>rh_obj := obj, rh_num_rows := rh_num_rows h + 1\<rparr>)
                 (add_row row (rh_obj h))
      | Rm_command_complete tag \<Rightarrow>
          if rh_state h \<noteq> rh_parsing_data then Inl Assertion_failed
          else rh_finish (from_command_complete tag reset_info) no_error h
      | Rm_portal_suspended \<Rightarrow>
          if rh_state h \<noteq> rh_parsing_data then Inl Assertion_failed
          else rh_finish (reset_info\<lparr>ci_portal_suspended := True\<rparr>) no_error h
      | Rm_error_response err \<Rightarrow>
          rh_finish reset_info (store_error err) (h\<lparr>rh_err := maybe_store_error err (rh_err h)\<rparr>)
      | Rm_close_complete \<Rightarrow> Inl Assertion_failed
      | Rm_parameter_description v \<Rightarrow> Inl Assertion_failed
      | Rm_empty_query_response \<Rightarrow> Inl Assertion_failed
      | Rm_message_skipped \<Rightarrow> Inl Assertion_failed)"

definition resultsets_handler :: "resultsets_handler_t handler_ops" where
  "resultsets_handler = \<lparr>ho_setup = resultsets_handler_setup, ho_on_message = resultsets_handler_on_message,
     ho_result = rh_err\<rparr>"

record describe_into_t =
  di_obj :: field_descriptions
  di_err :: extended_error

definition describe_into_setup ::
    "request \<Rightarrow> nat \<Rightarrow> describe_into_t \<Rightarrow> (handler_setup_result \<times> describe_into_t) checked" where
  "describe_into_setup req offset h =
     with_state \<lparr>di_obj = fds_clear, di_err = no_error\<rparr> (check_setup_impl req offset msg_describe)"

definition describe_into_on_message ::
    "any_request_message \<Rightarrow> nat \<Rightarrow> describe_into_t \<Rightarrow> describe_into_t checked" where
  "describe_into_on_message msg offset h =
     (case msg of
        Rm_row_description d \<Rightarrow> map_sum id (\<lambda>obj. h\<lparr>di_obj := obj\<rparr>) (fds_assign d (di_obj h))
      | Rm_parameter_description v \<Rightarrow> Inr h
      | Rm_error_response err \<Rightarrow> Inr (h\<lparr>di_err := maybe_store_error err (di_err h)\<rparr>)
      | _ \<Rightarrow> Inl Assertion_failed)"

definition describe_into :: "describe_into_t handler_ops" where
  "describe_into = \<lparr>ho_setup = describe_into_setup, ho_on_message = describe_into_on_message, ho_result = di_err\<rparr>"

section \<open>Contracts of the handlers\<close>

lemma setup_loop_takes:
  assumes "resultsets_setup_loop req (Inr (Inr offset)) = Inr (Inr offset')" and "takes_work req start offset"
  shows "takes_work req start offset'"
  using assms
proof (induction "(req, Inr (Inr offset) :: handler_setup_result checked)" arbitrary: offset rule: measure_induct_rule [of setup_left])
  case less
  show ?case
  proof (cases "offset \<ge> length (req_types req)")
    case False
    with less.prems(1) obtain o2 where o2: "resultset_setup req offset = Inr (Inr o2)"
        "resultsets_setup_loop req (Inr (Inr o2)) = Inr (Inr offset')"
      by (cases "(req, resultset_setup req offset)" rule: resultsets_setup_loop.cases) auto
    then have "offset < o2" using resultset_setup_progress False by auto
    then have "takes_work req start o2"
      using less.prems(2) resultset_setup_takes [OF o2(1)] False by (auto simp: takes_work_def)
    moreover have "setup_left (req, Inr (Inr o2)) < setup_left (req, Inr (Inr offset))"
      using \<open>offset < o2\<close> False by (auto simp: setup_left_def)
    ultimately show ?thesis using less.hyps o2(2) by blast
  qed (use less.prems in simp)
qed

lemma rh_finish_err: "rh_finish info err h = Inr h' \<Longrightarrow> rh_err h' = rh_err h"
  by (auto simp: rh_finish_def rh_reset_state_def map_sum_def split: sum.splits)

interpretation resultsets_h: plain_handler resultsets_handler
proof unfold_locales
  fix req offset s offset' s'
  assume "ho_setup resultsets_handler req offset s = Inr (Inr offset', s')" and le: "offset \<le> length (req_types req)"
  then have "resultsets_setup_loop req (resultset_setup req offset) = Inr (Inr offset')"
    by (simp add: resultsets_handler_def resultsets_handler_setup_def)
  then show "takes_work req offset offset'"
    using setup_loop_takes resultset_setup_takes [OF _ le]
    by (cases "(req, resultset_setup req offset)" rule: resultsets_setup_loop.cases) auto
next
  fix msg n s s'
  assume "ho_on_message resultsets_handler msg n s = Inr s'"
  then show "ho_result resultsets_handler s' = maybe_store_error_of msg (ho_result resultsets_handler s)"
    by (auto simp: resultsets_handler_def resultsets_handler_on_message_def maybe_store_error_of_def map_sum_def
        split: any_request_message.splits if_splits sum.splits dest: rh_finish_err)
qed (auto simp: resultsets_handler_def resultsets_handler_setup_def rh_reset_state_def)

interpretation describe_into_h: plain_handler describe_into
  by unfold_locales (auto simp: describe_into_def describe_into_setup_def describe_into_on_message_def
      maybe_store_error_of_def map_sum_def intro: check_setup_takes
      split: any_request_message.splits sum.splits)

end
