(* ===== verification/Pg_Resultsets_Facts.thy ===== *)
theory Pg_Resultsets_Facts
  imports Pg_Resultsets
begin

text \<open>
  The resultsets handler refines an abstract collector that keeps the rows of each resultset as lists:
  reading the stored resultsets back through the views gives exactly what the messages contained. The
  refinement relation \<open>holds_results\<close> says how the vectors of the object represent the finished resultsets
  and the one in progress; storing more never changes what was stored.
\<close>

section \<open>Reading what was stored\<close>

lemma collect_iff: "collect f xs = Inr ys \<longleftrightarrow> list_all2 (\<lambda>x y. f x = Inr y) xs ys"
proof (induction xs arbitrary: ys)
  case (Cons x xs)
  have "collect f (x # xs) = Inr ys \<longleftrightarrow> (\<exists>y ys'. f x = Inr y \<and> collect f xs = Inr ys' \<and> ys = y # ys')"
    by (auto split: sum.splits)
  then show ?case by (auto simp: Cons list_all2_Cons1)
qed auto

lemma subspan_append: "subspan i n xs = Inr ys \<Longrightarrow> subspan i n (xs @ zs) = Inr ys"
  by (auto simp: subspan_def split: if_splits)

lemma subspan_exact: "subspan (length xs) (length ys) (xs @ ys @ zs) = Inr ys"
  by (simp add: subspan_def)

lemma to_field_view_append: "to_field_view data ol = Inr v \<Longrightarrow> to_field_view (data @ extra) ol = Inr v"
  by (auto simp: to_field_view_def map_sum_def split: if_splits sum.splits dest: subspan_append [where zs = extra])

lemma to_field_description_append:
  "to_field_description data d = Inr v \<Longrightarrow> to_field_description (data @ extra) d = Inr v"
  by (auto simp: to_field_description_def to_string_view_def map_sum_def split: sum.splits
      dest: subspan_append [where zs = extra])

text \<open>\<open>extends r r'\<close>: the vectors of \<open>r'\<close> start with those of \<open>r\<close>.\<close>

definition extends :: "resultsets \<Rightarrow> resultsets \<Rightarrow> bool" where
  "extends r r' \<longleftrightarrow> (\<exists>ds vs bs. rt_field_descr r' = rt_field_descr r @ ds \<and>
     rt_values r' = rt_values r @ vs \<and> rt_data r' = rt_data r @ bs)"

lemma rs_rows_extends: "extends r r' \<Longrightarrow> rs_rows r d = Inr v \<Longrightarrow> rs_rows r' d = Inr v"
  by (cases "subspan (ol_offset (rd_values d)) (ol_length (rd_values d)) (rt_values r)")
    (auto simp: extends_def rs_rows_def subspan_append)

lemma rs_field_descriptions_extends:
  assumes "extends r r'" and "rs_field_descriptions r d = Inr ds"
  shows "rs_field_descriptions r' d = Inr ds"
proof -
  obtain xs where "subspan (ol_offset (rd_descr d)) (ol_length (rd_descr d)) (rt_field_descr r) = Inr xs"
      "list_all2 (\<lambda>x y. to_field_description (rt_data r) x = Inr y) xs ds"
    using assms(2) by (auto simp: rs_field_descriptions_def collect_iff split: sum.splits)
  then show ?thesis
    using assms(1)
    by (auto simp: extends_def rs_field_descriptions_def collect_iff subspan_append
        elim!: list_all2_mono intro: to_field_description_append)
qed

lemma rows_items_append:
  assumes "rows_items data v = Inr rows"
  shows "rows_items (data @ extra) v = Inr rows"
proof -
  have "(case rv_at v i of Inl fault \<Rightarrow> Inl fault | Inr ols \<Rightarrow> collect (to_field_view (data @ extra)) ols) = Inr row"
    if "(case rv_at v i of Inl fault \<Rightarrow> Inl fault | Inr ols \<Rightarrow> collect (to_field_view data) ols) = Inr row" for i row
    using that by (auto simp: collect_iff split: sum.splits elim!: list_all2_mono intro: to_field_view_append)
  then show ?thesis using assms unfolding rows_items_def collect_iff by (rule list_all2_mono [rotated])
qed

lemma read_resultset_extends:
  assumes "extends r r'" and "read_resultset r d = Inr c"
  shows "read_resultset r' d = Inr c"
proof -
  obtain ds v rows where h: "rs_field_descriptions r d = Inr ds" "rs_rows r d = Inr v"
      "rows_items (rt_data r) v = Inr rows"
    using assms(2) by (auto simp: read_resultset_def map_sum_def split: sum.splits)
  moreover obtain bs where "rt_data r' = rt_data r @ bs" using assms(1) by (auto simp: extends_def)
  ultimately show ?thesis
    using assms rs_field_descriptions_extends rs_rows_extends rows_items_append [of "rt_data r" v rows bs]
    by (simp add: read_resultset_def)
qed

lemma read_resultsets_extends:
  assumes "extends r r'" and "rt_resultsets r' = rt_resultsets r" and "read_resultsets r = Inr cs"
  shows "read_resultsets r' = Inr cs"
  using assms unfolding read_resultsets_def collect_iff
  by (auto elim!: list_all2_mono intro: read_resultset_extends)

section \<open>Storing\<close>

lemma insert_data_ok:
  "length bs < size_max \<Longrightarrow> insert_data data bs = Inr (\<lparr>ol_offset = length data, ol_length = length bs\<rparr>, data @ bs)"
  by (simp add: insert_data_def)

lemma push_descriptions_ok:
  assumes "\<forall>d \<in> set ds. length (fd_name d) < size_max"
  shows "\<exists>new extra. push_descriptions ds descrs data = Inr (descrs @ new, data @ extra) \<and>
    list_all2 (\<lambda>x y. to_field_description (data @ extra) x = Inr y) new ds"
  using assms
proof (induction ds arbitrary: descrs data)
  case (Cons d ds)
  let ?x = "\<lparr>ofd_name = \<lparr>ol_offset = length data, ol_length = length (fd_name d)\<rparr>, ofd_table_oid = fd_table_oid d,
    ofd_column_attribute = fd_column_attribute d, ofd_type_oid = fd_type_oid d,
    ofd_type_length = fd_type_length d, ofd_type_modifier = fd_type_modifier d, ofd_fmt_code = fd_fmt_code d\<rparr>"
  obtain new extra where h: "push_descriptions ds (descrs @ [?x]) (data @ fd_name d) =
      Inr ((descrs @ [?x]) @ new, (data @ fd_name d) @ extra)"
    "list_all2 (\<lambda>x y. to_field_description ((data @ fd_name d) @ extra) x = Inr y) new ds"
    using Cons.IH [of "descrs @ [?x]" "data @ fd_name d"] Cons.prems by auto
  have "to_field_description (data @ fd_name d @ extra) ?x = Inr d"
    by (simp add: to_field_description_def to_string_view_def subspan_exact)
  then show ?case
    using h Cons.prems by (intro exI [of _ "?x # new"] exI [of _ "fd_name d @ extra"]) (simp add: insert_data_ok)
qed simp

lemma push_values_ok:
  assumes "\<forall>bs. Some bs \<in> set fvs \<longrightarrow> length bs < size_max"
  shows "\<exists>new extra. push_values fvs vals data = Inr (vals @ new, data @ extra) \<and>
    list_all2 (\<lambda>x y. to_field_view (data @ extra) x = Inr y) new fvs"
  using assms
proof (induction fvs arbitrary: vals data)
  case (Cons fv fvs)
  show ?case
  proof (cases fv)
    case None
    let ?x = "\<lparr>ol_offset = 0, ol_length = size_max\<rparr>"
    obtain new extra where h: "push_values fvs (vals @ [?x]) data = Inr ((vals @ [?x]) @ new, data @ extra)"
      "list_all2 (\<lambda>x y. to_field_view (data @ extra) x = Inr y) new fvs"
      using Cons.IH [of "vals @ [?x]" data] Cons.prems by auto
    then show ?thesis
      by (intro exI [of _ "?x # new"] exI [of _ extra]) (simp add: None to_field_view_def)
  next
    case (Some bs)
    let ?x = "\<lparr>ol_offset = length data, ol_length = length bs\<rparr>"
    have len: "length bs < size_max" using Cons.prems Some by simp
    obtain new extra where h: "push_values fvs (vals @ [?x]) (data @ bs) =
        Inr ((vals @ [?x]) @ new, (data @ bs) @ extra)"
      "list_all2 (\<lambda>x y. to_field_view ((data @ bs) @ extra) x = Inr y) new fvs"
      using Cons.IH [of "vals @ [?x]" "data @ bs"] Cons.prems by auto
    have "to_field_view (data @ bs @ extra) ?x = Inr (Some bs)"
      using len subspan_exact [of data bs extra] by (simp add: to_field_view_def)
    then show ?thesis
      using h len by (intro exI [of _ "?x # new"] exI [of _ "bs @ extra"]) (simp add: Some insert_data_ok)
  qed
qed simp

section \<open>The abstract collector\<close>

text \<open>
  The finished resultsets and the descriptions and rows of the one in progress. A step is undefined on
  a message that does not fit: a row without a description or of another length than the description,
  a message a resultset cannot have, or one beyond the sizes of memory. The rows of a resultset without
  columns are not kept.
\<close>

definition value_fits :: "field_view \<Rightarrow> bool" where
  "value_fits fv = (case fv of None \<Rightarrow> True | Some bs \<Rightarrow> length bs < size_max)"

type_synonym result_acc = "resultset_content list \<times> (field_description list \<times> field_view list list) option"

definition close_resultset :: "command_info \<Rightarrow> extended_error \<Rightarrow> result_acc \<Rightarrow> result_acc" where
  "close_resultset info err acc =
     (let (ds, rows) = (case snd acc of None \<Rightarrow> ([], []) | Some c \<Rightarrow> c)
      in (fst acc @ [\<lparr>rc_err = err, rc_info = info, rc_descr = ds, rc_rows = (if ds = [] then [] else rows)\<rparr>], None))"

definition result_step :: "any_request_message \<Rightarrow> result_acc \<Rightarrow> result_acc option" where
  "result_step msg acc =
     (case msg of
        Rm_bind_complete \<Rightarrow> Some acc
      | Rm_parse_complete \<Rightarrow> Some acc
      | Rm_row_description v \<Rightarrow>
          (case (snd acc, description_items v) of
             (None, Inr ds) \<Rightarrow>
               if fpv_size v = length ds \<and> (\<forall>d \<in> set ds. length (fd_name d) < size_max)
               then Some (fst acc, Some (ds, [])) else None
           | _ \<Rightarrow> None)
      | Rm_data_row v \<Rightarrow>
          (case (snd acc, column_items v) of
             (Some (ds, rows), Inr cols) \<Rightarrow>
               if length cols = length ds \<and> list_all value_fits cols \<and>
                  length ds * Suc (length rows) \<le> size_max
               then Some (fst acc, Some (ds, rows @ [cols])) else None
           | _ \<Rightarrow> None)
      | Rm_command_complete tag \<Rightarrow>
          if snd acc = None then None
          else Some (close_resultset (from_command_complete tag reset_info) no_error acc)
      | Rm_portal_suspended \<Rightarrow>
          if snd acc = None then None
          else Some (close_resultset (reset_info\<lparr>ci_portal_suspended := True\<rparr>) no_error acc)
      | Rm_error_response err \<Rightarrow> Some (close_resultset reset_info (store_error err) acc)
      | _ \<Rightarrow> None)"

fun result_run :: "any_request_message list \<Rightarrow> result_acc \<Rightarrow> result_acc option" where
  "result_run [] acc = Some acc"
| "result_run (m # ms) acc = Option.bind (result_step m acc) (result_run ms)"

section \<open>Refinement\<close>

definition in_progress :: "resultsets_handler_t \<Rightarrow> field_description list \<Rightarrow> field_view list list \<Rightarrow> bool" where
  "in_progress h ds rows \<longleftrightarrow>
     rh_num_cols h = length ds \<and> rh_num_rows h = length rows \<and>
     list_all (\<lambda>row. length row = length ds) rows \<and> length ds * length rows \<le> size_max \<and>
     (\<exists>pre new. rt_field_descr (rh_obj h) = pre @ new \<and>
        list_all2 (\<lambda>x y. to_field_description (rt_data (rh_obj h)) x = Inr y) new ds) \<and>
     (\<exists>pre new. rt_values (rh_obj h) = pre @ new \<and>
        list_all2 (\<lambda>x y. to_field_view (rt_data (rh_obj h)) x = Inr y) new (concat rows))"

definition holds_results :: "resultsets_handler_t \<Rightarrow> result_acc \<Rightarrow> bool" where
  "holds_results h acc \<longleftrightarrow> read_resultsets (rh_obj h) = Inr (fst acc) \<and>
     (case snd acc of
        None \<Rightarrow> rh_state h = rh_parsing_meta \<and> in_progress h [] []
      | Some (ds, rows) \<Rightarrow> rh_state h = rh_parsing_data \<and> in_progress h ds rows)"

lemma concat_chunk:
  assumes "list_all (\<lambda>row. length row = n) rows" and "i < length rows"
  shows "take n (drop (i * n) (concat rows)) = rows ! i"
  using assms
proof (induction rows arbitrary: i)
  case (Cons row rows)
  then show ?case by (cases i) auto
qed simp

lemma length_concat_chunks: "list_all (\<lambda>row. length row = n) rows \<Longrightarrow> length (concat rows) = n * length rows"
  by (induction rows) auto

text \<open>The rows of a view over the values of complete rows.\<close>

lemma rows_items_concat:
  assumes "list_all2 (\<lambda>x y. to_field_view data x = Inr y) vs (concat rows)"
    and "list_all (\<lambda>row. length row = n) rows"
  shows "rows_items data \<lparr>rv_values = vs, rv_num_columns = n\<rparr> = Inr (if n = 0 then [] else rows)"
proof (cases "n = 0")
  case False
  have len: "length vs = n * length rows"
    using list_all2_lengthD [OF assms(1)] length_concat_chunks [OF assms(2)] by simp
  then have size: "rv_size \<lparr>rv_values = vs, rv_num_columns = n\<rparr> = length rows"
    using False by (simp add: rv_size_def)
  have "(case rv_at \<lparr>rv_values = vs, rv_num_columns = n\<rparr> i of Inl fault \<Rightarrow> Inl fault
      | Inr ols \<Rightarrow> collect (to_field_view data) ols) = Inr (rows ! i)" if "i < length rows" for i
  proof -
    have "i * n + n \<le> length vs" using that len by (metis Suc_leI add.commute mult.commute mult_Suc mult_le_mono1)
    then have "rv_at \<lparr>rv_values = vs, rv_num_columns = n\<rparr> i = Inr (take n (drop (i * n) vs))"
      by (simp add: rv_at_def subspan_def)
    moreover have "list_all2 (\<lambda>x y. to_field_view data x = Inr y) (take n (drop (i * n) vs)) (rows ! i)"
      using list_all2_takeI [OF list_all2_dropI [OF assms(1)]] concat_chunk [OF assms(2) that] by metis
    ultimately show ?thesis by (simp add: collect_iff)
  qed
  then show ?thesis
    using False by (auto simp: rows_items_def size collect_iff list_all2_conv_all_nth)
qed (simp add: rows_items_def rv_size_def)

lemma rh_finish_refines:
  assumes "in_progress h ds rows" and "read_resultsets (rh_obj h) = Inr cs"
  shows "\<exists>h'. rh_finish info err h = Inr h' \<and> holds_results h'
    (cs @ [\<lparr>rc_err = err, rc_info = info, rc_descr = ds, rc_rows = (if ds = [] then [] else rows)\<rparr>], None)"
proof -
  let ?r = "rh_obj h"
  obtain dpre dnew vpre vnew where d: "rt_field_descr ?r = dpre @ dnew"
      "list_all2 (\<lambda>x y. to_field_description (rt_data ?r) x = Inr y) dnew ds"
    and v: "rt_values ?r = vpre @ vnew" "list_all2 (\<lambda>x y. to_field_view (rt_data ?r) x = Inr y) vnew (concat rows)"
    and p: "rh_num_cols h = length ds" "rh_num_rows h = length rows"
      "list_all (\<lambda>row. length row = length ds) rows" "length ds * length rows \<le> size_max"
    using assms(1) unfolding in_progress_def by blast
  have len: "length dnew = length ds" "length vnew = length ds * length rows"
    using list_all2_lengthD [OF d(2)] list_all2_lengthD [OF v(2)] length_concat_chunks [OF p(3)] by simp_all
  let ?d = "\<lparr>rd_err = err, rd_info = info, rd_descr = \<lparr>ol_offset = length dpre, ol_length = length ds\<rparr>,
    rd_values = \<lparr>ol_offset = length vpre, ol_length = length ds * length rows\<rparr>\<rparr>"
  let ?r' = "?r\<lparr>rt_resultsets := rt_resultsets ?r @ [?d]\<rparr>"
  have fin: "finish_resultset (rh_num_rows h) (rh_num_cols h) info err ?r = Inr ?r'"
    using p(4) len by (simp add: finish_resultset_def Let_def p(1,2) d(1) v(1))
  have ext: "extends ?r ?r'" by (simp add: extends_def)
  have "subspan (length dpre) (length ds) (rt_field_descr ?r) = Inr dnew"
    using subspan_exact [of dpre dnew "[]"] d(1) len(1) by simp
  then have a: "rs_field_descriptions ?r' ?d = Inr ds"
    using d(2) by (simp add: rs_field_descriptions_def collect_iff)
  have "subspan (length vpre) (length ds * length rows) (rt_values ?r) = Inr vnew"
    using subspan_exact [of vpre vnew "[]"] v(1) len(2) by simp
  then have b: "rs_rows ?r' ?d = Inr \<lparr>rv_values = vnew, rv_num_columns = length ds\<rparr>"
    using len(2) by (simp add: rs_rows_def rows_view_init_def)
  have "read_resultset ?r' ?d =
      Inr \<lparr>rc_err = err, rc_info = info, rc_descr = ds, rc_rows = (if ds = [] then [] else rows)\<rparr>"
    using a b rows_items_concat [OF v(2) p(3)] by (simp add: read_resultset_def)
  moreover have "list_all2 (\<lambda>x y. read_resultset ?r' x = Inr y) (rt_resultsets ?r) cs"
    using assms(2) read_resultset_extends [OF ext] unfolding read_resultsets_def collect_iff
    by (auto elim!: list_all2_mono)
  ultimately have "read_resultsets ?r' =
      Inr (cs @ [\<lparr>rc_err = err, rc_info = info, rc_descr = ds, rc_rows = (if ds = [] then [] else rows)\<rparr>])"
    by (simp add: read_resultsets_def collect_iff list_all2_appendI)
  then show ?thesis
    by (simp add: rh_finish_def fin rh_reset_state_def holds_results_def in_progress_def)
qed

lemma holds_results_extends:
  assumes "extends (rh_obj h) obj" and "rt_resultsets obj = rt_resultsets (rh_obj h)" and "holds_results h acc"
  shows "read_resultsets obj = Inr (fst acc)"
  using read_resultsets_extends [OF assms(1,2)] assms(3) by (simp add: holds_results_def)

lemma in_progress_None: "holds_results h (cs, None) \<Longrightarrow> in_progress h [] [] \<and> rh_state h = rh_parsing_meta"
  by (simp add: holds_results_def)

lemma step_row_description:
  assumes "holds_results h (cs, None)" and "description_items v = Inr ds" and "fpv_size v = length ds"
    and "\<forall>d \<in> set ds. length (fd_name d) < size_max"
  shows "\<exists>h'. resultsets_handler_on_message (Rm_row_description v) n h = Inr h' \<and> holds_results h' (cs, Some (ds, []))"
proof -
  let ?r = "rh_obj h"
  obtain new extra where p: "push_descriptions ds (rt_field_descr ?r) (rt_data ?r) =
      Inr (rt_field_descr ?r @ new, rt_data ?r @ extra)"
    "list_all2 (\<lambda>x y. to_field_description (rt_data ?r @ extra) x = Inr y) new ds"
    using push_descriptions_ok [OF assms(4)] by blast
  let ?obj = "?r\<lparr>rt_field_descr := rt_field_descr ?r @ new, rt_data := rt_data ?r @ extra\<rparr>"
  have "read_resultsets ?obj = Inr cs"
    using holds_results_extends [OF _ _ assms(1), of ?obj] by (simp add: extends_def)
  moreover have "in_progress (h\<lparr>rh_num_cols := length ds, rh_obj := ?obj, rh_state := rh_parsing_data\<rparr>) ds []"
    using in_progress_None [OF assms(1)] p(2) unfolding in_progress_def by auto
  ultimately show ?thesis
    using in_progress_None [OF assms(1)] p(1) assms(2,3)
    by (simp add: resultsets_handler_on_message_def add_row_description_def holds_results_def)
qed

lemma step_data_row:
  assumes "holds_results h (cs, Some (ds, rows))" and "column_items v = Inr cols" and "length cols = length ds"
    and "list_all value_fits cols"
    and "length ds * Suc (length rows) \<le> size_max"
  shows "\<exists>h'. resultsets_handler_on_message (Rm_data_row v) n h = Inr h' \<and>
    holds_results h' (cs, Some (ds, rows @ [cols]))"
proof -
  let ?r = "rh_obj h"
  have ip: "in_progress h ds rows" "rh_state h = rh_parsing_data" using assms(1) by (auto simp: holds_results_def)
  have "\<forall>bs. Some bs \<in> set cols \<longrightarrow> length bs < size_max"
    using assms(4) by (force simp: list_all_iff value_fits_def)
  then obtain new extra where p: "push_values cols (rt_values ?r) (rt_data ?r) =
      Inr (rt_values ?r @ new, rt_data ?r @ extra)"
    "list_all2 (\<lambda>x y. to_field_view (rt_data ?r @ extra) x = Inr y) new cols"
    using push_values_ok by blast
  let ?obj = "?r\<lparr>rt_values := rt_values ?r @ new, rt_data := rt_data ?r @ extra\<rparr>"
  let ?h = "h\<lparr>rh_obj := ?obj, rh_num_rows := rh_num_rows h + 1\<rparr>"
  have "read_resultsets ?obj = Inr cs"
    using holds_results_extends [OF _ _ assms(1), of ?obj] by (simp add: extends_def)
  moreover have "in_progress ?h ds (rows @ [cols])"
  proof -
    obtain dpre dnew vpre vnew where d: "rt_field_descr ?r = dpre @ dnew"
        "list_all2 (\<lambda>x y. to_field_description (rt_data ?r) x = Inr y) dnew ds"
      and v: "rt_values ?r = vpre @ vnew" "list_all2 (\<lambda>x y. to_field_view (rt_data ?r) x = Inr y) vnew (concat rows)"
      using ip(1) unfolding in_progress_def by blast
    have "list_all2 (\<lambda>x y. to_field_description (rt_data ?r @ extra) x = Inr y) dnew ds"
      using d(2) by (rule list_all2_mono) (rule to_field_description_append)
    moreover have "list_all2 (\<lambda>x y. to_field_view (rt_data ?r @ extra) x = Inr y) vnew (concat rows)"
      using v(2) by (rule list_all2_mono) (rule to_field_view_append)
    then have "list_all2 (\<lambda>x y. to_field_view (rt_data ?r @ extra) x = Inr y) (vnew @ new) (concat (rows @ [cols]))"
      using p(2) by (simp add: list_all2_appendI)
    ultimately show ?thesis
      using ip(1) assms(3,5) d(1) v(1) unfolding in_progress_def by (auto simp: mult.commute)
  qed
  ultimately show ?thesis
    using ip(2) p(1) assms(2) by (simp add: resultsets_handler_on_message_def add_row_def holds_results_def)
qed

lemma step_refines:
  assumes "holds_results h acc" and "result_step msg acc = Some acc'"
  shows "\<exists>h'. resultsets_handler_on_message msg n h = Inr h' \<and> holds_results h' acc'"
proof -
  obtain cs cur where acc: "acc = (cs, cur)" by (cases acc)
  have rd: "read_resultsets (rh_obj h) = Inr cs" using assms(1) acc by (simp add: holds_results_def)
  have fin: "\<exists>h''. rh_finish info err h' = Inr h'' \<and> holds_results h'' (close_resultset info err acc)"
    if "rh_obj h' = rh_obj h" "rh_num_cols h' = rh_num_cols h" "rh_num_rows h' = rh_num_rows h" for info err h'
  proof -
    have "in_progress h' (case cur of None \<Rightarrow> [] | Some (ds, rows) \<Rightarrow> ds) (case cur of None \<Rightarrow> [] | Some (ds, rows) \<Rightarrow> rows)"
      using assms(1) that acc by (auto simp: holds_results_def in_progress_def split: option.splits)
    from rh_finish_refines [OF this, of cs info err] show ?thesis
      using rd that(1) acc by (auto simp: close_resultset_def split: option.splits)
  qed
  show ?thesis
  proof (cases msg)
    case (Rm_row_description v)
    then obtain ds where ds: "cur = None" "description_items v = Inr ds" "fpv_size v = length ds"
        "\<forall>d \<in> set ds. length (fd_name d) < size_max" "acc' = (cs, Some (ds, []))"
      using assms(2) acc by (auto simp: result_step_def split: option.splits sum.splits if_splits)
    show ?thesis
      using step_row_description [OF _ ds(2-4)] assms(1) acc ds(1,5) Rm_row_description by simp
  next
    case (Rm_data_row v)
    then obtain ds rows cols where r: "cur = Some (ds, rows)" "column_items v = Inr cols" "length cols = length ds"
        "list_all value_fits cols"
        "length ds * Suc (length rows) \<le> size_max" "acc' = (cs, Some (ds, rows @ [cols]))"
      using assms(2) acc by (auto simp: result_step_def split: option.splits sum.splits if_splits)
    show ?thesis
      using step_data_row [OF _ r(2-5)] assms(1) acc r(1,6) Rm_data_row by simp
  next
    case (Rm_command_complete tag)
    then show ?thesis
      using assms fin [of h] acc
      by (auto simp: result_step_def resultsets_handler_on_message_def holds_results_def split: if_splits)
  next
    case Rm_portal_suspended
    then show ?thesis
      using assms fin [of h] acc
      by (auto simp: result_step_def resultsets_handler_on_message_def holds_results_def split: if_splits)
  next
    case (Rm_error_response err)
    then show ?thesis
      using assms(2) fin [of "h\<lparr>rh_err := maybe_store_error err (rh_err h)\<rparr>"]
      by (auto simp: result_step_def resultsets_handler_on_message_def)
  qed (use assms in \<open>auto simp: result_step_def resultsets_handler_on_message_def\<close>)
qed

lemma run_refines:
  assumes "holds_results h acc" and "result_run (map fst cs) acc = Some acc'"
  shows "\<exists>h'. run_calls resultsets_handler cs h = Inr h' \<and> holds_results h' acc'"
  using assms
proof (induction cs arbitrary: h acc)
  case (Cons c cs)
  obtain msg n where c: "c = (msg, n)" by (cases c)
  with Cons.prems(2) obtain acc1 where a: "result_step msg acc = Some acc1" "result_run (map fst cs) acc1 = Some acc'"
    by (auto simp: bind_eq_Some_conv)
  from step_refines [OF Cons.prems(1) a(1), of n] obtain h1 where
      "resultsets_handler_on_message msg n h = Inr h1" "holds_results h1 acc1" by blast
  with Cons.IH [OF _ a(2)] show ?case by (simp add: c resultsets_handler_def)
qed auto

lemma setup_holds_results:
  assumes "setup_request resultsets_handler req h0 = Inr (None, h)"
  shows "holds_results h ([], None)"
proof -
  have "h = rh_reset_state (h0\<lparr>rh_obj := rt_clear, rh_err := no_error\<rparr>)"
    using setup_requestE(2) [OF assms] by (simp add: resultsets_handler_def resultsets_handler_setup_def)
  then show ?thesis
    by (simp add: holds_results_def rh_reset_state_def rt_clear_def read_resultsets_def in_progress_def)
qed

section \<open>Resultsets of a conversation\<close>

text \<open>
  C14. For a request the resultsets handler accepts and every conversation the protocol prescribes in
  which the abstract collector is defined, the state machine reaches its end, no assertion of the handler
  or of the storage fails, and reading the stored resultsets back through the views gives exactly the
  descriptions, rows, command information and errors of the conversation, in order, whatever number of
  resultsets share the storage. The handler's result is the first error of the server.
\<close>

theorem resultsets_handler_refines:
  assumes "setup_request resultsets_handler req h0 = Inr (None, h)"
    and "replies ac 0 (req_types req) (sync_messages ms) cs"
    and "result_run (map fst cs) ([], None) = Some (contents, cur)"
  shows "\<exists>f' rest h'. rr_run (guarded resultsets_handler) ms (read_response_fsm_init req (Inr h) ac) =
      Some (Fsm_done None, f', rest) \<and> sync_messages rest = [] \<and> rr_handler f' = Inr h' \<and>
    read_resultsets (rh_obj h') = Inr contents \<and>
    rh_err h' = fold (\<lambda>(msg, n). maybe_store_error_of msg) cs no_error"
proof -
  note st = setup_requestE [OF assms(1)]
  obtain h' where h': "run_calls resultsets_handler cs h = Inr h'" "holds_results h' (contents, cur)"
    using run_refines [OF setup_holds_results [OF assms(1)] assms(3)] by blast
  have "rh_err h = no_error"
    using resultsets_h.plain_setup_clears [OF st(2)] by (simp add: resultsets_handler_def)
  then have "rh_err h' = fold (\<lambda>(msg, n). maybe_store_error_of msg) cs no_error"
    using resultsets_h.run_result [OF h'(1)] by (simp add: resultsets_handler_def)
  then show ?thesis
    using handler_run [OF st(1) assms(2), of resultsets_handler h] h' by (auto simp: holds_results_def)
qed

definition one_query :: request where
  "one_query = \<lparr>req_buffer = [], req_types = [msg_query], req_autosync = True\<rparr>"

definition new_resultsets_handler :: resultsets_handler_t where
  "new_resultsets_handler = \<lparr>rh_obj = rt_clear, rh_err = no_error, rh_state = rh_parsing_meta, rh_num_cols = 0,
     rh_num_rows = 0\<rparr>"

definition sample_column :: field_description where
  "sample_column = \<lparr>fd_name = of_str ''a'', fd_table_oid = 0, fd_column_attribute = 0, fd_type_oid = 25,
     fd_type_length = -1, fd_type_modifier = -1, fd_fmt_code = format_text\<rparr>"

definition sample_description :: forward_parsing_view where
  "sample_description = \<lparr>fpv_size = 1, fpv_data = encode_field_description sample_column\<rparr>"

definition sample_row :: "field_view \<Rightarrow> forward_parsing_view" where
  "sample_row v = \<lparr>fpv_size = 1, fpv_data = encode_field_view v\<rparr>"

lemma sample_items:
  "description_items sample_description = Inr [sample_column]"
  "wf_field_view v \<Longrightarrow> column_items (sample_row v) = Inr [v]"
  using columns.items_encode [of "[v]"] fields.items_encode [of "[sample_column]"]
  by (simp_all add: column_items_def description_items_def sample_row_def sample_description_def sample_column_def
      wf_field_description_def is_valid_format_code_def wf_cstr_def of_str_def)

lemma sample_sizes:
  "fpv_size sample_description = 1" "length (fd_name sample_column) < size_max"
  "value_fits (Some (of_str ''x''))" "value_fits None" "Suc (Suc 0) \<le> size_max" "Suc 0 \<le> size_max"
  "wf_field_view (Some (of_str ''x''))" "wf_field_view None"
  by (simp_all add: wf_field_view_def int32_max_def sample_description_def sample_column_def of_str_def size_max_def value_fits_def)

lemma sample_run:
  "result_run [Rm_row_description sample_description, Rm_data_row (sample_row (Some (of_str ''x''))),
      Rm_data_row (sample_row None), Rm_command_complete (of_str ''SELECT 2'')] ([], None) =
    Some ([\<lparr>rc_err = no_error, rc_info = from_command_complete (of_str ''SELECT 2'') reset_info,
        rc_descr = [sample_column], rc_rows = [[Some (of_str ''x'')], [None]]\<rparr>], None)"
  by (simp add: result_step_def sample_items sample_sizes close_resultset_def)

lemma one_query_setup: "setup_request resultsets_handler one_query new_resultsets_handler = Inr (None, new_resultsets_handler)"
  by (simp add: setup_request_def check_request_def one_query_def resultsets_handler_def resultsets_handler_setup_def
      resultset_setup_def skip_syncs_def is_sync_or_flush_def offset_at_def with_state_def rh_reset_state_def
      new_resultsets_handler_def)

theorem resultsets_handler_refines_witness:
  "\<exists>f' rest h'. rr_run (guarded resultsets_handler)
      [Row_description sample_description, Data_row (sample_row (Some (of_str ''x''))), Data_row (sample_row None),
       Command_complete (of_str ''SELECT 2''), Ready_for_query status_idle]
      (read_response_fsm_init one_query (Inr new_resultsets_handler) False) = Some (Fsm_done None, f', rest) \<and>
    sync_messages rest = [] \<and> rr_handler f' = Inr h' \<and>
    read_resultsets (rh_obj h') = Inr [\<lparr>rc_err = no_error,
      rc_info = from_command_complete (of_str ''SELECT 2'') reset_info,
      rc_descr = [sample_column], rc_rows = [[Some (of_str ''x'')], [None]]\<rparr>] \<and>
    rh_err h' = fold (\<lambda>(msg, n). maybe_store_error_of msg)
      (calls_at 0 [Rm_row_description sample_description, Rm_data_row (sample_row (Some (of_str ''x''))),
        Rm_data_row (sample_row None), Rm_command_complete (of_str ''SELECT 2'')]) no_error"
proof (rule resultsets_handler_refines [OF one_query_setup])
  let ?rows = "[sample_row (Some (of_str ''x'')), sample_row None]"
  have "query_reply False (Row_description sample_description # map Data_row ?rows @ [Command_complete (of_str ''SELECT 2'')])
      (Rm_row_description sample_description # map Rm_data_row ?rows @ [Rm_command_complete (of_str ''SELECT 2'')])"
    by (intro query_ok results_one result_rows)
  from replies_query [OF this replies_end, of 0 status_idle]
  show "replies False 0 (req_types one_query)
    (sync_messages [Row_description sample_description, Data_row (sample_row (Some (of_str ''x''))),
      Data_row (sample_row None), Command_complete (of_str ''SELECT 2''), Ready_for_query status_idle])
    (calls_at 0 [Rm_row_description sample_description, Rm_data_row (sample_row (Some (of_str ''x''))),
        Rm_data_row (sample_row None), Rm_command_complete (of_str ''SELECT 2'')])"
    by (simp add: one_query_def sync_messages_def)
qed (use sample_run in simp)

section \<open>Skipped messages\<close>

text \<open>The messages of \<^verbatim>\<open>request::add_query\<close>.\<close>

definition extended_query :: request where
  "extended_query = \<lparr>req_buffer = [], req_types = [msg_parse, msg_bind, msg_describe, msg_execute, msg_sync],
     req_autosync = True\<rparr>"

lemma failed_parse_replies:
  "replies ac 0 (req_types extended_query) (sync_messages [Error_response e, Ready_for_query s])
     [(Rm_error_response e, 0), (Rm_message_skipped, 1), (Rm_message_skipped, 2), (Rm_message_skipped, 3)]"
  using replies_error [of msg_parse ac "[]" "[]" "[msg_bind, msg_describe, msg_execute]" 0 "[]" "[Ready_for_query s]" "[]" e]
    replies_sync [OF replies_end, of ac "Suc (Suc (Suc (Suc 0)))" s]
  by (simp add: extended_query_def sync_messages_def is_ext_def numeral_2_eq_2 numeral_3_eq_3)

lemma extended_query_setup:
  "setup_request resultsets_handler extended_query h0 =
     Inr (None, rh_reset_state (h0\<lparr>rh_obj := rt_clear, rh_err := no_error\<rparr>))"
  "setup_request check_execute extended_query c0 =
     Inr (None, \<lparr>ce_info = map_option (\<lambda>_. reset_info) (ce_info c0), ce_err = no_error\<rparr>)"
  by (simp_all add: setup_request_def check_request_def extended_query_def resultsets_handler_def
      resultsets_handler_setup_def check_execute_def check_execute_setup_def
      resultset_setup_def skip_syncs_def is_sync_or_flush_def offset_at_def with_state_def)

text \<open>
  C36. When the server rejects the Parse of an extended query, the state machine reports the Bind, the
  Describe and the Execute as skipped, and both handlers that accept such a request, \<^verbatim>\<open>resultsets_handler\<close>
  and \<^verbatim>\<open>check_execute\<close>, assert that this cannot happen.
\<close>

theorem failed_parse_hits_assertion:
  "\<exists>h c f g rest1 rest2.
     setup_request resultsets_handler extended_query h0 = Inr (None, h) \<and>
     rr_run (guarded resultsets_handler) [Error_response e, Ready_for_query s]
       (read_response_fsm_init extended_query (Inr h) ac) = Some (Fsm_done None, f, rest1) \<and>
     rr_handler f = Inl Assertion_failed \<and>
     setup_request check_execute extended_query c0 = Inr (None, c) \<and>
     rr_run (guarded check_execute) [Error_response e, Ready_for_query s]
       (read_response_fsm_init extended_query (Inr c) ac) = Some (Fsm_done None, g, rest2) \<and>
     rr_handler g = Inl Assertion_failed"
proof -
  let ?cs = "[(Rm_error_response e, 0), (Rm_message_skipped, 1), (Rm_message_skipped, 2), (Rm_message_skipped, 3)]"
  let ?h = "rh_reset_state (h0\<lparr>rh_obj := rt_clear, rh_err := no_error\<rparr>)"
  let ?c = "\<lparr>ce_info = map_option (\<lambda>_. reset_info) (ce_info c0), ce_err = no_error\<rparr>"
  have chk: "check_request extended_query = None" by (simp add: check_request_def extended_query_def)
  have "run_calls resultsets_handler ?cs ?h = Inl Assertion_failed"
    by (simp add: resultsets_handler_def resultsets_handler_on_message_def rh_finish_def finish_resultset_def
        rh_reset_state_def rt_clear_def)
  moreover have "run_calls check_execute ?cs ?c = Inl Assertion_failed"
    by (simp add: check_execute_def check_execute_on_message_def)
  ultimately show ?thesis
    using handler_run [OF chk failed_parse_replies [of ac e s], of resultsets_handler ?h]
      handler_run [OF chk failed_parse_replies [of ac e s], of check_execute ?c]
      extended_query_setup by (auto simp del: rr_run.simps run_calls.simps)
qed

end
