(* ===== verification/Pg_Resultset_Callback.thy ===== *)
theory Pg_Resultset_Callback
  imports Pg_Responses_Facts Pg_Resultsets Pg_Types_Base
begin

text \<open>
  Typed rows: \<^verbatim>\<open>compute_pos_map\<close> of \<^verbatim>\<open>responses.cpp\<close> and the handler of
  \<^verbatim>\<open>responses/resultset_callback.hpp\<close>, which maps the columns of a result to the members of a row type
  by name, checks their types once and parses each row. The row type is the list of its members, each with
  its name, its value in a value-initialized row and the traits of its type; the values of the members are
  of one type. The callback's invocations are recorded, which is what \<^verbatim>\<open>into\<close> does with them.
\<close>

section \<open>Positions\<close>

record pos_map_entry =
  pm_db_index :: nat
  pm_type_oid :: int32
  pm_fmt_code :: format_code

definition invalid_pos :: nat where
  "invalid_pos = size_max"

definition find_index :: "string_view \<Rightarrow> string_view list \<Rightarrow> nat" where
  "find_index name table = length (takeWhile (\<lambda>n. n \<noteq> name) table)"

text \<open>The loop that looks every field up; \<open>db_index\<close> counts the fields.\<close>

fun pos_map_loop :: "nat \<Rightarrow> field_description list \<Rightarrow> string_view list \<Rightarrow> pos_map_entry list \<Rightarrow> pos_map_entry list" where
  "pos_map_loop db_index [] name_table out = out"
| "pos_map_loop db_index (fd # fds) name_table out =
     (let cpp_index = find_index (fd_name fd) name_table
      in pos_map_loop (db_index + 1) fds name_table
           (if cpp_index < length name_table
            then out[cpp_index := \<lparr>pm_db_index = db_index, pm_type_oid = fd_type_oid fd, pm_fmt_code = fd_fmt_code fd\<rparr>]
            else out))"

definition compute_pos_map ::
    "field_description list \<Rightarrow> string_view list \<Rightarrow> pos_map_entry list \<Rightarrow> (error_code option \<times> pos_map_entry list) checked" where
  "compute_pos_map meta name_table out =
     (if length name_table \<noteq> length out then Inl Assertion_failed
      else
        (let out' = pos_map_loop 0 meta name_table
               (map (\<lambda>_. \<lparr>pm_db_index = invalid_pos, pm_type_oid = 0, pm_fmt_code = 0\<rparr>) out)
         in if \<exists>ent \<in> set out'. pm_db_index ent = invalid_pos
            then Inr (Some (Client field_not_found), out') else Inr (None, out')))"

section \<open>The handler\<close>

record 'v row_member =
  mb_name :: string_view
  mb_initial :: 'v
  mb_traits :: "'v parse_field_traits"

datatype callback_state = cb_parsing_meta | cb_parsing_data | cb_done

record 'v resultset_callback_t =
  cb_state :: callback_state
  cb_pos_map :: "pos_map_entry list"
  cb_random_access_data :: "field_view list"
  cb_err :: extended_error
  cb_rows :: "'v list list"
  cb_info :: "command_info option"

definition cb_store_error :: "error_code \<Rightarrow> 'v resultset_callback_t \<Rightarrow> 'v resultset_callback_t" where
  "cb_store_error ec h =
     (if ee_code (cb_err h) = None then h\<lparr>cb_err := \<lparr>ee_code = Some ec, ee_diag = []\<rparr>\<rparr> else h)"

text \<open>The metadata check: the first error of the members' types, in the order of the members.\<close>

fun check_compatible :: "'v row_member list \<Rightarrow> pos_map_entry list \<Rightarrow> error_code option" where
  "check_compatible [] ents = None"
| "check_compatible (m # ms) ents =
     keep_first (ft_is_compatible (mb_traits m) (pm_type_oid (hd ents))) (check_compatible ms (tl ents))"

definition cb_on_row_description ::
    "'v row_member list \<Rightarrow> forward_parsing_view \<Rightarrow> 'v resultset_callback_t \<Rightarrow> 'v resultset_callback_t checked" where
  "cb_on_row_description members meta h =
     (if cb_state h \<noteq> cb_parsing_meta then Inl Assertion_failed
      else
        (case description_items meta of
           Inl fault \<Rightarrow> Inl fault
         | Inr ds \<Rightarrow>
             (case compute_pos_map ds (map mb_name members) (cb_pos_map h) of
                Inl fault \<Rightarrow> Inl fault
              | Inr (ec, pos_map) \<Rightarrow>
                  (let h' = h\<lparr>cb_state := cb_parsing_data, cb_pos_map := pos_map\<rparr>
                   in case ec of
                        Some e \<Rightarrow> Inr (cb_store_error e h')
                      | None \<Rightarrow>
                          (case check_compatible members pos_map of
                             Some e \<Rightarrow> Inr (cb_store_error e h')
                           | None \<Rightarrow> Inr h')))))"

text \<open>
  The members of a row: every member is parsed, the first error is kept. \<^verbatim>\<open>vector::at\<close> throws when the
  row has too few columns.
\<close>

definition parse_member :: "pos_map_entry \<Rightarrow> field_view list \<Rightarrow> 'v row_member \<Rightarrow> (error_code option \<times> 'v) checked" where
  "parse_member ent cols m =
     (if pm_db_index ent \<ge> length cols then Inl Out_of_range_thrown
      else
        (case (if pm_fmt_code ent = format_text then ft_parse_text (mb_traits m) else ft_parse_binary (mb_traits m))
                (cols ! pm_db_index ent) (pm_type_oid ent) (mb_initial m) of
           None \<Rightarrow> Inl Assertion_failed
         | Some r \<Rightarrow> Inr r))"

fun parse_members ::
    "'v row_member list \<Rightarrow> pos_map_entry list \<Rightarrow> field_view list \<Rightarrow> (error_code option \<times> 'v list) checked" where
  "parse_members [] ents cols = Inr (None, [])"
| "parse_members (m # ms) ents cols =
     (case parse_member (hd ents) cols m of
        Inl fault \<Rightarrow> Inl fault
      | Inr (ec, v) \<Rightarrow>
          (case parse_members ms (tl ents) cols of
             Inl fault \<Rightarrow> Inl fault
           | Inr (ec', vs) \<Rightarrow> Inr (keep_first ec ec', v # vs)))"

definition cb_on_data_row ::
    "'v row_member list \<Rightarrow> forward_parsing_view \<Rightarrow> 'v resultset_callback_t \<Rightarrow> 'v resultset_callback_t checked" where
  "cb_on_data_row members row h =
     (if cb_state h \<noteq> cb_parsing_data then Inl Assertion_failed
      else if ee_code (cb_err h) \<noteq> None then Inr h
      else
        (case column_items row of
           Inl fault \<Rightarrow> Inl fault
         | Inr cols \<Rightarrow>
             (let h' = h\<lparr>cb_random_access_data := cols\<rparr>
              in case parse_members members (cb_pos_map h) cols of
                   Inl fault \<Rightarrow> Inl fault
                 | Inr (Some ec, r) \<Rightarrow> Inr (cb_store_error ec h')
                 | Inr (None, r) \<Rightarrow> Inr (h'\<lparr>cb_rows := cb_rows h' @ [r]\<rparr>))))"

definition cb_on_done :: "'v resultset_callback_t \<Rightarrow> 'v resultset_callback_t checked" where
  "cb_on_done h = (if cb_state h \<noteq> cb_parsing_data then Inl Assertion_failed else Inr (h\<lparr>cb_state := cb_done\<rparr>))"

definition resultset_callback_setup ::
    "request \<Rightarrow> nat \<Rightarrow> 'v resultset_callback_t \<Rightarrow> (handler_setup_result \<times> 'v resultset_callback_t) checked" where
  "resultset_callback_setup req offset h =
     with_state (h\<lparr>cb_state := cb_parsing_meta, cb_err := no_error,
         cb_info := map_option (\<lambda>_. reset_info) (cb_info h)\<rparr>) (resultset_setup req offset)"

definition resultset_callback_on_message ::
    "'v row_member list \<Rightarrow> any_request_message \<Rightarrow> nat \<Rightarrow> 'v resultset_callback_t \<Rightarrow> 'v resultset_callback_t checked" where
  "resultset_callback_on_message members msg offset h =
     (case msg of
        Rm_error_response err \<Rightarrow> Inr (h\<lparr>cb_err := maybe_store_error err (cb_err h)\<rparr>)
      | Rm_parse_complete \<Rightarrow> Inr h
      | Rm_bind_complete \<Rightarrow> Inr h
      | Rm_row_description meta \<Rightarrow> cb_on_row_description members meta h
      | Rm_data_row row \<Rightarrow> cb_on_data_row members row h
      | Rm_command_complete tag \<Rightarrow>
          cb_on_done (h\<lparr>cb_info := map_option (from_command_complete tag) (cb_info h)\<rparr>)
      | Rm_portal_suspended \<Rightarrow>
          cb_on_done (h\<lparr>cb_info := map_option (\<lambda>i. i\<lparr>ci_portal_suspended := True\<rparr>) (cb_info h)\<rparr>)
      | Rm_message_skipped \<Rightarrow> Inr (cb_store_error (Client step_skipped) h)
      | _ \<Rightarrow> Inl Assertion_failed)"

definition resultset_callback :: "'v row_member list \<Rightarrow> 'v resultset_callback_t handler_ops" where
  "resultset_callback members = \<lparr>ho_setup = resultset_callback_setup,
     ho_on_message = resultset_callback_on_message members, ho_result = cb_err\<rparr>"

text \<open>The array of positions has as many elements as the row type has members and is not initialized.\<close>

definition resultset_callback_init :: "command_info option \<Rightarrow> pos_map_entry list \<Rightarrow> 'v resultset_callback_t" where
  "resultset_callback_init info uninitialized =
     \<lparr>cb_state = cb_parsing_meta, cb_pos_map = uninitialized, cb_random_access_data = [],
      cb_err = no_error, cb_rows = [], cb_info = info\<rparr>"

section \<open>Contract\<close>

lemma cb_store_error_sticks:
  "ee_code (cb_err (cb_store_error ec h)) \<noteq> None" 
  "ee_code (cb_err h) \<noteq> None \<Longrightarrow> cb_store_error ec h = h"
  by (auto simp: cb_store_error_def)

lemma cb_sticks:
  assumes "resultset_callback_on_message members msg n h = Inr h'"
    and "ee_code (cb_err h) \<noteq> None \<or> is_server_error msg"
  shows "ee_code (cb_err h') \<noteq> None"
  using assms
  by (cases msg)
    (auto simp: resultset_callback_on_message_def cb_on_row_description_def cb_on_data_row_def cb_on_done_def
      cb_store_error_def maybe_store_error_def Let_def split: if_splits sum.splits option.splits)

interpretation callback_h: response_handler "resultset_callback members" "\<lambda>h. True" for members
proof unfold_locales
  fix msg n s s'
  assume "ho_on_message (resultset_callback members) msg n s = Inr s'"
    and "errored (ho_result (resultset_callback members) s) \<or> is_server_error msg"
  then show "errored (ho_result (resultset_callback members) s')"
    using cb_sticks [of members msg n s s'] by (simp add: resultset_callback_def)
qed (auto simp: resultset_callback_def resultset_callback_setup_def no_error_def intro: resultset_setup_takes)

end
