(* ===== verification/Pg_Resultset_Callback_Facts.thy ===== *)
theory Pg_Resultset_Callback_Facts
  imports Pg_Resultset_Callback Pg_Resultsets_Facts
begin

text \<open>
  Typed rows are read by name: the position map points every member at the last column of its name, and
  the rows the callback gets are those a reference definition reads from the columns directly, up to the
  first row that does not parse.
\<close>

section \<open>The position map\<close>

text \<open>The last column with a name.\<close>

fun column_of :: "field_description list \<Rightarrow> string_view \<Rightarrow> nat option" where
  "column_of [] name = None"
| "column_of (d # ds) name =
     (case column_of ds name of
        Some j \<Rightarrow> Some (Suc j)
      | None \<Rightarrow> if fd_name d = name then Some 0 else None)"

lemma column_of_None: "column_of ds name = None \<longleftrightarrow> name \<notin> fd_name ` set ds"
  by (induction ds) (auto split: option.splits)

lemma column_of_Some:
  "column_of ds name = Some j \<Longrightarrow>
     j < length ds \<and> fd_name (ds ! j) = name \<and> (\<forall>k. j < k \<and> k < length ds \<longrightarrow> fd_name (ds ! k) \<noteq> name)"
proof (induction ds arbitrary: j)
  case (Cons d ds)
  show ?case
  proof (cases "column_of ds name")
    case None
    with Cons.prems have j: "j = 0" "fd_name d = name" by (auto split: if_splits)
    have "fd_name (ds ! k) \<noteq> name" if "k < length ds" for k
      using None that unfolding column_of_None by (metis imageI nth_mem)
    with j show ?thesis by (auto simp: nth_Cons split: nat.splits)
  next
    case (Some i)
    then show ?thesis using Cons.IH [OF Some] Cons.prems by (auto simp: nth_Cons split: nat.splits)
  qed
qed simp

lemma find_index_eq:
  assumes "distinct table" and "i < length table"
  shows "find_index name table = i \<longleftrightarrow> table ! i = name"
  using assms
proof (induction table arbitrary: i)
  case (Cons t table)
  then show ?case by (cases i) (auto simp: find_index_def)
qed simp

definition entry_at :: "nat \<Rightarrow> field_description list \<Rightarrow> nat \<Rightarrow> pos_map_entry" where
  "entry_at k ds j = \<lparr>pm_db_index = k + j, pm_type_oid = fd_type_oid (ds ! j), pm_fmt_code = fd_fmt_code (ds ! j)\<rparr>"

lemma length_pos_map_loop [simp]: "length (pos_map_loop k ds table out) = length out"
  by (induction k ds table out rule: pos_map_loop.induct) (simp_all add: Let_def)

lemma pos_map_loop_nth:
  assumes "distinct table" and "i < length table" and "length out = length table"
  shows "pos_map_loop k ds table out ! i =
    (case column_of ds (table ! i) of None \<Rightarrow> out ! i | Some j \<Rightarrow> entry_at k ds j)"
  using assms(3)
proof (induction ds arbitrary: k out)
  case (Cons d ds)
  let ?c = "find_index (fd_name d) table"
  let ?e = "\<lparr>pm_db_index = k, pm_type_oid = fd_type_oid d, pm_fmt_code = fd_fmt_code d\<rparr>"
  let ?out = "if ?c < length table then out[?c := ?e] else out"
  have "?out ! i = (if fd_name d = table ! i then ?e else out ! i)"
    using find_index_eq [OF assms(1,2), of "fd_name d"] assms(2) Cons.prems
    by (auto simp: nth_list_update)
  moreover have "pos_map_loop k (d # ds) table out ! i =
      (case column_of ds (table ! i) of None \<Rightarrow> ?out ! i | Some j \<Rightarrow> entry_at (k + 1) ds j)"
    using Cons.IH [of ?out "k + 1"] Cons.prems by (simp add: Let_def)
  ultimately show ?case by (auto simp: entry_at_def split: option.splits)
qed simp

lemma compute_pos_map_cases:
  assumes "distinct table" and "length out = length table" and "length ds \<le> size_max"
  obtains out' where "length out' = length table"
    "\<And>i j. i < length table \<Longrightarrow> column_of ds (table ! i) = Some j \<Longrightarrow> out' ! i = entry_at 0 ds j"
    "compute_pos_map ds table out =
       Inr (if \<forall>name \<in> set table. column_of ds name \<noteq> None then None else Some (Client field_not_found), out')"
proof -
  let ?z = "map (\<lambda>_. \<lparr>pm_db_index = invalid_pos, pm_type_oid = 0, pm_fmt_code = 0\<rparr>) out"
  let ?out = "pos_map_loop 0 ds table ?z"
  have nth: "?out ! i = (case column_of ds (table ! i) of
      None \<Rightarrow> \<lparr>pm_db_index = invalid_pos, pm_type_oid = 0, pm_fmt_code = 0\<rparr> | Some j \<Rightarrow> entry_at 0 ds j)"
    if "i < length table" for i
    using pos_map_loop_nth [OF assms(1) that, of ?z 0 ds] assms(2) that by (auto split: option.splits)
  have inv: "pm_db_index (?out ! i) = invalid_pos \<longleftrightarrow> column_of ds (table ! i) = None" if "i < length table" for i
  proof (cases "column_of ds (table ! i)")
    case (Some j)
    then have "j < size_max" using column_of_Some [OF Some] assms(3) by linarith
    then show ?thesis using nth [OF that] Some by (simp add: entry_at_def invalid_pos_def)
  qed (use nth [OF that] in simp)
  have "(\<forall>ent \<in> set ?out. pm_db_index ent \<noteq> invalid_pos) \<longleftrightarrow> (\<forall>name \<in> set table. column_of ds name \<noteq> None)"
    using inv assms(2) by (simp add: all_set_conv_all_nth)
  then have "(\<exists>ent \<in> set ?out. pm_db_index ent = invalid_pos) \<longleftrightarrow> \<not> (\<forall>name \<in> set table. column_of ds name \<noteq> None)"
    by blast
  then have "compute_pos_map ds table out =
      Inr (if \<forall>name \<in> set table. column_of ds name \<noteq> None then None else Some (Client field_not_found), ?out)"
    using assms(2) by (simp add: compute_pos_map_def Let_def)
  then show ?thesis using that [of ?out] assms(2) nth by simp
qed

text \<open>
  For a row type with distinct member names, the position map succeeds exactly when every member name
  is the name of a column, and then each member is mapped to the last column with its name, with the type
  and format of that column. The previous contents of the map do not matter.
\<close>

lemma compute_pos_map_correct:
  assumes "distinct table" and "length out = length table" and "length ds \<le> size_max"
  shows "\<exists>ec out'. compute_pos_map ds table out = Inr (ec, out') \<and> length out' = length table \<and>
    (ec = None \<longleftrightarrow> set table \<subseteq> fd_name ` set ds) \<and>
    (\<forall>i < length table. table ! i \<in> fd_name ` set ds \<longrightarrow>
      (\<exists>j < length ds. fd_name (ds ! j) = table ! i \<and> (\<forall>k. j < k \<and> k < length ds \<longrightarrow> fd_name (ds ! k) \<noteq> table ! i) \<and>
        out' ! i = \<lparr>pm_db_index = j, pm_type_oid = fd_type_oid (ds ! j), pm_fmt_code = fd_fmt_code (ds ! j)\<rparr>))"
proof -
  obtain out' where o: "length out' = length table"
    "\<And>i j. i < length table \<Longrightarrow> column_of ds (table ! i) = Some j \<Longrightarrow> out' ! i = entry_at 0 ds j"
    "compute_pos_map ds table out =
       Inr (if \<forall>name \<in> set table. column_of ds name \<noteq> None then None else Some (Client field_not_found), out')"
    by (rule compute_pos_map_cases [OF assms]) blast
  have "\<exists>j < length ds. fd_name (ds ! j) = table ! i \<and> (\<forall>k. j < k \<and> k < length ds \<longrightarrow> fd_name (ds ! k) \<noteq> table ! i) \<and>
      out' ! i = \<lparr>pm_db_index = j, pm_type_oid = fd_type_oid (ds ! j), pm_fmt_code = fd_fmt_code (ds ! j)\<rparr>"
    if i: "i < length table" and "table ! i \<in> fd_name ` set ds" for i
  proof -
    have "column_of ds (table ! i) \<noteq> None" using that unfolding column_of_None by blast
    then obtain j where j: "column_of ds (table ! i) = Some j" by blast
    then show ?thesis using column_of_Some [OF j] o(2) [OF i j] by (auto simp: entry_at_def)
  qed
  moreover have "(\<forall>name \<in> set table. column_of ds name \<noteq> None) \<longleftrightarrow> set table \<subseteq> fd_name ` set ds"
    using column_of_None [of ds] by auto
  ultimately show ?thesis using o(1,3) by auto
qed

section \<open>Rows by name\<close>

text \<open>The reference: a member is parsed from the last column with its name.\<close>

definition member_by_name :: "field_description list \<Rightarrow> field_view list \<Rightarrow> 'v row_member \<Rightarrow> 'v outcome" where
  "member_by_name ds cols m =
     (case column_of ds (mb_name m) of
        None \<Rightarrow> (Some (Client field_not_found), mb_initial m)
      | Some j \<Rightarrow>
          (let parse = (if fd_fmt_code (ds ! j) = format_text then ft_parse_text (mb_traits m)
                        else ft_parse_binary (mb_traits m))
           in the (parse (cols ! j) (fd_type_oid (ds ! j)) (mb_initial m))))"

definition row_by_name :: "'v row_member list \<Rightarrow> field_description list \<Rightarrow> field_view list \<Rightarrow> 'v list outcome" where
  "row_by_name members ds cols =
     (foldr (\<lambda>m. keep_first (fst (member_by_name ds cols m))) members None,
      map (\<lambda>m. snd (member_by_name ds cols m)) members)"

text \<open>The rows up to the first one with an error, and this error.\<close>

fun rows_by_name ::
    "'v row_member list \<Rightarrow> field_description list \<Rightarrow> field_view list list \<Rightarrow> 'v list list \<times> error_code option" where
  "rows_by_name members ds [] = ([], None)"
| "rows_by_name members ds (cols # rows) =
     (case row_by_name members ds cols of
        (Some ec, r) \<Rightarrow> ([], Some ec)
      | (None, r) \<Rightarrow> (case rows_by_name members ds rows of (rs, e) \<Rightarrow> (r # rs, e)))"

text \<open>The error of the metadata: a missing column, or the first type that is not compatible.\<close>

definition meta_error :: "'v row_member list \<Rightarrow> field_description list \<Rightarrow> error_code option" where
  "meta_error members ds =
     (if \<forall>m \<in> set members. column_of ds (mb_name m) \<noteq> None
      then foldr (\<lambda>m. keep_first (ft_is_compatible (mb_traits m) (fd_type_oid (ds ! the (column_of ds (mb_name m)))))) members None
      else Some (Client field_not_found))"

definition row_type :: "'v row_member list \<Rightarrow> bool" where
  "row_type members \<longleftrightarrow> distinct (map mb_name members) \<and> (\<forall>m \<in> set members. total_traits (mb_traits m))"

text \<open>The position map that points every member at its column.\<close>

definition maps_to :: "'v row_member list \<Rightarrow> pos_map_entry list \<Rightarrow> field_description list \<Rightarrow> bool" where
  "maps_to members ents ds \<longleftrightarrow>
     list_all2 (\<lambda>m ent. \<exists>j. column_of ds (mb_name m) = Some j \<and> ent = entry_at 0 ds j) members ents"

lemma check_compatible_by_name:
  assumes "maps_to members ents ds"
  shows "check_compatible members ents =
    foldr (\<lambda>m. keep_first (ft_is_compatible (mb_traits m) (fd_type_oid (ds ! the (column_of ds (mb_name m)))))) members None"
  using assms unfolding maps_to_def
  by (induction members ents rule: list_all2_induct) (auto simp: entry_at_def)

lemma foldr_keep_first_None: "foldr (\<lambda>m. keep_first (f m)) ms None = None \<longleftrightarrow> (\<forall>m \<in> set ms. f m = None)"
  by (induction ms) (auto simp: keep_first_def)

lemma parse_members_by_name:
  assumes "maps_to members ents ds" and "length cols = length ds"
    and "\<forall>m \<in> set members. total_traits (mb_traits m) \<and>
      ft_is_compatible (mb_traits m) (fd_type_oid (ds ! the (column_of ds (mb_name m)))) = None"
  shows "parse_members members ents cols = Inr (row_by_name members ds cols)"
  using assms(1,3) unfolding maps_to_def
proof (induction members ents rule: list_all2_induct)
  case (Cons m members ent ents)
  then obtain j where j: "column_of ds (mb_name m) = Some j" "ent = entry_at 0 ds j" by blast
  have lt: "j < length cols" using column_of_Some [OF j(1)] assms(2) by simp
  have tot: "total_traits (mb_traits m)" "ft_is_compatible (mb_traits m) (fd_type_oid (ds ! j)) = None"
    using Cons.prems j(1) by simp_all
  have "ft_parse_text (mb_traits m) (cols ! j) (fd_type_oid (ds ! j)) (mb_initial m) \<noteq> None"
    "ft_parse_binary (mb_traits m) (cols ! j) (fd_type_oid (ds ! j)) (mb_initial m) \<noteq> None"
    using tot unfolding total_traits_def by blast+
  then have "parse_member ent cols m = Inr (member_by_name ds cols m)"
    using lt j by (auto simp: parse_member_def member_by_name_def entry_at_def)
  with Cons show ?case by (simp add: row_by_name_def split: prod.splits)
qed (simp add: row_by_name_def)

section \<open>The handler\<close>

lemma cb_data_rows:
  assumes "list_all2 (\<lambda>v cols. column_items v = Inr cols \<and> length cols = length ds) vs rows"
    and "cb_state h = cb_parsing_data" and "\<not> errored (cb_err h)"
    and "maps_to members (cb_pos_map h) ds"
    and "\<forall>m \<in> set members. total_traits (mb_traits m) \<and>
      ft_is_compatible (mb_traits m) (fd_type_oid (ds ! the (column_of ds (mb_name m)))) = None"
  shows "\<exists>h'. run_calls (resultset_callback members) (calls_at n (map Rm_data_row vs)) h = Inr h' \<and>
    cb_state h' = cb_parsing_data \<and> cb_rows h' = cb_rows h @ fst (rows_by_name members ds rows) \<and>
    ee_code (cb_err h') = snd (rows_by_name members ds rows) \<and> cb_info h' = cb_info h"
  using assms(1-4)
proof (induction vs rows arbitrary: h rule: list_all2_induct)
  case (Cons v vs cols rows)
  note pm = parse_members_by_name [OF Cons.prems(3) _ assms(5), of cols]
  have step: "ho_on_message (resultset_callback members) (Rm_data_row v) n h =
      (case row_by_name members ds cols of
         (Some ec, r) \<Rightarrow> Inr (cb_store_error ec (h\<lparr>cb_random_access_data := cols\<rparr>))
       | (None, r) \<Rightarrow> Inr (h\<lparr>cb_random_access_data := cols, cb_rows := cb_rows h @ [r]\<rparr>))"
    using Cons.hyps(1) Cons.prems(1,2) pm
    by (auto simp: resultset_callback_def resultset_callback_on_message_def cb_on_data_row_def Let_def
        split: prod.splits option.splits)
  obtain e r where er: "row_by_name members ds cols = (e, r)" by fastforce
  show ?case
  proof (cases e)
    case None
    then show ?thesis
      using step er Cons.prems Cons.IH [of "h\<lparr>cb_random_access_data := cols, cb_rows := cb_rows h @ [r]\<rparr>"]
      by (auto split: prod.splits)
  next
    case (Some ec)
    let ?h = "cb_store_error ec (h\<lparr>cb_random_access_data := cols\<rparr>)"
    have "run_calls (resultset_callback members) (calls_at n (map Rm_data_row vs)) ?h = Inr ?h" for vs
      using Cons.prems(1,2)
      by (induction vs) (auto simp: resultset_callback_def resultset_callback_on_message_def cb_on_data_row_def
          cb_store_error_def)
    then show ?thesis using step er Some Cons.prems(1,2) by (auto simp: cb_store_error_def)
  qed
qed simp

text \<open>Rows that arrive after the metadata was rejected are ignored.\<close>

lemma cb_ignores_rows:
  assumes "cb_state h = cb_parsing_data" and "errored (cb_err h)"
  shows "run_calls (resultset_callback members) (calls_at n (map Rm_data_row vs)) h = Inr h"
  using assms
  by (induction vs) (auto simp: resultset_callback_def resultset_callback_on_message_def cb_on_data_row_def)

lemma run_calls_append:
  "run_calls ops (cs @ ds) s = (case run_calls ops cs s of Inl fault \<Rightarrow> Inl fault | Inr s' \<Rightarrow> run_calls ops ds s')"
  by (induction cs arbitrary: s) (auto split: sum.splits)

lemma cb_result:
  assumes "row_type members" and "description_items d = Inr ds" and "length ds \<le> size_max"
    and "list_all2 (\<lambda>v cols. column_items v = Inr cols \<and> length cols = length ds) vs rows"
    and "cb_state h = cb_parsing_meta" and "\<not> errored (cb_err h)" and "length (cb_pos_map h) = length members"
  shows "\<exists>h'. run_calls (resultset_callback members)
      (calls_at n (Rm_row_description d # map Rm_data_row vs @ [Rm_command_complete tag])) h = Inr h' \<and>
    cb_state h' = cb_done \<and> cb_info h' = map_option (from_command_complete tag) (cb_info h) \<and>
    (case meta_error members ds of
       Some e \<Rightarrow> cb_rows h' = cb_rows h \<and> ee_code (cb_err h') = Some e
     | None \<Rightarrow> cb_rows h' = cb_rows h @ fst (rows_by_name members ds rows) \<and>
         ee_code (cb_err h') = snd (rows_by_name members ds rows))"
proof -
  let ?table = "map mb_name members"
  obtain out' where o: "length out' = length ?table"
    "\<And>i j. i < length ?table \<Longrightarrow> column_of ds (?table ! i) = Some j \<Longrightarrow> out' ! i = entry_at 0 ds j"
    "compute_pos_map ds ?table (cb_pos_map h) =
       Inr (if \<forall>name \<in> set ?table. column_of ds name \<noteq> None then None else Some (Client field_not_found), out')"
    using compute_pos_map_cases [of ?table "cb_pos_map h" ds] assms(1,3,7) by (auto simp: row_type_def)
  let ?h = "h\<lparr>cb_state := cb_parsing_data, cb_pos_map := out'\<rparr>"
  have maps: "maps_to members out' ds" if "\<forall>m \<in> set members. column_of ds (mb_name m) \<noteq> None"
    using that o(1,2) by (fastforce simp: maps_to_def list_all2_conv_all_nth)
  have step: "ho_on_message (resultset_callback members) (Rm_row_description d) n h =
      Inr (case meta_error members ds of None \<Rightarrow> ?h | Some e \<Rightarrow> cb_store_error e ?h)"
    using assms(2,5) o(3) check_compatible_by_name [OF maps]
    by (auto simp: resultset_callback_def resultset_callback_on_message_def cb_on_row_description_def Let_def
        meta_error_def split: option.splits)
  have fin: "ho_on_message (resultset_callback members) (Rm_command_complete tag) n g =
      Inr (g\<lparr>cb_info := map_option (from_command_complete tag) (cb_info g), cb_state := cb_done\<rparr>)"
    if "cb_state g = cb_parsing_data" for g
    using that by (simp add: resultset_callback_def resultset_callback_on_message_def cb_on_done_def)
  show ?thesis
  proof (cases "meta_error members ds")
    case None
    then have ok: "\<forall>m \<in> set members. column_of ds (mb_name m) \<noteq> None"
      "\<forall>m \<in> set members. ft_is_compatible (mb_traits m) (fd_type_oid (ds ! the (column_of ds (mb_name m)))) = None"
      by (auto simp: meta_error_def foldr_keep_first_None split: if_splits)
    have "\<exists>h'. run_calls (resultset_callback members) (calls_at n (map Rm_data_row vs)) ?h = Inr h' \<and>
        cb_state h' = cb_parsing_data \<and> cb_rows h' = cb_rows ?h @ fst (rows_by_name members ds rows) \<and>
        ee_code (cb_err h') = snd (rows_by_name members ds rows) \<and> cb_info h' = cb_info ?h"
      by (rule cb_data_rows [OF assms(4)]) (use assms(1,6) maps [OF ok(1)] ok in \<open>auto simp: row_type_def\<close>)
    then show ?thesis using step None fin by (auto simp: run_calls_append)
  next
    case (Some e)
    have "run_calls (resultset_callback members) (calls_at n (map Rm_data_row vs)) (cb_store_error e ?h) =
        Inr (cb_store_error e ?h)"
      by (rule cb_ignores_rows) (simp_all add: cb_store_error_def)
    then show ?thesis using step Some fin assms(6) by (auto simp: run_calls_append cb_store_error_def)
  qed
qed

text \<open>Replies to Parse and Bind and the offsets of the calls do not matter.\<close>

definition is_preamble :: "any_request_message \<Rightarrow> bool" where
  "is_preamble msg \<longleftrightarrow> msg = Rm_parse_complete \<or> msg = Rm_bind_complete"

lemma cb_run_filter:
  "run_calls (resultset_callback members) cs h =
     run_calls (resultset_callback members) (calls_at n (filter (\<lambda>m. \<not> is_preamble m) (map fst cs))) h"
proof (induction cs arbitrary: h)
  case (Cons c cs)
  obtain msg k where c: "c = (msg, k)" by (cases c)
  have "ho_on_message (resultset_callback members) msg k h = ho_on_message (resultset_callback members) msg n h"
    "is_preamble msg \<Longrightarrow> ho_on_message (resultset_callback members) msg n h = Inr h"
    by (auto simp: resultset_callback_def resultset_callback_on_message_def is_preamble_def)
  with Cons show ?case by (auto simp: c split: sum.splits)
qed simp

text \<open>
  C15. Reading a result into typed rows: when a request of one command is answered with a description, rows
  of its width and a command tag, the callback gets exactly the rows that reading each member from the
  last column with its name gives, up to the first row with a value that does not parse, whose error is the
  handler's result. When a column is missing or has an incompatible type, there are no rows and this is
  the result. No assertion fails and no access is out of range, whatever bytes the values have.
\<close>

theorem callback_rows_by_name:
  assumes "row_type members" and "length (cb_pos_map h0) = length members"
    and "setup_request (resultset_callback members) req h0 = Inr (None, h)"
    and "replies ac 0 (req_types req) (sync_messages ms) cs"
    and "filter (\<lambda>m. \<not> is_preamble m) (map fst cs) =
      Rm_row_description d # map Rm_data_row vs @ [Rm_command_complete tag]"
    and "description_items d = Inr ds" and "length ds \<le> size_max"
    and "list_all2 (\<lambda>v cols. column_items v = Inr cols \<and> length cols = length ds) vs rows"
  shows "\<exists>f' rest h'. rr_run (guarded (resultset_callback members)) ms (read_response_fsm_init req (Inr h) ac) =
      Some (Fsm_done None, f', rest) \<and> sync_messages rest = [] \<and> rr_handler f' = Inr h' \<and>
    cb_info h' = map_option (\<lambda>_. from_command_complete tag reset_info) (cb_info h0) \<and>
    (case meta_error members ds of
       Some e \<Rightarrow> cb_rows h' = cb_rows h0 \<and> ee_code (cb_err h') = Some e
     | None \<Rightarrow> cb_rows h' = cb_rows h0 @ fst (rows_by_name members ds rows) \<and>
         ee_code (cb_err h') = snd (rows_by_name members ds rows))"
proof -
  note st = setup_requestE [OF assms(3)]
  have h: "h = h0\<lparr>cb_state := cb_parsing_meta, cb_err := no_error, cb_info := map_option (\<lambda>_. reset_info) (cb_info h0)\<rparr>"
    using st(2) by (simp add: resultset_callback_def resultset_callback_setup_def)
  have "\<exists>h'. run_calls (resultset_callback members)
      (calls_at 0 (Rm_row_description d # map Rm_data_row vs @ [Rm_command_complete tag])) h = Inr h' \<and>
    cb_state h' = cb_done \<and> cb_info h' = map_option (from_command_complete tag) (cb_info h) \<and>
    (case meta_error members ds of
       Some e \<Rightarrow> cb_rows h' = cb_rows h \<and> ee_code (cb_err h') = Some e
     | None \<Rightarrow> cb_rows h' = cb_rows h @ fst (rows_by_name members ds rows) \<and>
         ee_code (cb_err h') = snd (rows_by_name members ds rows))"
    by (rule cb_result [OF assms(1,6,7,8)]) (simp_all add: h assms(2))
  moreover have "cb_rows h = cb_rows h0"
    "map_option (from_command_complete tag) (cb_info h) = map_option (\<lambda>_. from_command_complete tag reset_info) (cb_info h0)"
    unfolding h by (simp_all add: option.map_comp comp_def)
  ultimately obtain h' where h': "run_calls (resultset_callback members) cs h = Inr h'"
    "cb_info h' = map_option (\<lambda>_. from_command_complete tag reset_info) (cb_info h0)"
    "case meta_error members ds of
       Some e \<Rightarrow> cb_rows h' = cb_rows h0 \<and> ee_code (cb_err h') = Some e
     | None \<Rightarrow> cb_rows h' = cb_rows h0 @ fst (rows_by_name members ds rows) \<and>
         ee_code (cb_err h') = snd (rows_by_name members ds rows)"
    using cb_run_filter [of members cs h 0] unfolding assms(5) by metis
  then show ?thesis using handler_run [OF st(1) assms(4), of "resultset_callback members" h] by auto
qed

definition sample_members :: "bytes row_member list" where
  "sample_members = [\<lparr>mb_name = of_str ''a'', mb_initial = [], mb_traits = string_traits\<rparr>]"

definition sample_callback :: "bytes resultset_callback_t" where
  "sample_callback = resultset_callback_init None [entry_at 0 [sample_column] 0]"

lemma sample_names: "mb_name (hd sample_members) = fd_name sample_column"
  by (simp add: sample_members_def sample_column_def)

lemma sample_by_name:
  "meta_error sample_members [sample_column] = None"
  "rows_by_name sample_members [sample_column] [[Some (of_str ''x'')], [None], [Some (of_str ''y'')]] =
     ([[of_str ''x'']], Some (Client unexpected_null))"
  by (simp_all add: meta_error_def row_by_name_def member_by_name_def sample_members_def sample_column_def
      string_traits_def compatible_if_def is_string_oid_def oid_defs parse_text_text_def)

theorem callback_rows_by_name_witness:
  "\<exists>f' rest h'. rr_run (guarded (resultset_callback sample_members))
      [Row_description sample_description, Data_row (sample_row (Some (of_str ''x''))), Data_row (sample_row None),
       Data_row (sample_row (Some (of_str ''y''))), Command_complete (of_str ''SELECT 3''), Ready_for_query status_idle]
      (read_response_fsm_init one_query (Inr sample_callback) False) = Some (Fsm_done None, f', rest) \<and>
    sync_messages rest = [] \<and> rr_handler f' = Inr h' \<and>
    cb_rows h' = [[of_str ''x'']] \<and> ee_code (cb_err h') = Some (Client unexpected_null)"
proof -
  let ?vs = "[sample_row (Some (of_str ''x'')), sample_row None, sample_row (Some (of_str ''y''))]"
  let ?ms = "Row_description sample_description # map Data_row ?vs @
    [Command_complete (of_str ''SELECT 3''), Ready_for_query status_idle]"
  let ?cs = "calls_at 0 (Rm_row_description sample_description # map Rm_data_row ?vs @ [Rm_command_complete (of_str ''SELECT 3'')])"
  have 1: "row_type sample_members"
    using string_field.total by (simp add: row_type_def sample_members_def)
  have 2: "length (cb_pos_map sample_callback) = length sample_members"
    by (simp add: sample_callback_def resultset_callback_init_def sample_members_def)
  have 3: "setup_request (resultset_callback sample_members) one_query sample_callback = Inr (None, sample_callback)"
    by (simp add: setup_request_def check_request_def one_query_def resultset_callback_def resultset_callback_setup_def
        resultset_setup_def skip_syncs_def is_sync_or_flush_def offset_at_def with_state_def sample_callback_def
        resultset_callback_init_def)
  have "query_reply False (Row_description sample_description # map Data_row ?vs @ [Command_complete (of_str ''SELECT 3'')])
      (Rm_row_description sample_description # map Rm_data_row ?vs @ [Rm_command_complete (of_str ''SELECT 3'')])"
    by (intro query_ok results_one result_rows)
  from replies_query [OF this replies_end, of 0 status_idle]
  have 4: "replies False 0 (req_types one_query) (sync_messages ?ms) ?cs"
    by (simp add: one_query_def sync_messages_def)
  have 5: "filter (\<lambda>m. \<not> is_preamble m) (map fst ?cs) =
      Rm_row_description sample_description # map Rm_data_row ?vs @ [Rm_command_complete (of_str ''SELECT 3'')]"
    by (simp add: is_preamble_def)
  have wf: "wf_field_view (Some (of_str ''y''))" by (simp add: wf_field_view_def int32_max_def of_str_def)
  have 6: "list_all2 (\<lambda>v cols. column_items v = Inr cols \<and> length cols = length [sample_column]) ?vs
      [[Some (of_str ''x'')], [None], [Some (of_str ''y'')]]"
    by (simp add: sample_items sample_sizes wf)
  show ?thesis
    using callback_rows_by_name [OF 1 2 3 4 5 sample_items(1) _ 6]
    by (auto simp del: rr_run.simps rows_by_name.simps simp: sample_by_name sample_callback_def resultset_callback_init_def size_max_def)
qed

end
