(* ===== verification/Pg_Exec.thy ===== *)
theory Pg_Exec
  imports Pg_Framing Pg_Read_Buffer Pg_Dispatch
begin

text \<open>
  Executing a request: the state machine of \<^verbatim>\<open>exec_fsm.cpp\<close>, which checks the request, asks the transport
  to write it, and feeds the messages it finds in the read buffer to the response machine, asking for more
  bytes whenever a message is incomplete. The machine is a coroutine: its state is the point it resumes at.
  A step returns \<open>None\<close> where the code would violate an assertion.
\<close>

section \<open>The machine\<close>

record connection_state =
  cst_write_buffer :: bytes
  cst_read_buffer :: read_buffer
  cst_backend_process_id :: int32
  cst_backend_secret_key :: int32
  cst_shared_diag :: bytes

text \<open>The requests to the transport: a read offers the room of the prepared area.\<close>

datatype io_result = Io_done "error_code option" | Io_read nat | Io_write bytes

record 's exec_fsm =
  ef_resume_point :: nat
  ef_request :: request
  ef_read_fsm :: "'s checked read_response_fsm"

definition exec_fsm_init :: "request \<Rightarrow> 's \<Rightarrow> 's exec_fsm" where
  "exec_fsm_init req s =
     \<lparr>ef_resume_point = 0, ef_request = req, ef_read_fsm = read_response_fsm_init req (Inr s) False\<rparr>"

abbreviation buffered :: "connection_state \<Rightarrow> bytes" where
  "buffered st \<equiv> committed_area (cst_read_buffer st)"

definition cst_consume :: "nat \<Rightarrow> connection_state \<Rightarrow> connection_state" where
  "cst_consume n st = st\<lparr>cst_read_buffer := rb_consume n (cst_read_buffer st)\<rparr>"

lemma consume_length:
  assumes "0 < n" and "n \<le> length (committed_area b)"
  shows "length (committed_area (rb_consume n b)) < length (committed_area b)"
proof -
  let ?p = "rb_prepared_offset b" and ?c = "rb_committed_offset b" and ?l = "length (rb_buffer b)"
  have "min (?l - ?c) (?p - ?c) = length (committed_area b)" by (simp add: committed_area_def)
  moreover have "length (committed_area (rb_consume n b)) = min (?l - (?c + n)) (?p - (?c + n))"
    using assms(2) by (simp add: rb_consume_def committed_area_def)
  ultimately show ?thesis using assms by linarith
qed

lemma consume_shorter:
  assumes "pmr_ec (parse_message (committed_area b)) = None"
  shows "length (committed_area (rb_consume (pmr_size (parse_message (committed_area b))) b)) <
    length (committed_area b)"
  using msg.complete_size [OF assms] consume_length by blast

text \<open>The loop that reads the response.\<close>

function exec_loop ::
    "'s handler_ops \<Rightarrow> (nat \<Rightarrow> bytes) \<Rightarrow> connection_state \<Rightarrow> 's exec_fsm \<Rightarrow>
     (io_result \<times> connection_state \<times> 's exec_fsm) option" where
  "exec_loop ops alloc st f =
     (let msg_res = parse_message (buffered st)
      in case pmr_ec msg_res of
           None \<Rightarrow>
             (case rr_resume (guarded ops) (pmr_message msg_res) (ef_read_fsm f) of
                None \<Rightarrow> None
              | Some (Fsm_done ec, rf) \<Rightarrow>
                  Some (Io_done ec, cst_consume (pmr_size msg_res) st, f\<lparr>ef_read_fsm := rf\<rparr>)
              | Some (Fsm_read, rf) \<Rightarrow>
                  exec_loop ops alloc (cst_consume (pmr_size msg_res) st) (f\<lparr>ef_read_fsm := rf\<rparr>))
         | Some ec \<Rightarrow>
             if ec = Client needs_more
             then (let b = prepare alloc (pmr_size msg_res) (cst_read_buffer st)
                   in Some (Io_read (prepared_area_size b), st\<lparr>cst_read_buffer := b\<rparr>, f\<lparr>ef_resume_point := 2\<rparr>))
             else Some (Io_done (Some ec), st, f))"
  by pat_completeness auto
termination
  by (relation "measure (\<lambda>(ops, alloc, st, f). length (buffered st))")
    (simp_all add: cst_consume_def consume_shorter)

declare exec_loop.simps [simp del]

definition exec_resume ::
    "'s handler_ops \<Rightarrow> (nat \<Rightarrow> bytes) \<Rightarrow> connection_state \<Rightarrow> error_code option \<Rightarrow> nat \<Rightarrow> 's exec_fsm \<Rightarrow>
     (io_result \<times> connection_state \<times> 's exec_fsm) option" where
  "exec_resume ops alloc st ec bytes_transferred f =
     (if ef_resume_point f = 0 then
        (case rr_handler (ef_read_fsm f) of
           Inl fault \<Rightarrow> None
         | Inr s \<Rightarrow>
             (case setup_request ops (ef_request f) s of
                Inl fault \<Rightarrow> None
              | Inr (ec_req, s') \<Rightarrow>
                  (let f' = f\<lparr>ef_read_fsm := (ef_read_fsm f)\<lparr>rr_handler := Inr s'\<rparr>\<rparr>
                   in case ec_req of
                        Some e \<Rightarrow> Some (Io_done (Some e), st, f')
                      | None \<Rightarrow> Some (Io_write (req_buffer (ef_request f)), st, f'\<lparr>ef_resume_point := 1\<rparr>))))
      else if ef_resume_point f = 1 then
        (if ec \<noteq> None then Some (Io_done ec, st, f) else exec_loop ops alloc st f)
      else if ef_resume_point f = 2 then
        (if ec \<noteq> None then Some (Io_done ec, st, f)
         else exec_loop ops alloc
                (st\<lparr>cst_read_buffer := rb_commit bytes_transferred (cst_read_buffer st)\<rparr>) f)
      else None)"

definition get_result :: "'s handler_ops \<Rightarrow> error_code option \<Rightarrow> 's \<Rightarrow> extended_error" where
  "get_result ops ec s = (if ec \<noteq> None then \<lparr>ee_code = ec, ee_diag = []\<rparr> else ho_result ops s)"

section \<open>What the bytes mean\<close>

text \<open>
  The messages in a string of bytes and the response machine on them, without a buffer: the result of
  the execution, or \<open>None\<close> where it waits for more bytes, and the response machine.
\<close>

definition exec_spec ::
    "'s handler_ops \<Rightarrow> 's checked read_response_fsm \<Rightarrow> bytes \<Rightarrow>
     (error_code option option \<times> 's checked read_response_fsm) option" where
  "exec_spec ops rf bs =
     (case drain parse_message bs of
        (ms, rest, e) \<Rightarrow>
          (case rr_run (guarded ops) ms rf of
             None \<Rightarrow> None
           | Some (Fsm_done ec, rf', ms') \<Rightarrow> Some (Some ec, rf')
           | Some (Fsm_read, rf', ms') \<Rightarrow> Some (map_option Some e, rf')))"

lemma exec_spec_unfold:
  "exec_spec ops rf bs =
     (case pmr_ec (parse_message bs) of
        None \<Rightarrow>
          (case rr_resume (guarded ops) (pmr_message (parse_message bs)) rf of
             None \<Rightarrow> None
           | Some (Fsm_done ec, rf') \<Rightarrow> Some (Some ec, rf')
           | Some (Fsm_read, rf') \<Rightarrow> exec_spec ops rf' (drop (pmr_size (parse_message bs)) bs))
      | Some ec \<Rightarrow> if ec = Client needs_more then Some (None, rf) else Some (Some (Some ec), rf))"
  unfolding exec_spec_def
  by (subst msg.drain_unfold) (auto split: option.splits prod.splits fsm_result.splits)

text \<open>\<open>resumable ops rf bs rf' rest\<close>: after reading what is complete in \<open>bs\<close> the machine is in \<open>rf'\<close> with \<open>rest\<close> left.\<close>

definition resumable where
  "resumable ops rf bs rf' rest \<longleftrightarrow> (\<forall>extra. exec_spec ops rf' (rest @ extra) = exec_spec ops rf (bs @ extra))"

definition rb_ready :: "(nat \<Rightarrow> bytes) \<Rightarrow> connection_state \<Rightarrow> bool" where
  "rb_ready alloc st \<longleftrightarrow> (\<forall>n. length (alloc n) = n) \<and> rb_inv (cst_read_buffer st)"

lemma missing_fits:
  assumes "pmr_ec (parse_message bs) = Some (Client needs_more)"
  shows "length bs + pmr_size (parse_message bs) \<le> size_max"
proof (cases bs rule: parse_message_cases)
  case (partial h)
  have "unat (mh_size h) < 2 ^ 32" using unsigned_less [of "mh_size h"] by simp
  then show ?thesis using partial by (simp add: parse_message_partial size_max_def)
qed (use assms in \<open>auto simp: parse_message_short parse_message_bad_header size_max_def whole_not_needs_more\<close>)

text \<open>One run of the loop: it ends with the result of the bytes it has, or asks for more.\<close>

lemma exec_loop_spec:
  assumes "exec_spec ops (ef_read_fsm f) (buffered st) = Some (out, rf')" and "rb_ready alloc st"
  shows "\<exists>st' f'. exec_loop ops alloc st f =
      Some (case out of Some ec \<Rightarrow> Io_done ec | None \<Rightarrow> Io_read (prepared_area_size (cst_read_buffer st')), st', f') \<and>
    ef_read_fsm f' = rf' \<and> rb_ready alloc st' \<and>
    (out = None \<longrightarrow> ef_resume_point f' = 2 \<and> 0 < prepared_area_size (cst_read_buffer st') \<and>
       resumable ops (ef_read_fsm f) (buffered st) rf' (buffered st'))"
  using assms
proof (induction ops alloc st f rule: exec_loop.induct)
  case (1 ops alloc st f)
  let ?r = "parse_message (buffered st)"
  show ?case
  proof (cases "pmr_ec ?r")
    case None
    let ?st = "cst_consume (pmr_size ?r) st"
    have inv: "rb_ready alloc ?st" "buffered ?st = drop (pmr_size ?r) (buffered st)"
      using "1.prems"(2) consume_inv by (auto simp: rb_ready_def cst_consume_def)
    obtain res rf where rf: "rr_resume (guarded ops) (pmr_message ?r) (ef_read_fsm f) = Some (res, rf)"
      using "1.prems"(1) None by (subst (asm) exec_spec_unfold) (auto split: option.splits)
    show ?thesis
    proof (cases res)
      case (Fsm_done ec)
      then have "out = Some ec" "rf' = rf"
        using "1.prems"(1) None rf by (subst (asm) exec_spec_unfold, simp)+
      then show ?thesis using None rf Fsm_done inv(1) by (subst exec_loop.simps) simp
    next
      case Fsm_read
      let ?f = "f\<lparr>ef_read_fsm := rf\<rparr>"
      have spec: "exec_spec ops (ef_read_fsm ?f) (buffered ?st) = Some (out, rf')"
        using "1.prems"(1) None rf Fsm_read inv(2) by (subst (asm) exec_spec_unfold) simp
      have cont: "resumable ops (ef_read_fsm f) (buffered st) rf'' rest"
        if "resumable ops rf (buffered ?st) rf'' rest" for rf'' rest
      proof -
        have "exec_spec ops (ef_read_fsm f) (buffered st @ extra) = exec_spec ops rf (buffered ?st @ extra)" for extra
          using parse_message_stable [of "buffered st" extra] msg.complete_size [OF None] None rf Fsm_read inv(2)
          by (subst exec_spec_unfold) simp
        with that show ?thesis by (simp add: resumable_def)
      qed
      from "1.IH" [OF refl None rf refl] Fsm_read spec inv(1) cont show ?thesis
        using None rf by (subst exec_loop.simps) (fastforce simp: Fsm_read)
    qed
  next
    case (Some ec)
    show ?thesis
    proof (cases "ec = Client needs_more")
      case True
      let ?b = "prepare alloc (pmr_size ?r) (cst_read_buffer st)"
      have out: "out = None" "rf' = ef_read_fsm f"
        using "1.prems"(1) Some True by (subst (asm) exec_spec_unfold, simp)+
      have p: "rb_inv ?b" "committed_area ?b = buffered st" "pmr_size ?r \<le> prepared_area_size ?b"
        using prepare_inv [of alloc "cst_read_buffer st" "pmr_size ?r"] missing_fits [of "buffered st"] Some True
          "1.prems"(2) by (auto simp: rb_ready_def)
      moreover have "0 < pmr_size ?r" using msg.missing_positive Some True by blast
      ultimately show ?thesis
        using Some True out "1.prems"(2)
        by (subst exec_loop.simps)
          (auto simp: rb_ready_def resumable_def Let_def intro!: exI [of _ "st\<lparr>cst_read_buffer := ?b\<rparr>"])
    next
      case False
      then have "out = Some (Some ec)" "rf' = ef_read_fsm f"
        using "1.prems"(1) Some by (subst (asm) exec_spec_unfold, simp)+
      then show ?thesis using Some False "1.prems"(2) by (subst exec_loop.simps) simp
    qed
  qed
qed

section \<open>The transport\<close>

text \<open>
  A transport with the bytes of the server: a read returns at least one byte, as many as it likes up to
  the room it was offered. The sizes it chooses are the list \<open>ks\<close>. The caller stops when the machine is
  done or there are no bytes left.
\<close>

definition receive_bytes :: "bytes \<Rightarrow> connection_state \<Rightarrow> connection_state" where
  "receive_bytes bs st = st\<lparr>cst_read_buffer := fill_prepared bs (cst_read_buffer st)\<rparr>"

fun exec_feed ::
    "'s handler_ops \<Rightarrow> (nat \<Rightarrow> bytes) \<Rightarrow> nat list \<Rightarrow> bytes \<Rightarrow> (io_result \<times> connection_state \<times> 's exec_fsm) option \<Rightarrow>
     (io_result \<times> connection_state \<times> 's exec_fsm) option" where
  "exec_feed ops alloc (k # ks) (b # bs) (Some (Io_read room, st, f)) =
     (let chunk = take (min room (max 1 k)) (b # bs)
      in exec_feed ops alloc ks (drop (length chunk) (b # bs))
           (exec_resume ops alloc (receive_bytes chunk st) None (length chunk) f))"
| "exec_feed ops alloc ks bs x = x"

lemma take_chunk: "take n xs @ drop (length (take n xs)) xs = xs"
  by (cases "n \<le> length xs") auto

lemma receive_commit:
  assumes "rb_ready alloc st" and "length bs \<le> prepared_area_size (cst_read_buffer st)"
  shows "rb_ready alloc ((receive_bytes bs st)\<lparr>cst_read_buffer := rb_commit (length bs) (cst_read_buffer (receive_bytes bs st))\<rparr>)"
    and "buffered ((receive_bytes bs st)\<lparr>cst_read_buffer := rb_commit (length bs) (cst_read_buffer (receive_bytes bs st))\<rparr>) =
      buffered st @ bs"
  using fill_commit_inv [of "cst_read_buffer st" bs] assms by (auto simp: rb_ready_def receive_bytes_def)

lemma exec_spec_prefix:
  assumes "exec_spec ops rf (bs @ cs) \<noteq> None"
  shows "exec_spec ops rf bs \<noteq> None"
  using assms
proof (induction "length bs" arbitrary: bs rf rule: less_induct)
  case less
  show ?case
  proof (cases "pmr_ec (parse_message bs)")
    case None
    note st = parse_message_stable [of bs cs] and size = msg.complete_size [OF None]
    have "drop (pmr_size (parse_message bs)) (bs @ cs) = drop (pmr_size (parse_message bs)) bs @ cs"
      using size by simp
    moreover have "length (drop (pmr_size (parse_message bs)) bs) < length bs" using size by (cases bs) auto
    ultimately show ?thesis
      using less.prems less.hyps [of "drop (pmr_size (parse_message bs)) bs"] st None
      by (subst exec_spec_unfold, subst (asm) exec_spec_unfold) (auto split: option.splits fsm_result.splits)
  qed (subst exec_spec_unfold, simp)
qed

lemma exec_spec_done_append:
  assumes "exec_spec ops rf bs = Some (Some ec, rf')"
  shows "exec_spec ops rf (bs @ cs) = Some (Some ec, rf')"
  using assms
proof (induction "length bs" arbitrary: bs rf rule: less_induct)
  case less
  have st: "parse_message (bs @ cs) = parse_message bs"
    using less.prems by (intro parse_message_stable) (subst (asm) exec_spec_unfold, auto)
  show ?case
  proof (cases "pmr_ec (parse_message bs)")
    case None
    note size = msg.complete_size [OF None]
    have "drop (pmr_size (parse_message bs)) (bs @ cs) = drop (pmr_size (parse_message bs)) bs @ cs"
      using size by simp
    moreover have "length (drop (pmr_size (parse_message bs)) bs) < length bs" using size by (cases bs) auto
    ultimately show ?thesis
      using less.prems less.hyps [of "drop (pmr_size (parse_message bs)) bs"] st None
      by (subst exec_spec_unfold, subst (asm) exec_spec_unfold) (auto split: option.splits fsm_result.splits)
  next
    case (Some e)
    then show ?thesis
      using less.prems st by (subst exec_spec_unfold, subst (asm) exec_spec_unfold) (auto split: if_splits)
  qed
qed

text \<open>The outcome of an execution, as the transport sees it.\<close>

definition delivers ::
    "(io_result \<times> connection_state \<times> 's exec_fsm) option \<Rightarrow> error_code option option \<Rightarrow>
     's checked read_response_fsm \<Rightarrow> bool" where
  "delivers x out rf' \<longleftrightarrow> (\<exists>res st f. x = Some (res, st, f) \<and> ef_read_fsm f = rf' \<and>
     (case out of Some ec \<Rightarrow> res = Io_done ec | None \<Rightarrow> (\<exists>room. res = Io_read room \<and> 0 < room)))"

lemma exec_feed_spec:
  assumes "exec_spec ops (ef_read_fsm f) (buffered st @ bs) = Some (out, rf')" and "rb_ready alloc st"
    and "length bs \<le> length ks"
  shows "delivers (exec_feed ops alloc ks bs (exec_loop ops alloc st f)) out rf'"
  using assms
proof (induction "length ks" arbitrary: ks bs st f)
  case 0
  then have bs: "bs = []" by simp
  with 0 exec_loop_spec [of ops f st out rf' alloc] show ?case
    by (auto simp: delivers_def split: option.splits)
next
  case (Suc n)
  obtain k ks' where ks: "ks = k # ks'" using Suc.hyps(2) by (cases ks) auto
  from exec_spec_prefix [of ops "ef_read_fsm f" "buffered st" bs] Suc.prems(1)
  obtain out1 rf1 where s1: "exec_spec ops (ef_read_fsm f) (buffered st) = Some (out1, rf1)" by auto
  from exec_loop_spec [OF s1 Suc.prems(2)] obtain st1 f1 where
    l: "exec_loop ops alloc st f =
        Some (case out1 of Some ec \<Rightarrow> Io_done ec | None \<Rightarrow> Io_read (prepared_area_size (cst_read_buffer st1)), st1, f1)"
      "ef_read_fsm f1 = rf1" "rb_ready alloc st1"
      "out1 = None \<longrightarrow> ef_resume_point f1 = 2 \<and> 0 < prepared_area_size (cst_read_buffer st1) \<and>
        resumable ops (ef_read_fsm f) (buffered st) rf1 (buffered st1)" by blast
  show ?case
  proof (cases out1)
    case (Some ec)
    then have "out = Some ec" "rf' = rf1" using exec_spec_done_append [of ops "ef_read_fsm f" "buffered st" ec rf1 bs] s1 Suc.prems(1) by simp_all
    then show ?thesis using l Some by (simp add: delivers_def)
  next
    case None
    show ?thesis
    proof (cases bs)
      case Nil
      then have "out = None" "rf' = rf1" using s1 Suc.prems(1) None by simp_all
      then show ?thesis using l None Nil by (simp add: delivers_def)
    next
      case (Cons b bs')
      let ?room = "prepared_area_size (cst_read_buffer st1)"
      let ?chunk = "take (min ?room (max 1 k)) bs"
      let ?st = "receive_bytes ?chunk st1"
      let ?st2 = "?st\<lparr>cst_read_buffer := rb_commit (length ?chunk) (cst_read_buffer ?st)\<rparr>"
      have room: "0 < ?room" using l(4) None by simp
      have fits: "length ?chunk \<le> ?room" by simp
      note rc = receive_commit [OF l(3) fits]
      have res: "exec_resume ops alloc ?st None (length ?chunk) f1 = exec_loop ops alloc ?st2 f1"
        using l(4) None by (simp add: exec_resume_def)
      have split: "?chunk @ drop (length ?chunk) bs = bs" by (rule take_chunk)
      have "exec_spec ops (ef_read_fsm f1) (buffered ?st2 @ drop (length ?chunk) bs) = Some (out, rf')"
        using l(2,4) None Suc.prems(1) rc(2) split by (simp add: resumable_def)
      moreover have "length (drop (length ?chunk) bs) \<le> length ks'"
        using Suc.prems(3) room Cons ks by simp
      ultimately have "delivers (exec_feed ops alloc ks' (drop (length ?chunk) bs) (exec_loop ops alloc ?st2 f1)) out rf'"
        using Suc.hyps ks rc(1) by simp
      then show ?thesis using l(1) None res by (simp add: ks Cons Let_def)
    qed
  qed
qed

section \<open>Executions\<close>

text \<open>The machine after the request was written.\<close>

definition exec_written :: "request \<Rightarrow> 's \<Rightarrow> 's exec_fsm" where
  "exec_written req s = (exec_fsm_init req s)\<lparr>ef_resume_point := 1\<rparr>"

lemma exec_start:
  "setup_request ops req s0 = Inr (None, s) \<Longrightarrow>
     exec_resume ops alloc st ec n (exec_fsm_init req s0) = Some (Io_write (req_buffer req), st, exec_written req s)"
  by (simp add: exec_resume_def exec_fsm_init_def exec_written_def read_response_fsm_init_def)

lemma exec_reads: "exec_resume ops alloc st None n (exec_written req s) = exec_loop ops alloc st (exec_written req s)"
  by (simp add: exec_resume_def exec_written_def)

text \<open>
  The outcome of an execution is a function of the bytes the server sent: however the transport splits
  them into reads, whatever fresh memory contains and whatever part of them is in the buffer already,
  the machine ends with the same error code and the same state of the response handler, or waits for more
  bytes with room to receive them, as the response machine on the messages in the bytes prescribes.
\<close>

theorem exec_independent_of_reads:
  assumes "exec_spec ops (read_response_fsm_init req (Inr s) False) (buffered st @ bs) = Some (out, rf')"
    and "rb_ready alloc st" and "length bs \<le> length ks"
  shows "delivers (exec_feed ops alloc ks bs (exec_resume ops alloc st None n (exec_written req s))) out rf'"
  unfolding exec_reads
  by (rule exec_feed_spec [OF _ assms(2,3)]) (use assms(1) in \<open>simp add: exec_written_def exec_fsm_init_def\<close>)

text \<open>
  C2. A request is executed to its end: when the handler accepts it and the server answers with the bytes of
  a conversation the protocol prescribes, the machine first asks for the request to be written, and when the
  bytes have arrived, in reads of any sizes, it is done without an error of its own, and the handler has
  been called with exactly the prescribed calls, so that the result of the execution is the handler's.
\<close>

theorem exec_completes:
  assumes "setup_request ops req s0 = Inr (None, s)"
    and "drain parse_message (buffered st @ bs) = (ms, rest, None)"
    and "replies False 0 (req_types req) (sync_messages ms) cs"
    and "run_calls ops cs s = Inr s'"
    and "rb_ready alloc st" and "length bs \<le> length ks"
  shows "exec_resume ops alloc st ec n (exec_fsm_init req s0) = Some (Io_write (req_buffer req), st, exec_written req s) \<and>
    (\<exists>rf. delivers (exec_feed ops alloc ks bs (exec_resume ops alloc st None n' (exec_written req s))) (Some None) rf \<and>
       rr_handler rf = Inr s' \<and> get_result ops None s' = ho_result ops s')"
proof -
  obtain f' rest' where r: "rr_run (guarded ops) ms (read_response_fsm_init req (Inr s) False) = Some (Fsm_done None, f', rest')"
    "rr_handler f' = run_calls ops cs s"
    using handler_run [OF setup_requestE(1) [OF assms(1)] assms(3), of ops s] by blast
  have "exec_spec ops (read_response_fsm_init req (Inr s) False) (buffered st @ bs) = Some (Some None, f')"
    using assms(2) r(1) by (simp add: exec_spec_def)
  then have "delivers (exec_feed ops alloc ks bs (exec_resume ops alloc st None n' (exec_written req s))) (Some None) f'"
    unfolding exec_reads
    by (intro exec_feed_spec [OF _ assms(5,6)]) (simp add: exec_written_def exec_fsm_init_def)
  then show ?thesis using exec_start [OF assms(1)] r(2) assms(4) by (auto simp: get_result_def)
qed

definition sample_request :: request where
  "sample_request = \<lparr>req_buffer = [], req_types = [msg_close, msg_sync], req_autosync = True\<rparr>"

text \<open>A CloseComplete and a ReadyForQuery.\<close>

definition sample_bytes :: bytes where
  "sample_bytes = [0x33, 0, 0, 0, 4, 0x5a, 0, 0, 0, 5, 0x49]"

definition empty_state :: connection_state where
  "empty_state = \<lparr>cst_write_buffer = [], cst_read_buffer = read_buffer_init (\<lambda>n. replicate n 0) 4,
     cst_backend_process_id = 0, cst_backend_secret_key = 0, cst_shared_diag = []\<rparr>"

lemma empty_state_ready: "rb_ready (\<lambda>n. replicate n 0) empty_state" "buffered empty_state = []"
  using init_inv [of "\<lambda>n. replicate n 0" 4] by (simp_all add: rb_ready_def empty_state_def)

lemma sample_drain: "drain parse_message sample_bytes = ([Close_complete, Ready_for_query status_idle], [], None)"
  by code_simp

lemma sample_length: "length sample_bytes = 11"
  by (simp add: sample_bytes_def)

lemma sample_replies:
  "replies False 0 (req_types sample_request) (sync_messages [Close_complete, Ready_for_query status_idle]) [(Rm_close_complete, 0)]"
  using replies_simple [OF simple_reply.intros(3) replies_sync [OF replies_end]]
  by (simp add: sample_request_def sync_messages_def)

lemma sample_setup: "setup_request check_close sample_request no_error = Inr (None, no_error)"
  by (simp add: setup_evals sample_request_def check_close_def)

lemma sample_exec_spec:
  "\<exists>rf. exec_spec check_close (read_response_fsm_init sample_request (Inr no_error) False) sample_bytes = Some (Some None, rf)"
  using handler_run [OF setup_requestE(1) [OF sample_setup] sample_replies, of check_close no_error]
  by (auto simp: exec_spec_def sample_drain simp del: rr_run.simps)

theorem exec_independent_of_reads_witness:
  "\<exists>rf. delivers (exec_feed check_close (\<lambda>n. replicate n 0) (replicate 11 3) sample_bytes
     (exec_resume check_close (\<lambda>n. replicate n 0) empty_state None 0 (exec_written sample_request no_error))) (Some None) rf"
proof -
  obtain rf where "exec_spec check_close (read_response_fsm_init sample_request (Inr no_error) False) sample_bytes = Some (Some None, rf)"
    using sample_exec_spec by blast
  then show ?thesis
    using exec_independent_of_reads [OF _ empty_state_ready(1), of check_close sample_request no_error sample_bytes "Some None" rf "replicate 11 3" 0]
    by (auto simp: empty_state_ready(2) sample_length)
qed

theorem exec_completes_witness:
  "\<exists>rf. delivers (exec_feed check_close (\<lambda>n. replicate n 0) (replicate 11 2) sample_bytes
     (exec_resume check_close (\<lambda>n. replicate n 0) empty_state None 0 (exec_written sample_request no_error))) (Some None) rf \<and>
   rr_handler rf = Inr no_error"
proof -
  have "run_calls check_close [(Rm_close_complete, 0)] no_error = Inr no_error"
    by (simp add: check_close_def maybe_store_error_of_def)
  then show ?thesis
    using exec_completes [OF sample_setup _ sample_replies _ empty_state_ready(1), of sample_bytes "[]" no_error "replicate 11 2" None 0 0]
    by (auto simp: empty_state_ready(2) sample_drain sample_length)
qed

end
