(* ===== verification/Pg_Base64.thy ===== *)
theory Pg_Base64
  imports Pg_Error
begin

unbundle bit_operations_syntax

text \<open>
  The base64 codec of \<^verbatim>\<open>nativepg_internal/base64.cpp\<close>, used for the salts, proofs and signatures of
  the SCRAM exchange. The tables are the tables of the source. A look-up in the inverse table converts
  a \<^verbatim>\<open>char\<close> to \<^verbatim>\<open>std::size_t\<close>: where \<^verbatim>\<open>char\<close> is signed a character from 0x80 on becomes an index far
  beyond the table, so the look-up, and with it the decoder, has the result \<open>None\<close> there.
\<close>

section \<open>Sizes and tables\<close>

definition equals_sign :: byte where
  "equals_sign = of_char CHR ''=''"

definition encoded_size :: "bytes \<Rightarrow> nat" where
  "encoded_size input = 4 * ((length input + 2) div 3)"

definition get_padding :: "bytes \<Rightarrow> nat" where
  "get_padding input =
     of_bool (last input = equals_sign) + of_bool (input ! (length input - 2) = equals_sign)"

definition decoded_size :: "bytes \<Rightarrow> nat" where
  "decoded_size input = (if input = [] then 0 else length input * 3 div 4 - get_padding input)"

definition alphabet :: bytes where
  "alphabet = of_str (''ABCDEFGHIJKLMNOP'' @ ''QRSTUVWXYZabcdef'' @ ''ghijklmnopqrstuv'' @ ''wxyz0123456789+/'')"

definition inverse_tab :: bytes where
  "inverse_tab =
    [-1, -1, -1, -1, -1, -1, -1, -1, -1, -1, -1, -1, -1, -1, -1, -1,
     -1, -1, -1, -1, -1, -1, -1, -1, -1, -1, -1, -1, -1, -1, -1, -1,
     -1, -1, -1, -1, -1, -1, -1, -1, -1, -1, -1, 62, -1, -1, -1, 63,
     52, 53, 54, 55, 56, 57, 58, 59, 60, 61, -1, -1, -1, -1, -1, -1,
     -1, 0,  1,  2,  3,  4,  5,  6,  7,  8,  9,  10, 11, 12, 13, 14,
     15, 16, 17, 18, 19, 20, 21, 22, 23, 24, 25, -1, -1, -1, -1, -1,
     -1, 26, 27, 28, 29, 30, 31, 32, 33, 34, 35, 36, 37, 38, 39, 40,
     41, 42, 43, 44, 45, 46, 47, 48, 49, 50, 51, -1, -1, -1, -1, -1] @ replicate 128 (-1)"

text \<open>\<^verbatim>\<open>inverse_tab[static_cast<std::size_t>(c)]\<close> for a signed \<^verbatim>\<open>char\<close>.\<close>

definition inverse_at :: "byte \<Rightarrow> byte option" where
  "inverse_at c =
     (let i = (scast c :: uint64)
      in if unat i < length inverse_tab then Some (inverse_tab ! unat i) else None)"

section \<open>Encoding\<close>

definition tab :: "byte \<Rightarrow> byte" where
  "tab i = alphabet ! unat i"

text \<open>The six-bit pieces of a group of three bytes, and of an incomplete last group.\<close>

definition piece0 :: "byte \<Rightarrow> byte" where
  "piece0 in0 = drop_bit 2 (in0 AND 0xfc)"

definition piece1 :: "byte \<Rightarrow> byte \<Rightarrow> byte" where
  "piece1 in0 in1 = push_bit 4 (in0 AND 0x03) + drop_bit 4 (in1 AND 0xf0)"

definition piece1_end :: "byte \<Rightarrow> byte" where
  "piece1_end in0 = push_bit 4 (in0 AND 0x03)"

definition piece2 :: "byte \<Rightarrow> byte \<Rightarrow> byte" where
  "piece2 in1 in2 = drop_bit 6 (in2 AND 0xc0) + push_bit 2 (in1 AND 0x0f)"

definition piece2_end :: "byte \<Rightarrow> byte" where
  "piece2_end in1 = push_bit 2 (in1 AND 0x0f)"

definition piece3 :: "byte \<Rightarrow> byte" where
  "piece3 in2 = in2 AND 0x3f"

fun encode :: "bytes \<Rightarrow> bytes" where
  "encode (in0 # in1 # in2 # rest) =
     tab (piece0 in0) # tab (piece1 in0 in1) # tab (piece2 in1 in2) # tab (piece3 in2) # encode rest"
| "encode [in0, in1] = [tab (piece0 in0), tab (piece1 in0 in1), tab (piece2_end in1), equals_sign]"
| "encode [in0] = [tab (piece0 in0), tab (piece1_end in0), equals_sign, equals_sign]"
| "encode [] = []"

definition base64_encode :: "bytes \<Rightarrow> bytes \<Rightarrow> bytes" where
  "base64_encode input to = to @ encode input"

section \<open>Decoding\<close>

definition dest0 :: "byte \<Rightarrow> byte \<Rightarrow> byte" where
  "dest0 v0 v1 = push_bit 2 v0 + drop_bit 4 (v1 AND 0x30)"

definition dest1 :: "byte \<Rightarrow> byte \<Rightarrow> byte" where
  "dest1 v1 v2 = push_bit 4 (v1 AND 0xf) + drop_bit 2 (v2 AND 0x3c)"

definition dest2 :: "byte \<Rightarrow> byte \<Rightarrow> byte" where
  "dest2 v2 v3 = push_bit 6 (v2 AND 0x3) + v3"

text \<open>
  The four characters of a group and of the last group. The result is the flag the decoder returns and
  the bytes it has written.
\<close>

definition decode_group :: "byte \<Rightarrow> byte \<Rightarrow> byte \<Rightarrow> byte \<Rightarrow> (bool \<times> bytes) option" where
  "decode_group p0 p1 p2 p3 =
     (case (inverse_at p0, inverse_at p1, inverse_at p2, inverse_at p3) of
        (Some v0, Some v1, Some v2, Some v3) \<Rightarrow>
          if v0 = -1 \<or> v1 = -1 \<or> v2 = -1 \<or> v3 = -1 then Some (False, [])
          else Some (True, [dest0 v0 v1, dest1 v1 v2, dest2 v2 v3])
      | _ \<Rightarrow> None)"

definition decode_last :: "byte \<Rightarrow> byte \<Rightarrow> byte \<Rightarrow> byte \<Rightarrow> (bool \<times> bytes) option" where
  "decode_last p0 p1 p2 p3 =
     (let padding = get_padding [p0, p1, p2, p3]
      in case (inverse_at p0, inverse_at p1,
               if padding = 2 then Some 0 else inverse_at p2,
               if padding > 0 then Some 0 else inverse_at p3) of
           (Some v0, Some v1, Some v2, Some v3) \<Rightarrow>
             if v0 = -1 \<or> v1 = -1 \<or> v2 = -1 \<or> v3 = -1 then Some (False, [])
             else Some (True, [dest0 v0 v1] @ (if padding < 2 then [dest1 v1 v2] else []) @
                                (if padding = 0 then [dest2 v2 v3] else []))
         | _ \<Rightarrow> None)"

fun decode :: "bytes \<Rightarrow> (bool \<times> bytes) option" where
  "decode [] = Some (True, [])"
| "decode [p0, p1, p2, p3] = decode_last p0 p1 p2 p3"
| "decode (p0 # p1 # p2 # p3 # rest) =
     (case decode_group p0 p1 p2 p3 of
        None \<Rightarrow> None
      | Some (False, w) \<Rightarrow> Some (False, w)
      | Some (True, w) \<Rightarrow> map_option (\<lambda>(ok, w'). (ok, w @ w')) (decode rest))"
| "decode _ = None"

text \<open>The bytes the decoder does not write keep the zeros of \<^verbatim>\<open>resize\<close>.\<close>

definition base64_decode :: "bytes \<Rightarrow> bytes \<Rightarrow> (error_code option \<times> bytes) option" where
  "base64_decode input output =
     (if length input mod 4 \<noteq> 0 then Some (Some (Client invalid_base64), output)
      else
        (case decode input of
           None \<Rightarrow> None
         | Some (ok, written) \<Rightarrow>
             Some (if ok then None else Some (Client invalid_base64),
                   output @ written @ replicate (decoded_size input - length written) 0)))"

section \<open>The tables\<close>

lemma inverse_alphabet: "map inverse_at alphabet = map (\<lambda>i. Some (word_of_nat i)) [0..<64]"
  by code_simp

lemma alphabet_no_padding: "equals_sign \<notin> set alphabet"
  by code_simp

lemma length_alphabet [simp]: "length alphabet = 64"
  by code_simp

lemma inverse_at_tab:
  assumes "unat i < 64"
  shows "inverse_at (tab i) = Some i"
proof -
  have "inverse_at (alphabet ! unat i) = map inverse_at alphabet ! unat i"
    using assms by simp
  also have "\<dots> = Some (word_of_nat (unat i))"
    using assms by (simp add: inverse_alphabet)
  finally show ?thesis by (simp add: tab_def)
qed


lemma tab_not_padding:
  assumes "unat i < 64"
  shows "tab i \<noteq> equals_sign"
  using assms alphabet_no_padding by (metis length_alphabet nth_mem tab_def)

section \<open>Cutting a group into six-bit pieces and putting it together\<close>

lemma byte_eqI:
  fixes x y :: byte
  assumes "bit x 0 = bit y 0" and "bit x 1 = bit y 1" and "bit x 2 = bit y 2" and "bit x 3 = bit y 3"
    and "bit x 4 = bit y 4" and "bit x 5 = bit y 5" and "bit x 6 = bit y 6" and "bit x 7 = bit y 7"
  shows "x = y"
proof (rule bit_word_eqI)
  fix n :: nat
  assume "n < LENGTH(8)"
  then have "n \<in> {0, 1, 2, 3, 4, 5, 6, 7}" by auto
  then show "bit x n = bit y n" using assms by auto
qed

lemma small_bits:
  fixes i :: byte
  assumes a: "\<not> bit i 6" "\<not> bit i 7"
  shows "unat i < 64"
proof -
  have "i = take_bit 6 i" by (rule byte_eqI) (use a in \<open>simp_all add: bit_simps\<close>)
  then have "unat i = take_bit 6 (unat i)" by (metis unsigned_take_bit_eq)
  also have "\<dots> < 64" by (simp add: take_bit_eq_mod)
  finally show ?thesis .
qed

lemma disjoint_sums:
  fixes a b :: byte
  shows "push_bit 4 (a AND 0x03) + drop_bit 4 (b AND 0xf0) = push_bit 4 (a AND 0x03) OR drop_bit 4 (b AND 0xf0)"
    and "drop_bit 6 (a AND 0xc0) + push_bit 2 (b AND 0x0f) = drop_bit 6 (a AND 0xc0) OR push_bit 2 (b AND 0x0f)"
    and "push_bit 2 a + drop_bit 4 (b AND 0x30) = push_bit 2 a OR drop_bit 4 (b AND 0x30)"
    and "push_bit 4 (a AND 0xf) + drop_bit 2 (b AND 0x3c) = push_bit 4 (a AND 0xf) OR drop_bit 2 (b AND 0x3c)"
    and "push_bit 6 (a AND 0x3) + (b AND 0x3f) = push_bit 6 (a AND 0x3) OR (b AND 0x3f)"
  by (rule disjunctive_add_eq_or; rule byte_eqI; simp add: bit_simps)+

lemmas piece_defs = piece0_def piece1_def piece1_end_def piece2_def piece2_end_def piece3_def

lemma pieces:
  "dest0 (piece0 a) (piece1 a b) = a"
  "dest0 (piece0 a) (piece1_end a) = a"
  "dest1 (piece1 a b) (piece2 b c) = b"
  "dest1 (piece1 a b) (piece2_end b) = b"
  "dest2 (piece2 b c) (piece3 c) = c"
  unfolding dest0_def dest1_def dest2_def piece_defs disjoint_sums
  by (rule byte_eqI; simp add: bit_simps)+

lemma piece_bounds:
  "unat (piece0 a) < 64" "unat (piece1 a b) < 64" "unat (piece1_end a) < 64"
  "unat (piece2 b c) < 64" "unat (piece2_end b) < 64" "unat (piece3 c) < 64"
  unfolding piece_defs disjoint_sums by (rule small_bits; simp add: bit_simps)+

section \<open>Round trip\<close>

lemma small_not_minus_one: "unat (v :: byte) < 64 \<Longrightarrow> v \<noteq> -1"
  by (auto simp: unsigned_minus_1_eq_mask mask_eq_exp_minus_1)

lemma padding_of_group:
  "get_padding [p0, p1, p2, p3] = of_bool (p3 = equals_sign) + of_bool (p2 = equals_sign)"
  by (simp add: get_padding_def)

lemma decode_group_tab:
  assumes "unat v0 < 64" "unat v1 < 64" "unat v2 < 64" "unat v3 < 64"
  shows "decode_group (tab v0) (tab v1) (tab v2) (tab v3) = Some (True, [dest0 v0 v1, dest1 v1 v2, dest2 v2 v3])"
    and "decode_last (tab v0) (tab v1) (tab v2) (tab v3) = Some (True, [dest0 v0 v1, dest1 v1 v2, dest2 v2 v3])"
  using assms
  by (simp_all add: decode_group_def decode_last_def padding_of_group inverse_at_tab tab_not_padding
      small_not_minus_one)

lemma decode_last_tab:
  assumes "unat v0 < 64" "unat v1 < 64"
  shows "decode_last (tab v0) (tab v1) equals_sign equals_sign = Some (True, [dest0 v0 v1])"
    and "unat v2 < 64 \<Longrightarrow>
      decode_last (tab v0) (tab v1) (tab v2) equals_sign = Some (True, [dest0 v0 v1, dest1 v1 v2])"
  using assms
  by (simp_all add: decode_last_def padding_of_group inverse_at_tab tab_not_padding small_not_minus_one)

lemma decode_step:
  assumes "rest \<noteq> []"
  shows "decode (p0 # p1 # p2 # p3 # rest) =
    (case decode_group p0 p1 p2 p3 of
       None \<Rightarrow> None
     | Some (False, w) \<Rightarrow> Some (False, w)
     | Some (True, w) \<Rightarrow> map_option (\<lambda>(ok, w'). (ok, w @ w')) (decode rest))"
  using assms by (cases rest) (simp_all split: option.splits bool.splits)

lemma encode_empty: "encode xs = [] \<longleftrightarrow> xs = []"
  by (cases xs rule: encode.cases) simp_all

lemma decode_encode: "decode (encode xs) = Some (True, xs)"
proof (induction xs rule: encode.induct)
  case (1 a b c rest)
  show ?case
  proof (cases "rest = []")
    case True
    then show ?thesis by (simp add: decode_group_tab piece_bounds pieces)
  next
    case False
    then have "encode rest \<noteq> []" by (simp add: encode_empty)
    then show ?thesis using 1 by (simp add: decode_step decode_group_tab piece_bounds pieces)
  qed
qed (simp_all add: decode_last_tab piece_bounds pieces)

lemma length_encode: "length (encode xs) = encoded_size xs"
  by (induction xs rule: encode.induct) (simp_all add: encoded_size_def, presburger)

lemma group_written:
  assumes "decode_group p0 p1 p2 p3 = Some (ok, w)"
  shows "length w = (if ok then 3 else 0)"
  using assms by (auto simp: decode_group_def split: option.splits if_splits)

lemma last_written:
  assumes "decode_last p0 p1 p2 p3 = Some (ok, w)"
  shows "length w = (if ok then decoded_size [p0, p1, p2, p3] else 0)"
  using assms
  by (auto simp: decode_last_def decoded_size_def padding_of_group Let_def split: option.splits if_splits)

lemma decoded_size_step:
  assumes "rest \<noteq> []" and "length rest mod 4 = 0"
  shows "decoded_size (p0 # p1 # p2 # p3 # rest) = 3 + decoded_size rest"
proof -
  have "4 \<le> length rest" using assms by (cases "length rest < 4") auto
  then have "get_padding (p0 # p1 # p2 # p3 # rest) = get_padding rest" "get_padding rest \<le> 2"
    using assms(1) by (simp_all add: get_padding_def nth_Cons' numeral_2_eq_2)
  then show ?thesis using assms \<open>4 \<le> length rest\<close> by (simp add: decoded_size_def)
qed

lemma decode_written:
  assumes "decode s = Some (ok, w)" and "length s mod 4 = 0"
  shows "length w \<le> decoded_size s \<and> (ok \<longrightarrow> length w = decoded_size s)"
  using assms
proof (induction s arbitrary: ok w rule: decode.induct)
  case 1
  then show ?case by (simp add: decoded_size_def)
next
  case (2 p0 p1 p2 p3)
  then show ?case using last_written by fastforce
next
  case (3 p0 p1 p2 p3 v va)
  let ?rest = "v # va"
  have mod: "length ?rest mod 4 = 0" using 3(3) by simp presburger
  have size: "decoded_size (p0 # p1 # p2 # p3 # ?rest) = 3 + decoded_size ?rest"
    using mod by (intro decoded_size_step) simp_all
  obtain ok0 w0 where g: "decode_group p0 p1 p2 p3 = Some (ok0, w0)"
    using 3(2) by (cases "decode_group p0 p1 p2 p3") auto
  show ?case
  proof (cases ok0)
    case False
    then show ?thesis using g 3(2) size group_written [OF g] by simp
  next
    case True
    then obtain w' where w': "decode ?rest = Some (ok, w')" "w = w0 @ w'"
      using g 3(2) by (auto simp: decode_step)
    then show ?thesis using 3(1) [OF g _ _ w'(1)] mod True size group_written [OF g] by simp
  qed
qed simp_all

section \<open>Characters with the top bit set\<close>

lemma length_inverse_tab [simp]: "length inverse_tab = 256"
  by (simp add: inverse_tab_def)

lemma mod_uint64:
  fixes k :: int
  assumes "- 128 \<le> k" and "k < 128"
  shows "k mod 2 ^ 64 < 256 \<longleftrightarrow> 0 \<le> k"
proof (cases "0 \<le> k")
  case True
  then show ?thesis using assms by simp
next
  case False
  have "k mod 2 ^ 64 = (k + 2 ^ 64) mod 2 ^ 64" by simp
  also have "\<dots> = k + 2 ^ 64" using False assms by (intro mod_pos_pos_trivial) simp_all
  finally show ?thesis using False assms by simp
qed

lemma scast_index: "unat (scast (c :: byte) :: uint64) < 256 \<longleftrightarrow> unat c < 128"
proof -
  have range: "- 128 \<le> sint c" "sint c < 128"
    using sint_greater_eq [of c] sint_less [of c] by simp_all
  have "uint c = sint c mod 256" using uint_sint [of c] by (simp add: take_bit_eq_mod)
  then have sign: "0 \<le> sint c \<longleftrightarrow> uint c < 128" using range by presburger
  have "uint (scast c :: uint64) = sint c mod 2 ^ 64"
    unfolding scast_eq uint_word_of_int by simp
  then have "uint (scast c :: uint64) < 256 \<longleftrightarrow> uint c < 128"
    by (simp only: mod_uint64 [OF range] sign)
  moreover have "uint (scast c :: uint64) = int (unat (scast c :: uint64))" "uint c = int (unat c)"
    by simp_all
  ultimately show ?thesis by linarith
qed

lemma inverse_at_None: "inverse_at c = None \<longleftrightarrow> 128 \<le> unat c"
  using scast_index [of c] by (auto simp: inverse_at_def Let_def)

lemma decode_total:
  assumes "length s mod 4 = 0" and "\<forall>c \<in> set s. unat c < 128"
  shows "decode s \<noteq> None"
  using assms
proof (induction s rule: decode.induct)
  case (2 p0 p1 p2 p3)
  then have "inverse_at p0 \<noteq> None" "inverse_at p1 \<noteq> None" "inverse_at p2 \<noteq> None" "inverse_at p3 \<noteq> None"
    by (simp_all only: inverse_at_None) simp_all
  then show ?case by (auto simp: decode_last_def Let_def)
next
  case (3 p0 p1 p2 p3 v va)
  then have "inverse_at p0 \<noteq> None" "inverse_at p1 \<noteq> None" "inverse_at p2 \<noteq> None" "inverse_at p3 \<noteq> None"
    by (simp_all only: inverse_at_None) simp_all
  then have g: "decode_group p0 p1 p2 p3 \<noteq> None" by (auto simp: decode_group_def)
  have "length (v # va) mod 4 = 0" using 3(2) by simp presburger
  then show ?case using 3 g by (auto simp: decode_step split: option.splits bool.splits)
qed simp_all

lemma decode_back: "base64_decode (encode xs) out = Some (None, out @ xs)"
proof -
  have len: "length (encode xs) mod 4 = 0" by (simp add: length_encode encoded_size_def)
  then have "decoded_size (encode xs) = length xs"
    using decode_written [OF decode_encode [of xs]] by simp
  then show ?thesis using len by (simp add: base64_decode_def decode_encode)
qed

text \<open>
  Decoding what the encoder wrote gives back the bytes, appended to the caller's buffer, without an
  error; the encoder writes exactly the number of characters it reserves room for.
\<close>

theorem base64_roundtrip:
  "base64_decode (base64_encode xs []) out = Some (None, out @ xs) \<and>
   length (base64_encode xs to) = length to + encoded_size xs"
  by (simp add: base64_encode_def decode_back length_encode)

text \<open>
  On ASCII input the decoder always returns, keeps what the caller's buffer held and appends at most
  \<^verbatim>\<open>decoded_size\<close> bytes, exactly that many on success.
\<close>

theorem base64_decode_ascii:
  assumes "\<forall>c \<in> set input. unat c < 128"
  shows "\<exists>ec w. base64_decode input out = Some (ec, out @ w) \<and> length w \<le> decoded_size input \<and>
    (ec = None \<longrightarrow> length w = decoded_size input) \<and> (ec = None \<or> ec = Some (Client invalid_base64))"
proof (cases "length input mod 4 = 0")
  case True
  then obtain ok w where d: "decode input = Some (ok, w)"
    using decode_total [OF True assms] by auto
  then show ?thesis using decode_written [OF d True] True by (auto simp: base64_decode_def)
qed (simp add: base64_decode_def)

theorem base64_decode_ascii_witness:
  "\<exists>ec w. base64_decode (of_str ''QUJ*'') [7] = Some (ec, [7] @ w) \<and> length w \<le> 3"
  using base64_decode_ascii [of "of_str ''QUJ*''" "[7]"]
  by (auto simp: of_str_def decoded_size_def get_padding_def equals_sign_def)

text \<open>
  A character with the top bit set in the first group is looked up outside the inverse table, whatever
  the rest of the input is: the decoder reads out of bounds on input a server chooses.
\<close>

theorem base64_decode_out_of_bounds:
  assumes "128 \<le> unat p0" and "length input mod 4 = 0" and "input = p0 # p1 # p2 # p3 # rest"
  shows "base64_decode input out = None"
proof -
  have p0: "inverse_at p0 = None" using assms(1) by (simp add: inverse_at_None)
  have "decode input = None"
    unfolding assms(3) by (cases rest) (simp_all add: p0 decode_last_def decode_group_def Let_def)
  then show ?thesis using assms(2) by (simp add: base64_decode_def)
qed

theorem base64_decode_out_of_bounds_witness:
  "base64_decode [0xe9, 0x41, 0x41, 0x3d] [] = None"
  by (rule base64_decode_out_of_bounds [of "0xe9" _ "0x41" "0x41" "0x3d" "[]"]) simp_all

end
