(* ===== verification/Pg_Scram.thy ===== *)
theory Pg_Scram
  imports Pg_Base64 Pg_Charconv Pg_Serialization "HOL-Library.Sublist"
begin

unbundle bit_operations_syntax

text \<open>
  The client side of SCRAM-SHA-256: the messages of \<^verbatim>\<open>scram_sha256_messages.hpp\<close>, the computations of
  \<^verbatim>\<open>scram_sha256_crypt.hpp\<close> and the machine of \<^verbatim>\<open>scram_sha256_fsm.cpp\<close>. HMAC-SHA-256, SHA-256 and the
  random generator belong to OpenSSL and are parameters: functions that return an error or bytes. A
  \<^verbatim>\<open>std::span\<close> the machine keeps into the write buffer is an offset and a length, so that what it shows
  depends on the buffer it is read from.
\<close>

abbreviation comma :: byte where
  "comma \<equiv> 44"

section \<open>Messages\<close>

record client_first_message =
  cfm_mechanism :: string_view
  cfm_nonce :: string_view

type_synonym buffer_span = "nat \<times> nat"

definition span_bytes :: "bytes \<Rightarrow> buffer_span \<Rightarrow> bytes" where
  "span_bytes buf s = take (snd s) (drop (fst s) buf)"

text \<open>The error code, the buffer and, where there is no error, the span of client-first-message-bare.\<close>

definition serialize_client_first_message ::
    "client_first_message \<Rightarrow> bytes \<Rightarrow> error_code option \<times> bytes \<times> buffer_span option" where
  "serialize_client_first_message msg to =
     (let c1 = add_header (of_char CHR ''p'') (serialization_context_init to);
          c2 = add_string (cfm_mechanism msg) c1;
          length_offset = length (sc_buffer c2);
          c3 = add_bytes [0, 0, 0, 0] c2;
          c4 = add_bytes (of_str ''n,,'') c3;
          bare_start_offset = length (sc_buffer c4);
          c5 = add_bytes (cfm_nonce msg) (add_bytes (of_str ''n=,r='') c4);
          bare_end_offset = length (sc_buffer c5);
          data_length = length (sc_buffer c5) - length_offset - 4;
          c6 = (if data_length > int32_max then sc_add_error (Some (Client value_too_big)) c5
                else c5\<lparr>sc_buffer := store_at length_offset (store_big_s32 (word_of_nat data_length)) (sc_buffer c5)\<rparr>)
      in case finish c6 of
           (Some ec, buf) \<Rightarrow> (Some ec, buf, None)
         | (None, buf) \<Rightarrow> (None, buf, Some (bare_start_offset, bare_end_offset - bare_start_offset)))"

record server_first_message =
  sfm_nonce :: string_view
  sfm_salt :: bytes
  sfm_iteration_count :: nat

definition scram_is_printable :: "byte \<Rightarrow> bool" where
  "scram_is_printable c \<longleftrightarrow> (0x21 \<le> c \<and> c \<le> 0x2b) \<or> (0x2d \<le> c \<and> c \<le> 0x7e)"

text \<open>
  The two checks \<^verbatim>\<open>if (p == last || *p++ != c)\<close> for the letter of an attribute and the equals sign, and
  the loops that look for the comma that ends a nonce and a salt: the characters before it and the rest.
\<close>

fun expect_attribute :: "byte \<Rightarrow> bytes \<Rightarrow> bytes option" where
  "expect_attribute c (x # y # p) = (if x = c \<and> y = equals_sign then Some p else None)"
| "expect_attribute c _ = None"

fun scan_nonce :: "bytes \<Rightarrow> (bytes \<times> bytes) option" where
  "scan_nonce [] = None"
| "scan_nonce (c # p) =
     (if c = comma then Some ([], p)
      else if \<not> scram_is_printable c then None
      else map_option (\<lambda>(n, r). (c # n, r)) (scan_nonce p))"

fun scan_salt :: "bytes \<Rightarrow> (bytes \<times> bytes) option" where
  "scan_salt [] = None"
| "scan_salt (c # p) =
     (if c = comma then Some ([], p) else map_option (\<lambda>(n, r). (c # n, r)) (scan_salt p))"

text \<open>\<^verbatim>\<open>parse(data, server_first_message&)\<close>; \<open>None\<close> where the base64 decoder reads out of bounds.\<close>

definition parse_server_first_message :: "bytes \<Rightarrow> (error_code + server_first_message) option" where
  "parse_server_first_message data =
     (let invalid = Some (Inl (Client invalid_scram_message))
      in if data \<noteq> [] \<and> hd data = of_char CHR ''m'' then
           (if tl data = [] \<or> hd (tl data) \<noteq> comma then invalid
            else Some (Inl (Client mandatory_scram_extension_not_supported)))
         else
           (case expect_attribute (of_char CHR ''r'') data of
              None \<Rightarrow> invalid
            | Some p1 \<Rightarrow>
           (case scan_nonce p1 of
              None \<Rightarrow> invalid
            | Some (nonce, p2) \<Rightarrow>
           (case expect_attribute (of_char CHR ''s'') p2 of
              None \<Rightarrow> invalid
            | Some p3 \<Rightarrow>
           (case scan_salt p3 of
              None \<Rightarrow> invalid
            | Some (salt64, p4) \<Rightarrow>
           (case base64_decode salt64 [] of
              None \<Rightarrow> None
            | Some (Some ec, out) \<Rightarrow> Some (Inl ec)
            | Some (None, salt) \<Rightarrow>
           (case expect_attribute (of_char CHR ''i'') p4 of
              None \<Rightarrow> invalid
            | Some p5 \<Rightarrow>
           (case from_chars 0 (max_unsigned 32) (takeWhile (\<lambda>c. c \<noteq> comma) p5) of
              Inl ec \<Rightarrow> invalid
            | Inr (v, rest) \<Rightarrow>
                if rest \<noteq> [] then invalid
                else Some (Inr \<lparr>sfm_nonce = nonce, sfm_salt = salt, sfm_iteration_count = nat v\<rparr>)))))))))"

text \<open>
  \<^verbatim>\<open>client_final_message_serializer\<close>: its state is the serialization context. The first half returns the
  span of client-final-message-without-proof.
\<close>

definition serialize_without_proof ::
    "string_view \<Rightarrow> serialization_context \<Rightarrow> (error_code + buffer_span) \<times> serialization_context" where
  "serialize_without_proof nonce c =
     (let c1 = add_header (of_char CHR ''p'') c;
          offset_first = length (sc_buffer c1);
          c2 = add_bytes nonce (add_bytes (of_str ''c=biws,r='') c1);
          offset_last = length (sc_buffer c2)
      in (case sc_err c2 of
            Some ec \<Rightarrow> (Inl ec, c2)
          | None \<Rightarrow> (Inr (offset_first, offset_last - offset_first), c2)))"

definition serialize_proof :: "bytes \<Rightarrow> serialization_context \<Rightarrow> error_code option \<times> serialization_context" where
  "serialize_proof proof c =
     (let c1 = add_bytes (of_str '',p='') c;
          c2 = c1\<lparr>sc_buffer := base64_encode proof (sc_buffer c1)\<rparr>
      in finalize_message c2)"

definition parse_server_final_message :: "bytes \<Rightarrow> (error_code + bytes) option" where
  "parse_server_final_message data =
     (case expect_attribute (of_char CHR ''v'') data of
        None \<Rightarrow> Some (Inl (Client invalid_scram_message))
      | Some p \<Rightarrow>
          (case base64_decode (takeWhile (\<lambda>c. c \<noteq> comma) p) [] of
             None \<Rightarrow> None
           | Some (Some ec, out) \<Rightarrow> Some (Inl ec)
           | Some (None, server_signature) \<Rightarrow> Some (Inr server_signature)))"

section \<open>Computations\<close>

text \<open>
  What OpenSSL provides: preparing an HMAC-SHA-256 context, the HMAC of some data under a key, SHA-256,
  and random bytes.
\<close>

record crypto =
  cr_mac_context :: "error_code option"
  cr_hmac :: "bytes \<Rightarrow> bytes \<Rightarrow> error_code + bytes"
  cr_sha256 :: "bytes \<Rightarrow> error_code + bytes"
  cr_rand_bytes :: "nat \<Rightarrow> error_code + bytes"

definition sasl_prep :: "string_view \<Rightarrow> error_code option \<times> bytes" where
  "sasl_prep input = (None, input)"

definition compute_xor :: "bytes \<Rightarrow> bytes \<Rightarrow> bytes" where
  "compute_xor lhs rhs = map2 (XOR) lhs rhs"

definition normalize_password :: "string_view \<Rightarrow> bytes" where
  "normalize_password input = (case sasl_prep input of (Some ec, output) \<Rightarrow> input | (None, output) \<Rightarrow> output)"

definition compute_hmac :: "crypto \<Rightarrow> bytes \<Rightarrow> bytes \<Rightarrow> error_code + bytes" where
  "compute_hmac cr key data = cr_hmac cr key data"

text \<open>The variant with two pieces: two updates of the context, then the digest.\<close>

definition compute_hmac_pieces :: "crypto \<Rightarrow> bytes \<Rightarrow> bytes \<Rightarrow> bytes \<Rightarrow> error_code + bytes" where
  "compute_hmac_pieces cr key data1 data2 = cr_hmac cr key (data1 @ data2)"

primrec hi_loop :: "crypto \<Rightarrow> bytes \<Rightarrow> nat \<Rightarrow> bytes \<Rightarrow> bytes \<Rightarrow> error_code + bytes" where
  "hi_loop cr str 0 ucurrent hi = Inr hi"
| "hi_loop cr str (Suc n) ucurrent hi =
     (case compute_hmac cr str ucurrent of
        Inl ec \<Rightarrow> Inl ec
      | Inr unext \<Rightarrow> hi_loop cr str n unext (compute_xor hi unext))"

definition compute_hi :: "crypto \<Rightarrow> bytes \<Rightarrow> bytes \<Rightarrow> nat \<Rightarrow> error_code + bytes" where
  "compute_hi cr str salt iteration_count =
     (case compute_hmac_pieces cr str salt (store_big_s32 1) of
        Inl ec \<Rightarrow> Inl ec
      | Inr ucurrent \<Rightarrow> hi_loop cr str (iteration_count - 1) ucurrent ucurrent)"

definition compute_sha256 :: "crypto \<Rightarrow> bytes \<Rightarrow> error_code + bytes" where
  "compute_sha256 cr data = cr_sha256 cr data"

text \<open>The client proof and the server signature.\<close>

definition compute_proofs ::
    "crypto \<Rightarrow> string_view \<Rightarrow> bytes \<Rightarrow> nat \<Rightarrow> bytes \<Rightarrow> error_code + bytes \<times> bytes" where
  "compute_proofs cr password salt iteration_count auth_message =
     (case cr_mac_context cr of Some ec \<Rightarrow> Inl ec | None \<Rightarrow>
     (case compute_hi cr (normalize_password password) salt iteration_count of Inl ec \<Rightarrow> Inl ec | Inr salted_password \<Rightarrow>
     (case compute_hmac cr salted_password (of_str ''Client Key'') of Inl ec \<Rightarrow> Inl ec | Inr client_key \<Rightarrow>
     (case compute_sha256 cr client_key of Inl ec \<Rightarrow> Inl ec | Inr stored_key \<Rightarrow>
     (case compute_hmac cr stored_key auth_message of Inl ec \<Rightarrow> Inl ec | Inr client_signature \<Rightarrow>
     (case compute_hmac cr salted_password (of_str ''Server Key'') of Inl ec \<Rightarrow> Inl ec | Inr server_key \<Rightarrow>
     (case compute_hmac cr server_key auth_message of Inl ec \<Rightarrow> Inl ec | Inr server_signature \<Rightarrow>
        Inr (compute_xor client_key client_signature, server_signature))))))))"

definition generate_nonce :: "crypto \<Rightarrow> error_code + bytes" where
  "generate_nonce cr =
     (case cr_rand_bytes cr 18 of Inl ec \<Rightarrow> Inl ec | Inr raw \<Rightarrow> Inr (base64_encode raw []))"

definition crypto_equal :: "bytes \<Rightarrow> bytes \<Rightarrow> bool" where
  "crypto_equal lhs rhs \<longleftrightarrow> length lhs = length rhs \<and> list_all2 (=) lhs rhs"

section \<open>The machine\<close>

record scram_sha256_fsm =
  sf_nonce :: string_view
  sf_client_first_msg :: buffer_span
  sf_server_signature :: bytes

definition scram_sha256_fsm_init :: scram_sha256_fsm where
  "scram_sha256_fsm_init =
     \<lparr>sf_nonce = [], sf_client_first_msg = (0, 0), sf_server_signature = replicate 32 0\<rparr>"

text \<open>The error code, the machine and the write buffer after each of the three steps.\<close>

definition on_init ::
    "(error_code + bytes) \<Rightarrow> scram_sha256_fsm \<Rightarrow> bytes \<Rightarrow> error_code option \<times> scram_sha256_fsm \<times> bytes" where
  "on_init generated f write_buffer =
     (case generated of
        Inl ec \<Rightarrow> (Some ec, f, write_buffer)
      | Inr nonce \<Rightarrow>
          (let f1 = f\<lparr>sf_nonce := nonce\<rparr>
           in case serialize_client_first_message
                     \<lparr>cfm_mechanism = of_str ''SCRAM-SHA-256'', cfm_nonce = nonce\<rparr> [] of
                (ec, buf, None) \<Rightarrow> (ec, f1, buf)
              | (ec, buf, Some s) \<Rightarrow> (ec, f1\<lparr>sf_client_first_msg := s\<rparr>, buf)))"

definition on_server_first ::
    "crypto \<Rightarrow> bytes \<Rightarrow> string_view \<Rightarrow> scram_sha256_fsm \<Rightarrow> bytes \<Rightarrow>
     (error_code option \<times> scram_sha256_fsm \<times> bytes) option" where
  "on_server_first cr bs password f write_buffer =
     (case parse_server_first_message bs of
        None \<Rightarrow> None
      | Some (Inl ec) \<Rightarrow> Some (Some ec, f, write_buffer)
      | Some (Inr server_msg) \<Rightarrow>
          if sfm_nonce server_msg = [] \<or> \<not> prefix (sf_nonce f) (sfm_nonce server_msg)
          then Some (Some (Client scram_invalid_nonce), f, write_buffer)
          else if sfm_iteration_count server_msg = 0 \<or> sfm_iteration_count server_msg > 0xffff
          then Some (Some (Client protocol_value_error), f, write_buffer)
          else
            (let first_bare = span_bytes write_buffer (sf_client_first_msg f)
             in case serialize_without_proof (sfm_nonce server_msg) (serialization_context_init []) of
                  (Inl ec, c) \<Rightarrow> Some (Some ec, f, sc_buffer c)
                | (Inr without_proof, c) \<Rightarrow>
                    (let auth_message = first_bare @ [comma] @ bs @ [comma] @ span_bytes (sc_buffer c) without_proof
                     in case compute_proofs cr password (sfm_salt server_msg)
                               (sfm_iteration_count server_msg) auth_message of
                          Inl ec \<Rightarrow> Some (Some ec, f, sc_buffer c)
                        | Inr (client_proof, server_signature) \<Rightarrow>
                            (case serialize_proof client_proof c of
                               (ec, c') \<Rightarrow> Some (ec, f\<lparr>sf_server_signature := server_signature\<rparr>, sc_buffer c')))))"

definition on_server_final :: "bytes \<Rightarrow> scram_sha256_fsm \<Rightarrow> error_code option option" where
  "on_server_final bs f =
     (case parse_server_final_message bs of
        None \<Rightarrow> None
      | Some (Inl ec) \<Rightarrow> Some (Some ec)
      | Some (Inr sig) \<Rightarrow>
          Some (if \<not> crypto_equal sig (sf_server_signature f)
                then Some (Client scram_invalid_server_signature) else None))"

end
