(* ===== verification/Pg_Startup.thy ===== *)
theory Pg_Startup
  imports Pg_Exec Pg_Scram
begin

text \<open>
  Connecting: the machines of \<^verbatim>\<open>startup_fsm.cpp\<close> and \<^verbatim>\<open>connect_fsm.cpp\<close>. \<^verbatim>\<open>startup_fsm_impl\<close> takes one
  message at a time, authenticates and waits for ReadyForQuery; \<^verbatim>\<open>startup_fsm\<close> feeds it from the read
  buffer and asks for reads and writes; \<^verbatim>\<open>connect_fsm\<close> connects first and closes where anything fails. All
  three are coroutines whose state is the point they resume at. A step returns \<open>None\<close> where the code
  would violate an assertion or read out of bounds.
\<close>

section \<open>The startup algorithm\<close>

record connect_params =
  cp_hostname :: string_view
  cp_port :: int16
  cp_username :: string_view
  cp_password :: string_view
  cp_database :: string_view

datatype startup_result = Startup_done "error_code option" | Startup_read | Startup_write

record startup_fsm_impl =
  sfi_resume_point :: nat
  sfi_params :: connect_params
  sfi_scram_fsm :: scram_sha256_fsm

type_synonym startup_outcome = "(startup_result \<times> connection_state \<times> bytes \<times> startup_fsm_impl) option"

definition startup_fsm_impl_init :: "connect_params \<Rightarrow> startup_fsm_impl" where
  "startup_fsm_impl_init params =
     \<lparr>sfi_resume_point = 0, sfi_params = params, sfi_scram_fsm = scram_sha256_fsm_init\<rparr>"

text \<open>The error code and the diagnostics.\<close>

definition process_error :: "error_notice_fields \<Rightarrow> error_code option \<times> bytes" where
  "process_error err = (parse_sqlstate (value_or (enf_sqlstate err) []), diagnostics_assign err)"

definition check_unknown_auth_methods :: "any_backend_message \<Rightarrow> error_code option" where
  "check_unknown_auth_methods msg =
     (case msg of
        Authentication_kerberos_v5 \<Rightarrow> Some (Client auth_kerberos_v5_unsupported)
      | Authentication_cleartext_password \<Rightarrow> Some (Client auth_cleartext_password_unsupported)
      | Authentication_md5_password salt \<Rightarrow> Some (Client auth_md5_password_unsupported)
      | Authentication_gss \<Rightarrow> Some (Client auth_gss_unsupported)
      | Authentication_sspi \<Rightarrow> Some (Client auth_sspi_unsupported)
      | _ \<Rightarrow> None)"

definition handle_auth_response :: "any_backend_message \<Rightarrow> bytes \<Rightarrow> error_code option \<times> bytes" where
  "handle_auth_response msg diag =
     (case msg of
        Error_response err \<Rightarrow> process_error err
      | Authentication_ok \<Rightarrow> (None, diag)
      | _ \<Rightarrow> (Some (Client unexpected_message), diag))"

definition make_startup_message :: "connect_params \<Rightarrow> startup_message" where
  "make_startup_message params =
     \<lparr>startup_user = cp_username params,
      startup_database = (if cp_database params = [] then None else Some (cp_database params)),
      startup_params = []\<rparr>"

definition scram_sha256_name :: string_view where
  "scram_sha256_name = of_str ''SCRAM-SHA-256''"

definition supports_scram_sha256 :: "forward_parsing_view \<Rightarrow> bool option" where
  "supports_scram_sha256 mechanisms =
     map_option (\<lambda>ms. scram_sha256_name \<in> set ms)
       (fpv_items string_view_dereference string_view_advance (fpv_data mechanisms))"

subsection \<open>The steps of resume\<close>

text \<open>A yield sets the point to resume at.\<close>

abbreviation (input) startup_yield ::
    "nat \<Rightarrow> startup_result \<Rightarrow> connection_state \<Rightarrow> bytes \<Rightarrow> startup_fsm_impl \<Rightarrow> startup_outcome" where
  "startup_yield n res st diag f \<equiv> Some (res, st, diag, f\<lparr>sfi_resume_point := n\<rparr>)"

definition startup_initial :: "connection_state \<Rightarrow> bytes \<Rightarrow> startup_fsm_impl \<Rightarrow> startup_outcome" where
  "startup_initial st diag f =
     (case serialize_startup_message (make_startup_message (sfi_params f)) [] of
        (Some ec, buf) \<Rightarrow> Some (Startup_done (Some ec), st\<lparr>cst_write_buffer := buf\<rparr>, diag, f)
      | (None, buf) \<Rightarrow> startup_yield 1 Startup_write (st\<lparr>cst_write_buffer := buf\<rparr>) diag f)"

text \<open>After any authentication: the server's verdict, then the loop that waits for ReadyForQuery.\<close>

definition startup_auth_response ::
    "any_backend_message \<Rightarrow> connection_state \<Rightarrow> bytes \<Rightarrow> startup_fsm_impl \<Rightarrow> startup_outcome" where
  "startup_auth_response msg st diag f =
     (case handle_auth_response msg diag of
        (Some ec, diag') \<Rightarrow> Some (Startup_done (Some ec), st, diag', f)
      | (None, diag') \<Rightarrow> startup_yield 8 Startup_read st diag' f)"

definition startup_auth_request ::
    "crypto \<Rightarrow> any_backend_message \<Rightarrow> connection_state \<Rightarrow> bytes \<Rightarrow> startup_fsm_impl \<Rightarrow> startup_outcome" where
  "startup_auth_request cr msg st diag f =
     (case msg of
        Authentication_sasl mechanisms \<Rightarrow>
          (case supports_scram_sha256 mechanisms of
             None \<Rightarrow> None
           | Some False \<Rightarrow> Some (Startup_done (Some (Client scram_mechanisms_unsupported)), st, diag, f)
           | Some True \<Rightarrow>
               (case on_init (generate_nonce cr) (sfi_scram_fsm f) (cst_write_buffer st) of
                  (ec, sf, buf) \<Rightarrow>
                    (let st' = st\<lparr>cst_write_buffer := buf\<rparr>; f' = f\<lparr>sfi_scram_fsm := sf\<rparr>
                     in if ec \<noteq> None then Some (Startup_done ec, st', diag, f')
                        else startup_yield 3 Startup_write st' diag f')))
      | _ \<Rightarrow>
          (case check_unknown_auth_methods msg of
             Some ec \<Rightarrow> Some (Startup_done (Some ec), st, diag, f)
           | None \<Rightarrow> startup_auth_response msg st diag f))"

definition startup_sasl_continue ::
    "crypto \<Rightarrow> any_backend_message \<Rightarrow> connection_state \<Rightarrow> bytes \<Rightarrow> startup_fsm_impl \<Rightarrow> startup_outcome" where
  "startup_sasl_continue cr msg st diag f =
     (case msg of
        Error_response err \<Rightarrow> (case process_error err of (ec, diag') \<Rightarrow> Some (Startup_done ec, st, diag', f))
      | Authentication_sasl_continue data \<Rightarrow>
          (case on_server_first cr data (cp_password (sfi_params f)) (sfi_scram_fsm f) (cst_write_buffer st) of
             None \<Rightarrow> None
           | Some (ec, sf, buf) \<Rightarrow>
               (let st' = st\<lparr>cst_write_buffer := buf\<rparr>; f' = f\<lparr>sfi_scram_fsm := sf\<rparr>
                in if ec \<noteq> None then Some (Startup_done ec, st', diag, f')
                   else startup_yield 5 Startup_write st' diag f'))
      | _ \<Rightarrow> Some (Startup_done (Some (Client unexpected_message)), st, diag, f))"

definition startup_sasl_final ::
    "any_backend_message \<Rightarrow> connection_state \<Rightarrow> bytes \<Rightarrow> startup_fsm_impl \<Rightarrow> startup_outcome" where
  "startup_sasl_final msg st diag f =
     (case msg of
        Error_response err \<Rightarrow> (case process_error err of (ec, diag') \<Rightarrow> Some (Startup_done ec, st, diag', f))
      | Authentication_sasl_final data \<Rightarrow>
          (case on_server_final data (sfi_scram_fsm f) of
             None \<Rightarrow> None
           | Some (Some ec) \<Rightarrow> Some (Startup_done (Some ec), st, diag, f)
           | Some None \<Rightarrow> startup_yield 7 Startup_read st diag f)
      | _ \<Rightarrow> Some (Startup_done (Some (Client unexpected_message)), st, diag, f))"

definition startup_wait_ready ::
    "any_backend_message \<Rightarrow> connection_state \<Rightarrow> bytes \<Rightarrow> startup_fsm_impl \<Rightarrow> startup_outcome" where
  "startup_wait_ready msg st diag f =
     (case msg of
        Backend_key_data key \<Rightarrow>
          startup_yield 8 Startup_read
            (st\<lparr>cst_backend_process_id := bkd_process_id key, cst_backend_secret_key := bkd_secret_key key\<rparr>) diag f
      | Parameter_status p \<Rightarrow> startup_yield 8 Startup_read st diag f
      | Error_response err \<Rightarrow> (case process_error err of (ec, diag') \<Rightarrow> Some (Startup_done ec, st, diag', f))
      | Notice_response n \<Rightarrow> startup_yield 8 Startup_read st diag f
      | Ready_for_query s \<Rightarrow> Some (Startup_done None, st, diag, f)
      | _ \<Rightarrow> Some (Startup_done (Some (Client unexpected_message)), st, diag, f))"

definition startup_fsm_impl_resume ::
    "crypto \<Rightarrow> connection_state \<Rightarrow> bytes \<Rightarrow> any_backend_message \<Rightarrow> startup_fsm_impl \<Rightarrow> startup_outcome" where
  "startup_fsm_impl_resume cr st diag msg f =
     (let n = sfi_resume_point f
      in if n = 0 then startup_initial st diag f
         else if n = 1 then startup_yield 2 Startup_read st diag f
         else if n = 2 then startup_auth_request cr msg st diag f
         else if n = 3 then startup_yield 4 Startup_read st diag f
         else if n = 4 then startup_sasl_continue cr msg st diag f
         else if n = 5 then startup_yield 6 Startup_read st diag f
         else if n = 6 then startup_sasl_final msg st diag f
         else if n = 7 then startup_auth_response msg st diag f
         else if n = 8 then startup_wait_ready msg st diag f
         else None)"

lemmas startup_step_defs = startup_initial_def startup_auth_response_def startup_auth_request_def
  startup_sasl_continue_def startup_sasl_final_def startup_wait_ready_def

lemma startup_keeps_read_buffer:
  assumes "startup_fsm_impl_resume cr st diag msg f = Some (res, st', diag', f')"
  shows "cst_read_buffer st' = cst_read_buffer st" and "sfi_params f' = sfi_params f"
  using assms
  by (auto simp: startup_fsm_impl_resume_def startup_step_defs Let_def
      split: if_splits any_backend_message.splits option.splits prod.splits bool.splits)

section \<open>Reading and writing\<close>

record startup_fsm =
  su_resume_point :: nat
  su_impl :: startup_fsm_impl

definition startup_fsm_init :: "connect_params \<Rightarrow> startup_fsm" where
  "startup_fsm_init params = \<lparr>su_resume_point = 0, su_impl = startup_fsm_impl_init params\<rparr>"

function startup_loop ::
    "crypto \<Rightarrow> (nat \<Rightarrow> bytes) \<Rightarrow> startup_result \<Rightarrow> connection_state \<Rightarrow> bytes \<Rightarrow> startup_fsm \<Rightarrow>
     (io_result \<times> connection_state \<times> bytes \<times> startup_fsm) option" where
  "startup_loop cr alloc res st diag f =
     (case res of
        Startup_done ec \<Rightarrow> Some (Io_done ec, st, diag, f)
      | Startup_write \<Rightarrow> Some (Io_write (cst_write_buffer st), st, diag, f\<lparr>su_resume_point := 1\<rparr>)
      | Startup_read \<Rightarrow>
          (let msg_res = parse_message (buffered st)
           in case pmr_ec msg_res of
                None \<Rightarrow>
                  (case startup_fsm_impl_resume cr st diag (pmr_message msg_res) (su_impl f) of
                     None \<Rightarrow> None
                   | Some (res', st', diag', impl) \<Rightarrow>
                       startup_loop cr alloc res' (cst_consume (pmr_size msg_res) st') diag' (f\<lparr>su_impl := impl\<rparr>))
              | Some ec \<Rightarrow>
                  if ec = Client needs_more
                  then (let b = prepare alloc (pmr_size msg_res) (cst_read_buffer st)
                        in Some (Io_read (prepared_area_size b), st\<lparr>cst_read_buffer := b\<rparr>, diag, f\<lparr>su_resume_point := 2\<rparr>))
                  else Some (Io_done (Some ec), st, diag, f)))"
  by pat_completeness auto
termination
  by (relation "measure (\<lambda>(cr, alloc, res, st, diag, f). length (buffered st))")
    (auto simp: cst_consume_def consume_shorter dest!: startup_keeps_read_buffer(1))

declare startup_loop.simps [simp del]

definition startup_resume ::
    "crypto \<Rightarrow> (nat \<Rightarrow> bytes) \<Rightarrow> connection_state \<Rightarrow> bytes \<Rightarrow> error_code option \<Rightarrow> nat \<Rightarrow> startup_fsm \<Rightarrow>
     (io_result \<times> connection_state \<times> bytes \<times> startup_fsm) option" where
  "startup_resume cr alloc st diag io_error bytes_read f =
     (let advance = (case startup_fsm_impl_resume cr st diag No_message (su_impl f) of
                       None \<Rightarrow> None
                     | Some (res, st', diag', impl) \<Rightarrow> startup_loop cr alloc res st' diag' (f\<lparr>su_impl := impl\<rparr>))
      in if su_resume_point f = 0 then advance
         else if su_resume_point f = 1 then
           (if io_error \<noteq> None then Some (Io_done io_error, st, diag, f) else advance)
         else if su_resume_point f = 2 then
           (if io_error \<noteq> None then Some (Io_done io_error, st, diag, f)
            else startup_loop cr alloc Startup_read
                   (st\<lparr>cst_read_buffer := rb_commit bytes_read (cst_read_buffer st)\<rparr>) diag f)
         else None)"

section \<open>Connecting\<close>

datatype connect_result =
    Conn_done "error_code option"
  | Conn_read nat
  | Conn_write bytes
  | Conn_connect
  | Conn_close

record connect_fsm =
  cf_resume_point :: nat
  cf_stored_ec :: "error_code option"
  cf_startup :: startup_fsm

definition connect_fsm_init :: "connect_params \<Rightarrow> connect_fsm" where
  "connect_fsm_init params =
     \<lparr>cf_resume_point = 0, cf_stored_ec = None, cf_startup = startup_fsm_init params\<rparr>"

text \<open>The loop around the startup algorithm and the close after a failure.\<close>

definition connect_startup ::
    "crypto \<Rightarrow> (nat \<Rightarrow> bytes) \<Rightarrow> connection_state \<Rightarrow> error_code option \<Rightarrow> nat \<Rightarrow> connect_fsm \<Rightarrow>
     (connect_result \<times> connection_state \<times> connect_fsm) option" where
  "connect_startup cr alloc st ec bytes_transferred f =
     (case startup_resume cr alloc st (cst_shared_diag st) ec bytes_transferred (cf_startup f) of
        None \<Rightarrow> None
      | Some (res, st1, diag, su) \<Rightarrow>
          (let st' = st1\<lparr>cst_shared_diag := diag\<rparr>; f' = f\<lparr>cf_startup := su\<rparr>
           in case res of
                Io_read room \<Rightarrow> Some (Conn_read room, st', f'\<lparr>cf_resume_point := 3\<rparr>)
              | Io_write data \<Rightarrow> Some (Conn_write data, st', f'\<lparr>cf_resume_point := 3\<rparr>)
              | Io_done None \<Rightarrow> Some (Conn_done None, st', f')
              | Io_done (Some e) \<Rightarrow> Some (Conn_close, st', f'\<lparr>cf_stored_ec := Some e, cf_resume_point := 4\<rparr>)))"

definition connect_resume ::
    "crypto \<Rightarrow> (nat \<Rightarrow> bytes) \<Rightarrow> connection_state \<Rightarrow> error_code option \<Rightarrow> nat \<Rightarrow> connect_fsm \<Rightarrow>
     (connect_result \<times> connection_state \<times> connect_fsm) option" where
  "connect_resume cr alloc st ec bytes_transferred f =
     (let n = cf_resume_point f
      in if n = 0 then Some (Conn_connect, st, f\<lparr>cf_resume_point := 1\<rparr>)
         else if n = 1 then
           (if ec \<noteq> None then Some (Conn_close, st, f\<lparr>cf_stored_ec := ec, cf_resume_point := 2\<rparr>)
            else connect_startup cr alloc st ec bytes_transferred f)
         else if n = 2 \<or> n = 4 then Some (Conn_done (cf_stored_ec f), st, f)
         else if n = 3 then connect_startup cr alloc st ec bytes_transferred f
         else None)"

end
