(* ===== verification/Pg_Scram_Facts.thy ===== *)
theory Pg_Scram_Facts
  imports Pg_Scram Pg_Serialization_Facts
begin

unbundle bit_operations_syntax

text \<open>
  The client against RFC 5802. The values of the RFC are written down over an HMAC and a hash function
  that do not fail; the computations of the code give these values, the exchange with a server that
  knows the password succeeds on both sides, and a client that finishes without an error has seen the
  signature only the server key gives.
\<close>

section \<open>The values of RFC 5802\<close>

definition crypto_works :: "crypto \<Rightarrow> (bytes \<Rightarrow> bytes \<Rightarrow> bytes) \<Rightarrow> (bytes \<Rightarrow> bytes) \<Rightarrow> bool" where
  "crypto_works cr hmac H \<longleftrightarrow>
     cr_mac_context cr = None \<and> cr_hmac cr = (\<lambda>k d. Inr (hmac k d)) \<and> cr_sha256 cr = (\<lambda>d. Inr (H d)) \<and>
     (\<forall>k d. length (hmac k d) = 32) \<and> (\<forall>d. length (H d) = 32)"

text \<open>\<^verbatim>\<open>U1\<close>, \<^verbatim>\<open>U2\<close>, ... and \<^verbatim>\<open>Hi\<close> as the exclusive or of the first of them.\<close>

primrec rfc_u :: "(bytes \<Rightarrow> bytes \<Rightarrow> bytes) \<Rightarrow> bytes \<Rightarrow> bytes \<Rightarrow> nat \<Rightarrow> bytes" where
  "rfc_u hmac str salt 0 = hmac str (salt @ [0, 0, 0, 1])"
| "rfc_u hmac str salt (Suc n) = hmac str (rfc_u hmac str salt n)"

definition rfc_hi :: "(bytes \<Rightarrow> bytes \<Rightarrow> bytes) \<Rightarrow> bytes \<Rightarrow> bytes \<Rightarrow> nat \<Rightarrow> bytes" where
  "rfc_hi hmac str salt i =
     map (\<lambda>k. foldl (XOR) 0 (map (\<lambda>j. rfc_u hmac str salt j ! k) [0..<i])) [0..<32]"

definition rfc_client_key where
  "rfc_client_key hmac pw salt i = hmac (rfc_hi hmac pw salt i) (of_str ''Client Key'')"

definition rfc_stored_key where
  "rfc_stored_key hmac H pw salt i = H (rfc_client_key hmac pw salt i)"

definition rfc_server_key where
  "rfc_server_key hmac pw salt i = hmac (rfc_hi hmac pw salt i) (of_str ''Server Key'')"

definition rfc_auth_message :: "bytes \<Rightarrow> bytes \<Rightarrow> bytes \<Rightarrow> bytes" where
  "rfc_auth_message client_nonce server_first nonce =
     of_str ''n=,r='' @ client_nonce @ of_str '','' @ server_first @ of_str '',c=biws,r='' @ nonce"

definition rfc_server_first :: "bytes \<Rightarrow> bytes \<Rightarrow> nat \<Rightarrow> bytes" where
  "rfc_server_first nonce salt i =
     of_str ''r='' @ nonce @ of_str '',s='' @ encode salt @ of_str '',i='' @ to_chars (int i)"

section \<open>The computations\<close>

lemma length_compute_xor: "length (compute_xor a b) = min (length a) (length b)"
  by (simp add: compute_xor_def)

lemma compute_xor_nth:
  "k < length a \<Longrightarrow> k < length b \<Longrightarrow> compute_xor a b ! k = a ! k XOR b ! k"
  by (simp add: compute_xor_def)

lemma compute_xor_cancel:
  assumes "length a = length b"
  shows "compute_xor (compute_xor a b) b = a"
  using assms by (induction a b rule: list_induct2) (simp_all add: compute_xor_def xor.assoc)

lemma hi_loop_nth:
  assumes "cr_hmac cr = (\<lambda>k d. Inr (hmac k d))" and "\<forall>k d. length (hmac k d) = 32"
    and "length acc = 32"
  shows "\<exists>r. hi_loop cr str n (rfc_u hmac str salt m) acc = Inr r \<and> length r = 32 \<and>
    (\<forall>k < 32. r ! k = foldl (XOR) (acc ! k) (map (\<lambda>j. rfc_u hmac str salt j ! k) [Suc m..<Suc m + n]))"
  using assms(3)
proof (induction n arbitrary: m acc)
  case 0
  then show ?case by simp
next
  case (Suc n)
  let ?u = "rfc_u hmac str salt (Suc m)"
  have "length (compute_xor acc ?u) = 32" using Suc.prems assms(2) by (simp add: length_compute_xor)
  from Suc.IH [OF this, of "Suc m"] obtain r where r:
      "hi_loop cr str n ?u (compute_xor acc ?u) = Inr r" "length r = 32"
      "\<forall>k < 32. r ! k = foldl (XOR) (compute_xor acc ?u ! k)
         (map (\<lambda>j. rfc_u hmac str salt j ! k) [Suc (Suc m)..<Suc (Suc m) + n])"
    by blast
  have "[Suc m..<Suc m + Suc n] = Suc m # [Suc (Suc m)..<Suc (Suc m) + n]"
    by (simp add: upt_rec)
  then show ?case
    using r assms Suc.prems by (simp add: compute_hmac_def compute_xor_nth)
qed

lemma rfc_u_0: "rfc_u hmac str salt 0 = hmac str (salt @ store_big_s32 1)"
  by (simp add: store_big_s32_def)

lemma compute_hi_rfc:
  assumes "crypto_works cr hmac H" and "1 \<le> i"
  shows "compute_hi cr str salt i = Inr (rfc_hi hmac str salt i)"
proof -
  let ?u = "rfc_u hmac str salt"
  have h: "cr_hmac cr = (\<lambda>k d. Inr (hmac k d))" "\<forall>k d. length (hmac k d) = 32"
    using assms(1) by (simp_all add: crypto_works_def)
  then have len: "length (?u 0) = 32" by simp
  from hi_loop_nth [OF h len, where str = str and n = "i - 1" and salt = salt and m = 0] obtain r where r:
      "hi_loop cr str (i - 1) (?u 0) (?u 0) = Inr r" "length r = 32"
      "\<forall>k < 32. r ! k = foldl (XOR) (?u 0 ! k) (map (\<lambda>j. ?u j ! k) [1..<i])"
    using assms(2) by auto
  have split: "[0..<i] = 0 # [1..<i]" using assms(2) by (simp add: upt_conv_Cons)
  have "r = rfc_hi hmac str salt i"
    by (rule nth_equalityI) (use r in \<open>simp_all add: rfc_hi_def split\<close>)
  then show ?thesis
    using r(1) h(1) by (simp add: compute_hi_def compute_hmac_pieces_def rfc_u_0 del: rfc_u.simps)
qed

lemma compute_proofs_rfc:
  assumes "crypto_works cr hmac H" and "1 \<le> i"
  shows "compute_proofs cr pw salt i am =
    Inr (compute_xor (rfc_client_key hmac pw salt i) (hmac (rfc_stored_key hmac H pw salt i) am),
         hmac (rfc_server_key hmac pw salt i) am)"
proof -
  have "normalize_password pw = pw" by (simp add: normalize_password_def sasl_prep_def)
  then show ?thesis
    using assms compute_hi_rfc [OF assms]
    by (simp add: compute_proofs_def crypto_works_def compute_hmac_def compute_sha256_def
        rfc_client_key_def rfc_stored_key_def rfc_server_key_def)
qed

section \<open>Messages\<close>

lemma scan_nonce_append:
  assumes "list_all scram_is_printable n"
  shows "scan_nonce (n @ comma # p) = Some (n, p)"
proof -
  have "\<not> scram_is_printable comma" by (simp add: scram_is_printable_def)
  then show ?thesis using assms by (induction n) auto
qed

lemma scan_salt_append: "comma \<notin> set n \<Longrightarrow> scan_salt (n @ comma # p) = Some (n, p)"
  by (induction n) auto

lemma comma_not_alphabet: "comma \<notin> set alphabet"
  by code_simp

lemma encode_no_comma: "comma \<notin> set (encode xs)"
proof -
  have t: "tab i \<noteq> comma" if "unat i < 64" for i
    using that comma_not_alphabet by (metis length_alphabet nth_mem tab_def)
  have "comma \<noteq> equals_sign" by (simp add: equals_sign_def)
  then show ?thesis
    by (induction xs rule: encode.induct) (simp_all add: t [THEN not_sym] piece_bounds)
qed

lemma to_chars_no_comma: "comma \<notin> set (to_chars (int n))"
  using digits_of_digits [of n] by (auto simp: to_chars_def list_all_iff is_digit_def)

lemma alphabet_printable: "list_all scram_is_printable (equals_sign # alphabet)"
  by code_simp

lemma encode_printable: "list_all scram_is_printable (encode xs)"
proof -
  have "scram_is_printable (tab i)" if "unat i < 64" for i
    using that alphabet_printable nth_mem [of "unat i" alphabet] by (simp add: tab_def list_all_iff)
  moreover have "scram_is_printable equals_sign" using alphabet_printable by simp
  ultimately show ?thesis by (induction xs rule: encode.induct) (simp_all add: piece_bounds)
qed

lemma takeWhile_no_comma: "comma \<notin> set xs \<Longrightarrow> takeWhile (\<lambda>c. c \<noteq> comma) xs = xs"
  by (induction xs) auto

lemma from_chars_takeWhile:
  assumes "i < 2 ^ 32"
  shows "from_chars 0 4294967295 (takeWhile (\<lambda>c. c \<noteq> comma) (to_chars (int i))) = Inr (int i, [])"
  using assms from_chars_to_chars [of 0 "int i" 4294967295 "[]"]
  by (simp add: takeWhile_no_comma [OF to_chars_no_comma])

lemma parse_rfc_server_first:
  assumes "list_all scram_is_printable nonce" and "i < 2 ^ 32"
  shows "parse_server_first_message (rfc_server_first nonce salt i) =
    Some (Inr \<lparr>sfm_nonce = nonce, sfm_salt = salt, sfm_iteration_count = i\<rparr>)"
proof -
  have eq: "rfc_server_first nonce salt i =
      of_char CHR ''r'' # equals_sign # nonce @ comma # of_char CHR ''s'' # equals_sign # encode salt @
      comma # of_char CHR ''i'' # equals_sign # to_chars (int i)"
    by (simp add: rfc_server_first_def of_str_def equals_sign_def)
  have "base64_decode (encode salt) [] = Some (None, salt)"
    using decode_back by simp
  then show ?thesis
    unfolding eq parse_server_first_message_def
    by (simp add: scan_nonce_append [OF assms(1)] scan_salt_append [OF encode_no_comma] from_chars_takeWhile [OF assms(2)])
qed

section \<open>Serialization\<close>

lemmas in_fresh_buffer = add_header_init [of _ "[]", simplified] writers_in_progress [where to = "[]", simplified]

definition client_first_body :: "bytes \<Rightarrow> bytes" where
  "client_first_body nonce =
     encode_cstr (of_str ''SCRAM-SHA-256'') @ store_big_s32 (word_of_nat (length nonce + 8)) @
     of_str ''n,,'' @ of_str ''n=,r='' @ nonce"

lemma length_of_str [simp]: "length (of_str s) = length s"
  by (simp add: of_str_def)

lemma serialize_client_first:
  assumes "length nonce + 100 \<le> int32_max"
  shows "serialize_client_first_message \<lparr>cfm_mechanism = of_str ''SCRAM-SHA-256'', cfm_nonce = nonce\<rparr> [] =
      (None, frame (of_char CHR ''p'') (client_first_body nonce), Some (26, length nonce + 5))"
proof -
  let ?mech = "encode_cstr (of_str ''SCRAM-SHA-256'')" and ?text = "of_str ''n,,'' @ of_str ''n=,r='' @ nonce"
  have len: "length ?mech = 14" by (simp add: encode_cstr_def)
  have st: "store_at 19 bs (of_char CHR ''p'' # 0 # 0 # 0 # 0 # ?mech @ 0 # 0 # 0 # 0 # ?text) =
      of_char CHR ''p'' # 0 # 0 # 0 # 0 # ?mech @ bs @ ?text" if "length bs = 4" for bs
    using that store_at_exact [of "[0, 0, 0, 0]" bs "of_char CHR ''p'' # 0 # 0 # 0 # 0 # ?mech" ?text] len
    by simp
  have fin: "finish (in_progress [] (of_char CHR ''p'') (client_first_body nonce)) =
      (None, [] @ frame (of_char CHR ''p'') (client_first_body nonce))"
    by (rule finish_frame) (use assms len in \<open>simp_all add: client_first_body_def size_max_def\<close>)
  show ?thesis
    using fin assms st [of "store_big_s32 (word_of_nat (length nonce + 8))"] len
    by (simp add: serialize_client_first_message_def in_fresh_buffer client_first_body_def Let_def add.commute)
qed

lemma client_first_span:
  "span_bytes (frame (of_char CHR ''p'') (client_first_body nonce)) (26, length nonce + 5) =
     of_str ''n=,r='' @ nonce"
  by (simp add: span_bytes_def frame_def client_first_body_def encode_cstr_def of_str_def store_big_s32_def)

lemma without_proof:
  "serialize_without_proof nonce (serialization_context_init []) =
     (Inr (5, length nonce + 9), in_progress [] (of_char CHR ''p'') (of_str ''c=biws,r='' @ nonce))"
  "span_bytes (of_char CHR ''p'' # 0 # 0 # 0 # 0 # of_str ''c=biws,r='' @ nonce) (5, length nonce + 9) =
     of_str ''c=biws,r='' @ nonce"
  by (simp_all add: serialize_without_proof_def in_fresh_buffer Let_def span_bytes_def)

definition client_final_body :: "bytes \<Rightarrow> bytes \<Rightarrow> bytes" where
  "client_final_body nonce client_proof =
     of_str ''c=biws,r='' @ nonce @ of_str '',p='' @ encode client_proof"

lemma serialize_proof_frame:
  assumes "length nonce + 100 \<le> int32_max" and "length client_proof \<le> 32"
  shows "\<exists>c'. serialize_proof client_proof (in_progress [] (of_char CHR ''p'') (of_str ''c=biws,r='' @ nonce)) = (None, c') \<and>
    sc_buffer c' = frame (of_char CHR ''p'') (client_final_body nonce client_proof)"
proof -
  let ?c = "in_progress [] (of_char CHR ''p'') (client_final_body nonce client_proof)"
  have "length (encode client_proof) \<le> 44" using assms(2) by (simp add: length_encode encoded_size_def)
  then have "finish ?c = (None, [] @ frame (of_char CHR ''p'') (client_final_body nonce client_proof))"
    using assms(1) by (intro finish_frame) (simp_all add: client_final_body_def size_max_def)
  then show ?thesis
    by (auto simp: serialize_proof_def base64_encode_def in_fresh_buffer client_final_body_def finish_def Let_def
        split: prod.splits)
qed

section \<open>The exchange\<close>

lemma rfc_lengths:
  assumes "crypto_works cr hmac H"
  shows "length (rfc_client_key hmac pw salt i) = 32" and "length (hmac k d) = 32"
  using assms by (simp_all add: crypto_works_def rfc_client_key_def)

lemma auth_message_eq:
  "of_str ''n=,r='' @ client_nonce @ comma # server_first @ comma # of_str ''c=biws,r='' @ nonce =
     rfc_auth_message client_nonce server_first nonce"
  by (simp add: rfc_auth_message_def of_str_def)

lemma crypto_equal_iff [simp]: "crypto_equal a b \<longleftrightarrow> a = b"
  by (auto simp: crypto_equal_def list.rel_eq)

lemma on_server_first_ok:
  assumes "crypto_works cr hmac H" and "parse_server_first_message bs = Some (Inr msg)"
    and "prefix (sf_nonce f) (sfm_nonce msg)" and "sfm_nonce msg \<noteq> []"
    and "1 \<le> sfm_iteration_count msg" and "sfm_iteration_count msg \<le> 0xffff"
    and "span_bytes wb (sf_client_first_msg f) = of_str ''n=,r='' @ sf_nonce f"
    and "length (sfm_nonce msg) + 100 \<le> int32_max"
  shows "on_server_first cr bs pw f wb =
    (let am = rfc_auth_message (sf_nonce f) bs (sfm_nonce msg);
         salt = sfm_salt msg; i = sfm_iteration_count msg
     in Some (None, f\<lparr>sf_server_signature := hmac (rfc_server_key hmac pw salt i) am\<rparr>,
          frame (of_char CHR ''p'') (client_final_body (sfm_nonce msg)
            (compute_xor (rfc_client_key hmac pw salt i) (hmac (rfc_stored_key hmac H pw salt i) am)))))"
proof -
  define am where "am = rfc_auth_message (sf_nonce f) bs (sfm_nonce msg)"
  let ?salt = "sfm_salt msg" and ?i = "sfm_iteration_count msg"
  define pr where "pr = compute_xor (rfc_client_key hmac pw ?salt ?i) (hmac (rfc_stored_key hmac H pw ?salt ?i) am)"
  have "length pr \<le> 32" using rfc_lengths [OF assms(1)] by (simp add: pr_def length_compute_xor)
  from serialize_proof_frame [OF assms(8) this] obtain c' where c':
      "serialize_proof pr (in_progress [] (of_char CHR ''p'') (of_str ''c=biws,r='' @ sfm_nonce msg)) = (None, c')"
      "sc_buffer c' = frame (of_char CHR ''p'') (client_final_body (sfm_nonce msg) pr)"
    by blast
  have "compute_proofs cr pw ?salt ?i am = Inr (pr, hmac (rfc_server_key hmac pw ?salt ?i) am)"
    unfolding pr_def by (rule compute_proofs_rfc [OF assms(1,5)])
  then show ?thesis
    using assms(2-7) c'
    by (simp add: on_server_first_def without_proof [simplified] auth_message_eq am_def [symmetric] pr_def [symmetric])
qed

lemma scram_exchange:
  assumes "crypto_works cr hmac H"
    and "list_all scram_is_printable (nonce @ server_nonce)" and "nonce @ server_nonce \<noteq> []"
    and "length nonce + length server_nonce + 100 \<le> int32_max"
    and "1 \<le> i" and "i \<le> 0xffff"
    and "server_first = rfc_server_first (nonce @ server_nonce) salt i"
    and "am = rfc_auth_message nonce server_first (nonce @ server_nonce)"
  shows "\<exists>f1 f2 client_proof.
    on_init (Inr nonce) f wb = (None, f1, frame (of_char CHR ''p'') (client_first_body nonce)) \<and>
    on_server_first cr server_first pw f1 (frame (of_char CHR ''p'') (client_first_body nonce)) =
      Some (None, f2, frame (of_char CHR ''p'') (client_final_body (nonce @ server_nonce) client_proof)) \<and>
    H (compute_xor client_proof (hmac (rfc_stored_key hmac H pw salt i) am)) = rfc_stored_key hmac H pw salt i \<and>
    (\<forall>sig. on_server_final (of_str ''v='' @ encode sig) f2 =
      Some (if sig = hmac (rfc_server_key hmac pw salt i) am then None
            else Some (Client scram_invalid_server_signature)))"
proof -
  let ?f1 = "f\<lparr>sf_nonce := nonce, sf_client_first_msg := (26, length nonce + 5)\<rparr>"
  let ?wb = "frame (of_char CHR ''p'') (client_first_body nonce)"
  let ?f2 = "?f1\<lparr>sf_server_signature := hmac (rfc_server_key hmac pw salt i) am\<rparr>"
  let ?pr = "compute_xor (rfc_client_key hmac pw salt i) (hmac (rfc_stored_key hmac H pw salt i) am)"
  have init: "on_init (Inr nonce) f wb = (None, ?f1, ?wb)"
    using serialize_client_first [of nonce] assms(4) by (simp add: on_init_def)
  have parsed: "parse_server_first_message server_first =
      Some (Inr \<lparr>sfm_nonce = nonce @ server_nonce, sfm_salt = salt, sfm_iteration_count = i\<rparr>)"
    unfolding assms(7) using assms(2,6) by (intro parse_rfc_server_first) simp_all
  have first: "on_server_first cr server_first pw ?f1 ?wb =
      Some (None, ?f2, frame (of_char CHR ''p'') (client_final_body (nonce @ server_nonce) ?pr))"
    using assms(3-6) client_first_span [of nonce]
    by (subst on_server_first_ok [OF assms(1) parsed]) (simp_all add: assms(8) Let_def)
  have "H (compute_xor ?pr (hmac (rfc_stored_key hmac H pw salt i) am)) = rfc_stored_key hmac H pw salt i"
    using rfc_lengths [OF assms(1)] by (simp add: compute_xor_cancel rfc_stored_key_def)
  moreover have "on_server_final (of_str ''v='' @ encode sig) ?f2 =
      Some (if sig = hmac (rfc_server_key hmac pw salt i) am then None
            else Some (Client scram_invalid_server_signature))" for sig
  proof -
    have "of_str ''v='' @ encode sig = of_char CHR ''v'' # equals_sign # encode sig"
      by (simp add: of_str_def equals_sign_def)
    then show ?thesis
      using decode_back [of sig "[]"]
      by (simp add: takeWhile_no_comma [OF encode_no_comma] on_server_final_def parse_server_final_message_def)
  qed
  ultimately show ?thesis using init first by blast
qed

text \<open>
  The exchange with a server that knows the password. Let HMAC and SHA-256 not fail and give 32
  bytes, and let the server answer as RFC 5802 says, with a nonce that extends the client's. Then the
  client sends client-first-message, accepts server-first-message, sends a proof from which the server
  recovers the stored key, and accepts a server signature exactly when it is the one the RFC defines.
\<close>

theorem scram_exchange_succeeds:
  assumes "crypto_works cr hmac H"
    and "list_all scram_is_printable (nonce @ server_nonce)" and "nonce @ server_nonce \<noteq> []"
    and "length nonce + length server_nonce + 100 \<le> int32_max"
    and "1 \<le> i" and "i \<le> 0xffff"
    and "server_first = rfc_server_first (nonce @ server_nonce) salt i"
    and "am = rfc_auth_message nonce server_first (nonce @ server_nonce)"
  shows "\<exists>f1 f2 client_proof.
    on_init (Inr nonce) f wb = (None, f1, frame (of_char CHR ''p'') (client_first_body nonce)) \<and>
    on_server_first cr server_first pw f1 (frame (of_char CHR ''p'') (client_first_body nonce)) =
      Some (None, f2, frame (of_char CHR ''p'') (client_final_body (nonce @ server_nonce) client_proof)) \<and>
    H (compute_xor client_proof (hmac (rfc_stored_key hmac H pw salt i) am)) = rfc_stored_key hmac H pw salt i \<and>
    (\<forall>sig. on_server_final (of_str ''v='' @ encode sig) f2 =
      Some (if sig = hmac (rfc_server_key hmac pw salt i) am then None
            else Some (Client scram_invalid_server_signature)))"
  using assms by (rule scram_exchange)

text \<open>A stand-in for OpenSSL: digests of the right size that depend on the arguments.\<close>

definition sample_hmac :: "bytes \<Rightarrow> bytes \<Rightarrow> bytes" where
  "sample_hmac k d = replicate 32 (word_of_nat (length k + 3 * length d))"

definition sample_hash :: "bytes \<Rightarrow> bytes" where
  "sample_hash d = replicate 32 (word_of_nat (length d))"

definition sample_crypto :: crypto where
  "sample_crypto =
     \<lparr>cr_mac_context = None, cr_hmac = (\<lambda>k d. Inr (sample_hmac k d)), cr_sha256 = (\<lambda>d. Inr (sample_hash d)),
      cr_rand_bytes = (\<lambda>n. Inr (replicate n 0))\<rparr>"

lemma sample_crypto_works: "crypto_works sample_crypto sample_hmac sample_hash"
  by (simp add: crypto_works_def sample_crypto_def sample_hmac_def sample_hash_def)

theorem scram_exchange_succeeds_witness:
  "\<exists>f2 client_proof.
     on_server_first sample_crypto (rfc_server_first (of_str ''abcXY'') [1, 2, 3] 4096) (of_str ''pw'')
       \<lparr>sf_nonce = of_str ''abc'', sf_client_first_msg = (26, 8), sf_server_signature = replicate 32 0\<rparr>
       (frame (of_char CHR ''p'') (client_first_body (of_str ''abc''))) =
     Some (None, f2, frame (of_char CHR ''p'') (client_final_body (of_str ''abcXY'') client_proof))"
proof -
  have pr: "list_all scram_is_printable (of_str ''abc'' @ of_str ''XY'')"
    by (simp add: of_str_def scram_is_printable_def)
  have init: "on_init (Inr (of_str ''abc'')) scram_sha256_fsm_init [] =
      (None, \<lparr>sf_nonce = of_str ''abc'', sf_client_first_msg = (26, 8), sf_server_signature = replicate 32 0\<rparr>,
       frame (of_char CHR ''p'') (client_first_body (of_str ''abc'')))"
    using serialize_client_first [of "of_str ''abc''"]
    by (simp add: on_init_def scram_sha256_fsm_init_def int32_max_def)
  have "of_str ''abc'' @ of_str ''XY'' = of_str ''abcXY''" by (simp add: of_str_def)
  then show ?thesis
    using scram_exchange_succeeds [OF sample_crypto_works pr _ _ _ _ refl refl, of 4096 scram_sha256_fsm_init "[]" "[1, 2, 3]" "of_str ''pw''"]
      init by (auto simp: int32_max_def of_str_def)
qed

text \<open>
  C24. What a client that finishes has checked, whatever server it talks to: the nonce extends its own,
  the iteration count is between 1 and 65535, and it accepts a final message exactly when that message
  carries the signature of the whole exchange under the server key derived from the password.
\<close>

theorem scram_server_authenticated:
  assumes "crypto_works cr hmac H" and "on_server_first cr bs pw f wb = Some (None, f', wb')"
  shows "\<exists>msg. parse_server_first_message bs = Some (Inr msg) \<and>
    prefix (sf_nonce f) (sfm_nonce msg) \<and> 1 \<le> sfm_iteration_count msg \<and> sfm_iteration_count msg \<le> 0xffff \<and>
    (\<forall>fin. (on_server_final fin f' = Some None) =
      (parse_server_final_message fin =
        Some (Inr (hmac (rfc_server_key hmac pw (sfm_salt msg) (sfm_iteration_count msg))
          (span_bytes wb (sf_client_first_msg f) @ [comma] @ bs @ [comma] @ of_str ''c=biws,r='' @ sfm_nonce msg)))))"
proof -
  obtain msg where msg: "parse_server_first_message bs = Some (Inr msg)"
      "sfm_nonce msg \<noteq> []" "prefix (sf_nonce f) (sfm_nonce msg)"
      "1 \<le> sfm_iteration_count msg" "sfm_iteration_count msg \<le> 0xffff"
    using assms(2) by (auto simp: on_server_first_def split: option.splits sum.splits if_splits)
  let ?am = "span_bytes wb (sf_client_first_msg f) @ [comma] @ bs @ [comma] @ of_str ''c=biws,r='' @ sfm_nonce msg"
  let ?sig = "hmac (rfc_server_key hmac pw (sfm_salt msg) (sfm_iteration_count msg)) ?am"
  have "f' = f\<lparr>sf_server_signature := ?sig\<rparr>"
    using assms(2) msg compute_proofs_rfc [OF assms(1) msg(4), of pw "sfm_salt msg" ?am]
    by (auto simp: on_server_first_def without_proof [simplified] split: prod.splits)
  then have "(on_server_final fin f' = Some None) = (parse_server_final_message fin = Some (Inr ?sig))" for fin
    by (auto simp: on_server_final_def split: option.splits sum.splits)
  then show ?thesis using msg by blast
qed

theorem scram_server_authenticated_witness:
  "\<exists>msg. parse_server_first_message (rfc_server_first (of_str ''abcXY'') [1, 2, 3] 4096) = Some (Inr msg) \<and>
     prefix (of_str ''abc'') (sfm_nonce msg) \<and> 1 \<le> sfm_iteration_count msg \<and> sfm_iteration_count msg \<le> 0xffff"
proof -
  have pr: "list_all scram_is_printable (of_str ''abcXY'')"
    by (simp add: of_str_def scram_is_printable_def)
  let ?f = "\<lparr>sf_nonce = of_str ''abc'', sf_client_first_msg = (26, 8), sf_server_signature = []\<rparr>"
  let ?wb = "frame (of_char CHR ''p'') (client_first_body (of_str ''abc''))"
  have parsed: "parse_server_first_message (rfc_server_first (of_str ''abcXY'') [1, 2, 3] 4096) =
      Some (Inr \<lparr>sfm_nonce = of_str ''abcXY'', sfm_salt = [1, 2, 3], sfm_iteration_count = 4096\<rparr>)"
    by (rule parse_rfc_server_first [OF pr]) simp
  have "\<exists>f' wb'. on_server_first sample_crypto (rfc_server_first (of_str ''abcXY'') [1, 2, 3] 4096) (of_str ''pw'') ?f ?wb =
      Some (None, f', wb')"
    using client_first_span [of "of_str ''abc''"]
    by (subst on_server_first_ok [OF sample_crypto_works parsed]) (simp_all add: of_str_def int32_max_def Let_def)
  then obtain f' wb' where
      ok: "on_server_first sample_crypto (rfc_server_first (of_str ''abcXY'') [1, 2, 3] 4096) (of_str ''pw'') ?f ?wb =
        Some (None, f', wb')" by blast
  show ?thesis
    using scram_server_authenticated [OF sample_crypto_works ok] by (auto simp del: of_nat_numeral)
qed

end
