(* ===== verification/Pg_Startup_Facts.thy ===== *)
theory Pg_Startup_Facts
  imports Pg_Startup Pg_Scram_Facts
begin

text \<open>
  What a startup does. \<open>startup_outcome_of\<close> runs the startup algorithm on a list of messages, its writes
  being accepted by the transport; the messages with which it succeeds are characterized. The machines
  around it deliver this outcome however the bytes of the messages arrive, and a failed connection is
  closed before the failure is reported.
\<close>

section \<open>The startup algorithm on messages\<close>

function startup_outcome_of ::
    "crypto \<Rightarrow> any_backend_message list \<Rightarrow> startup_result \<Rightarrow> connection_state \<Rightarrow> bytes \<Rightarrow> startup_fsm_impl \<Rightarrow>
     (error_code option \<times> int32 \<times> int32 \<times> bytes) option" where
  "startup_outcome_of cr ms (Startup_done ec) st diag f =
     Some (ec, cst_backend_process_id st, cst_backend_secret_key st, diag)"
| "startup_outcome_of cr ms Startup_write st diag f =
     (case startup_fsm_impl_resume cr st diag No_message f of
        Some (Startup_read, st', diag', f') \<Rightarrow> startup_outcome_of cr ms Startup_read st' diag' f'
      | _ \<Rightarrow> None)"
| "startup_outcome_of cr [] Startup_read st diag f = None"
| "startup_outcome_of cr (m # ms) Startup_read st diag f =
     (case startup_fsm_impl_resume cr st diag m f of
        None \<Rightarrow> None
      | Some (res, st', diag', f') \<Rightarrow> startup_outcome_of cr ms res st' diag' f')"
  by pat_completeness auto
termination
  by (relation "measures [\<lambda>(cr, ms, res, st, diag, f). length ms,
      \<lambda>(cr, ms, res, st, diag, f). of_bool (res = Startup_write)]") auto

text \<open>The algorithm looks neither at the read buffer nor at the diagnostics the connection keeps.\<close>

abbreviation elsewhere :: "read_buffer \<Rightarrow> bytes \<Rightarrow> connection_state \<Rightarrow> connection_state" where
  "elsewhere b d st \<equiv> st\<lparr>cst_read_buffer := b, cst_shared_diag := d\<rparr>"

definition relocate :: "read_buffer \<Rightarrow> bytes \<Rightarrow> startup_outcome \<Rightarrow> startup_outcome" where
  "relocate b d = map_option (\<lambda>(res, st, diag, f). (res, elsewhere b d st, diag, f))"

lemma relocate_simps [simp]:
  "relocate b d None = None"
  "relocate b d (Some (res, st, diag, f)) = Some (res, elsewhere b d st, diag, f)"
  by (simp_all add: relocate_def)

lemma steps_elsewhere:
  "startup_initial (elsewhere b d st) diag f = relocate b d (startup_initial st diag f)"
  "startup_auth_response m (elsewhere b d st) diag f = relocate b d (startup_auth_response m st diag f)"
  "startup_auth_request cr m (elsewhere b d st) diag f = relocate b d (startup_auth_request cr m st diag f)"
  "startup_sasl_continue cr m (elsewhere b d st) diag f = relocate b d (startup_sasl_continue cr m st diag f)"
  "startup_sasl_final m (elsewhere b d st) diag f = relocate b d (startup_sasl_final m st diag f)"
  "startup_wait_ready m (elsewhere b d st) diag f = relocate b d (startup_wait_ready m st diag f)"
  by (cases m; simp add: startup_step_defs handle_auth_response_def check_unknown_auth_methods_def Let_def
      split: option.split prod.split bool.split)+

lemma resume_elsewhere:
  "startup_fsm_impl_resume cr (elsewhere b d st) diag m f = relocate b d (startup_fsm_impl_resume cr st diag m f)"
  by (simp add: startup_fsm_impl_resume_def steps_elsewhere Let_def)

lemma outcome_elsewhere:
  "startup_outcome_of cr ms res (elsewhere b d st) diag f = startup_outcome_of cr ms res st diag f"
  by (induction cr ms res st diag f rule: startup_outcome_of.induct)
    (auto simp: resume_elsewhere relocate_def split: option.split prod.split startup_result.split)

lemma outcome_other_fields [simp]:
  "startup_outcome_of cr ms res (st\<lparr>cst_read_buffer := b\<rparr>) diag f = startup_outcome_of cr ms res st diag f"
  "startup_outcome_of cr ms res (st\<lparr>cst_shared_diag := d\<rparr>) diag f = startup_outcome_of cr ms res st diag f"
  using outcome_elsewhere [where b = b and d = "cst_shared_diag st" and st = st]
    outcome_elsewhere [where b = "cst_read_buffer st" and d = d and st = st] by simp_all

section \<open>Which messages a startup accepts\<close>

text \<open>An error whose SQLSTATE is 00000 has an error code that tests false.\<close>

definition null_error :: "any_backend_message \<Rightarrow> bool" where
  "null_error m \<longleftrightarrow> (\<exists>e. m = Error_response e \<and> fst (process_error e) = None)"

definition session_message :: "any_backend_message \<Rightarrow> bool" where
  "session_message m \<longleftrightarrow> (case m of
     Backend_key_data k \<Rightarrow> True | Parameter_status p \<Rightarrow> True | Notice_response n \<Rightarrow> True | _ \<Rightarrow> False)"

definition session_keys :: "any_backend_message list \<Rightarrow> int32 \<times> int32 \<Rightarrow> int32 \<times> int32" where
  "session_keys ms keys =
     fold (\<lambda>m ks. case m of Backend_key_data k \<Rightarrow> (bkd_process_id k, bkd_secret_key k) | _ \<Rightarrow> ks) ms keys"

lemma session_keys_simps [simp]:
  "session_keys [] keys = keys"
  "session_keys (m # ms) keys =
     session_keys ms (case m of Backend_key_data k \<Rightarrow> (bkd_process_id k, bkd_secret_key k) | _ \<Rightarrow> keys)"
  by (simp_all add: session_keys_def)

abbreviation startup_keys :: "connection_state \<Rightarrow> int32 \<times> int32" where
  "startup_keys st \<equiv> (cst_backend_process_id st, cst_backend_secret_key st)"

text \<open>
  The messages after the authentication: keys, parameters and notices up to a ReadyForQuery. The last keys
  are those of the session.
\<close>

definition session_established :: "any_backend_message list \<Rightarrow> int32 \<times> int32 \<Rightarrow> int32 \<times> int32 \<Rightarrow> bool" where
  "session_established ms keys keys' \<longleftrightarrow> (\<exists>mid s rest. ms = mid @ Ready_for_query s # rest \<and>
     list_all session_message mid \<and> keys' = session_keys mid keys)"

lemma session_established_Nil [simp]: "\<not> session_established [] keys keys'"
  by (simp add: session_established_def)

lemma session_established_Cons:
  "session_established (m # ms) keys keys' \<longleftrightarrow>
     (\<exists>s. m = Ready_for_query s) \<and> keys' = keys \<or>
     session_message m \<and> session_established ms (session_keys [m] keys) keys'" (is "?l \<longleftrightarrow> ?r")
proof
  assume ?l
  then obtain mid s rest where *: "m # ms = mid @ Ready_for_query s # rest" "list_all session_message mid"
      "keys' = session_keys mid keys" by (auto simp: session_established_def)
  then show ?r by (cases mid) (auto simp: session_established_def)
next
  assume ?r
  then show ?l
  proof
    assume "(\<exists>s. m = Ready_for_query s) \<and> keys' = keys"
    then show ?l unfolding session_established_def by (intro exI [of _ "[]"]) auto
  next
    assume "session_message m \<and> session_established ms (session_keys [m] keys) keys'"
    then obtain mid s rest where "session_message m" "ms = mid @ Ready_for_query s # rest"
      "list_all session_message mid" "keys' = session_keys (m # mid) keys" by (auto simp: session_established_def)
    then show ?l unfolding session_established_def by (intro exI [of _ "m # mid"]) auto
  qed
qed

lemma wait_ready_outcome:
  assumes "sfi_resume_point f = 8" and "\<forall>m \<in> set ms. \<not> null_error m"
  shows "startup_outcome_of cr ms Startup_read st diag f = Some (None, pid, key, diag') \<longleftrightarrow>
    session_established ms (startup_keys st) (pid, key) \<and> diag' = diag"
  using assms
proof (induction ms arbitrary: st f)
  case (Cons m ms)
  have f: "f\<lparr>sfi_resume_point := 8\<rparr> = f" using Cons.prems(1) by (cases f) simp
  have step: "startup_fsm_impl_resume cr st diag m f = startup_wait_ready m st diag f"
    using Cons.prems(1) by (simp add: startup_fsm_impl_resume_def)
  show ?case
    unfolding session_established_Cons startup_outcome_of.simps step
    using Cons.prems(2) Cons.IH [OF Cons.prems(1)]
    by (cases m) (auto simp: startup_wait_ready_def session_message_def f null_error_def split: prod.splits)
qed simp

text \<open>The messages of an authentication and the write buffer after it.\<close>

definition authenticates :: "crypto \<Rightarrow> connection_state \<Rightarrow> startup_fsm_impl \<Rightarrow> any_backend_message list \<Rightarrow> bool" where
  "authenticates cr st f auth \<longleftrightarrow> auth = [Authentication_ok] \<or>
     (\<exists>v d1 d2 sf1 wb1 sf2 wb2.
        auth = [Authentication_sasl v, Authentication_sasl_continue d1, Authentication_sasl_final d2, Authentication_ok] \<and>
        supports_scram_sha256 v = Some True \<and>
        on_init (generate_nonce cr) (sfi_scram_fsm f) (cst_write_buffer st) = (None, sf1, wb1) \<and>
        on_server_first cr d1 (cp_password (sfi_params f)) sf1 wb1 = Some (None, sf2, wb2) \<and>
        on_server_final d2 sf2 = Some None)"


text \<open>The four points at which the algorithm waits for a message before it is authenticated.\<close>

lemma auth_response_outcome:
  assumes "\<forall>m \<in> set ms. \<not> null_error m"
  shows "(case startup_auth_response m st diag f of None \<Rightarrow> None
      | Some (res, st', diag', f') \<Rightarrow> startup_outcome_of cr ms res st' diag' f') = Some (None, pid, key, diag') \<longleftrightarrow>
    (m = Authentication_ok \<or> null_error m) \<and> session_established ms (startup_keys st) (pid, key) \<and>
      diag' = (case m of Error_response e \<Rightarrow> diagnostics_assign e | _ \<Rightarrow> diag)"
  using assms
  by (cases m) (auto simp: startup_auth_response_def handle_auth_response_def null_error_def process_error_def
      wait_ready_outcome split: option.splits)

lemma point7_outcome:
  assumes "sfi_resume_point f = 7" and "\<forall>m \<in> set ms. \<not> null_error m"
  shows "startup_outcome_of cr ms Startup_read st diag f = Some (None, pid, key, diag') \<longleftrightarrow>
    (\<exists>rest. ms = Authentication_ok # rest \<and> session_established rest (startup_keys st) (pid, key) \<and> diag' = diag)"
proof (cases ms)
  case (Cons m rest)
  have "startup_fsm_impl_resume cr st diag m f = startup_auth_response m st diag f"
    using assms(1) by (simp add: startup_fsm_impl_resume_def)
  then show ?thesis using assms(2) auth_response_outcome [of rest] Cons by auto
qed simp

lemma point6_outcome:
  assumes "sfi_resume_point f = 6" and "\<forall>m \<in> set ms. \<not> null_error m"
  shows "startup_outcome_of cr ms Startup_read st diag f = Some (None, pid, key, diag') \<longleftrightarrow>
    (\<exists>d2 rest. ms = Authentication_sasl_final d2 # Authentication_ok # rest \<and>
       on_server_final d2 (sfi_scram_fsm f) = Some None \<and>
       session_established rest (startup_keys st) (pid, key) \<and> diag' = diag)"
proof (cases ms)
  case (Cons m rest)
  have step: "startup_fsm_impl_resume cr st diag m f = startup_sasl_final m st diag f"
    using assms(1) by (simp add: startup_fsm_impl_resume_def)
  show ?thesis
    using assms(2) unfolding Cons startup_outcome_of.simps step
    by (cases m) (auto simp: startup_sasl_final_def null_error_def point7_outcome split: prod.splits option.splits)
qed simp

lemma point4_outcome:
  assumes "sfi_resume_point f = 4" and "\<forall>m \<in> set ms. \<not> null_error m"
  shows "startup_outcome_of cr ms Startup_read st diag f = Some (None, pid, key, diag') \<longleftrightarrow>
    (\<exists>d1 d2 sf2 wb2 rest. ms = Authentication_sasl_continue d1 # Authentication_sasl_final d2 # Authentication_ok # rest \<and>
       on_server_first cr d1 (cp_password (sfi_params f)) (sfi_scram_fsm f) (cst_write_buffer st) = Some (None, sf2, wb2) \<and>
       on_server_final d2 sf2 = Some None \<and>
       session_established rest (startup_keys st) (pid, key) \<and> diag' = diag)"
proof (cases ms)
  case (Cons m rest)
  have step: "startup_fsm_impl_resume cr st diag m f = startup_sasl_continue cr m st diag f"
    using assms(1) by (simp add: startup_fsm_impl_resume_def)
  have ack: "startup_outcome_of cr rest Startup_write st' diag (f'\<lparr>sfi_resume_point := 5\<rparr>) =
      startup_outcome_of cr rest Startup_read st' diag (f'\<lparr>sfi_resume_point := 6\<rparr>)" for st' f'
    by (simp add: startup_fsm_impl_resume_def)
  show ?thesis
    using assms(2) unfolding Cons startup_outcome_of.simps step
    by (cases m) (auto simp: startup_sasl_continue_def null_error_def ack point6_outcome Let_def
        simp del: startup_outcome_of.simps(2) split: prod.splits option.splits)
qed simp


lemma accepted_Cons:
  "(\<exists>auth rest'. m # rest = auth @ rest' \<and> authenticates cr st f auth \<and> Q rest') \<longleftrightarrow>
     m = Authentication_ok \<and> Q rest \<or>
     (\<exists>v d1 d2 sf1 wb1 sf2 wb2 rest'. m = Authentication_sasl v \<and>
       rest = Authentication_sasl_continue d1 # Authentication_sasl_final d2 # Authentication_ok # rest' \<and>
       supports_scram_sha256 v = Some True \<and>
       on_init (generate_nonce cr) (sfi_scram_fsm f) (cst_write_buffer st) = (None, sf1, wb1) \<and>
       on_server_first cr d1 (cp_password (sfi_params f)) sf1 wb1 = Some (None, sf2, wb2) \<and>
       on_server_final d2 sf2 = Some None \<and> Q rest')" (is "?l \<longleftrightarrow> ?ok \<or> ?scram")
proof
  assume ?l
  then show "?ok \<or> ?scram" by (auto simp: authenticates_def)
next
  assume "?ok \<or> ?scram"
  then show ?l
  proof
    assume ?ok
    then show ?l by (intro exI [of _ "[Authentication_ok]"] exI [of _ rest]) (auto simp: authenticates_def)
  next
    assume ?scram
    then obtain v d1 d2 sf1 wb1 sf2 wb2 rest' where
      "m = Authentication_sasl v"
      "rest = Authentication_sasl_continue d1 # Authentication_sasl_final d2 # Authentication_ok # rest'" and
      s: "supports_scram_sha256 v = Some True \<and>
        on_init (generate_nonce cr) (sfi_scram_fsm f) (cst_write_buffer st) = (None, sf1, wb1) \<and>
        on_server_first cr d1 (cp_password (sfi_params f)) sf1 wb1 = Some (None, sf2, wb2) \<and>
        on_server_final d2 sf2 = Some None \<and> Q rest'" by blast
    moreover from s have "authenticates cr st f
        [Authentication_sasl v, Authentication_sasl_continue d1, Authentication_sasl_final d2, Authentication_ok]"
      unfolding authenticates_def by blast
    ultimately show ?l
      by (intro exI [of _ "[Authentication_sasl v, Authentication_sasl_continue d1, Authentication_sasl_final d2,
          Authentication_ok]"] exI [of _ rest']) simp
  qed
qed

lemma startup_outcome_iff:
  assumes "sfi_resume_point f = 2" and "\<forall>m \<in> set ms. \<not> null_error m"
  shows "startup_outcome_of cr ms Startup_read st diag f = Some (None, pid, key, diag') \<longleftrightarrow>
    (\<exists>auth rest. ms = auth @ rest \<and> authenticates cr st f auth \<and>
       session_established rest (startup_keys st) (pid, key) \<and> diag' = diag)"
proof (cases ms)
  case (Cons m rest)
  have step: "startup_fsm_impl_resume cr st diag m f = startup_auth_request cr m st diag f"
    using assms(1) by (simp add: startup_fsm_impl_resume_def)
  have ack: "startup_outcome_of cr rest Startup_write st' diag (f'\<lparr>sfi_resume_point := 3\<rparr>) =
      startup_outcome_of cr rest Startup_read st' diag (f'\<lparr>sfi_resume_point := 4\<rparr>)" for st' f'
    by (simp add: startup_fsm_impl_resume_def)
  show ?thesis
    using assms(2) auth_response_outcome [of rest]
    unfolding Cons startup_outcome_of.simps step accepted_Cons
    by (cases m) (auto simp: startup_auth_request_def check_unknown_auth_methods_def null_error_def ack
        point4_outcome Let_def simp del: startup_outcome_of.simps(2) split: prod.splits option.splits bool.splits)
qed (simp add: authenticates_def)


text \<open>A connection without a password: AuthenticationOk, BackendKeyData and ReadyForQuery.\<close>

definition sample_params :: connect_params where
  "sample_params = \<lparr>cp_hostname = [], cp_port = 5432, cp_username = of_str ''u'', cp_password = [], cp_database = []\<rparr>"

definition sample_key :: backend_key_data where
  "sample_key = \<lparr>bkd_process_id = 7, bkd_secret_key = 9\<rparr>"

definition sample_session :: bytes where
  "sample_session = [0x52, 0, 0, 0, 8, 0, 0, 0, 0, 0x4b, 0, 0, 0, 12, 0, 0, 0, 7, 0, 0, 0, 9, 0x5a, 0, 0, 0, 5, 0x49]"

lemma sample_session_drain:
  "drain parse_message sample_session =
     ([Authentication_ok] @ [Backend_key_data sample_key, Ready_for_query status_idle], [], None)"
  by code_simp

lemma sample_session_length: "length sample_session = 28"
  by (simp add: sample_session_def)

lemma sample_session_established:
  "session_established [Backend_key_data sample_key, Ready_for_query status_idle] keys (7, 9)"
  by (simp add: session_established_Cons session_message_def sample_key_def)

lemma sample_no_null_error:
  "\<not> null_error Authentication_ok" "\<not> null_error (Backend_key_data k)" "\<not> null_error (Ready_for_query s)"
  by (simp_all add: null_error_def)

lemma sample_startup_message:
  "\<exists>buf. serialize_startup_message (make_startup_message sample_params) [] = (None, buf)"
  by (simp add: serialize_startup_message_def make_startup_message_def sample_params_def Let_def add_bytes_def
      add_byte_def add_int32_def add_string_def serialization_context_init_def of_str_def int32_max_def)

text \<open>
  C21. The messages with which a startup succeeds, once its startup message is written: an AuthenticationOk,
  or the three messages of a SCRAM exchange whose every check the client makes succeeds and an
  AuthenticationOk; then key data, parameters and notices up to a ReadyForQuery. The session has the last
  keys received. Nothing else leads to a session, as long as no error carries the SQLSTATE 00000.
\<close>

theorem startup_succeeds_iff:
  assumes "sfi_resume_point f = 2" and "\<forall>m \<in> set ms. \<not> null_error m"
  shows "startup_outcome_of cr ms Startup_read st diag f = Some (None, pid, key, diag') \<longleftrightarrow>
    (\<exists>auth rest. ms = auth @ rest \<and> authenticates cr st f auth \<and>
       session_established rest (startup_keys st) (pid, key) \<and> diag' = diag)"
  using assms by (rule startup_outcome_iff)

theorem startup_succeeds_iff_witness:
  "startup_outcome_of sample_crypto [Authentication_ok, Backend_key_data sample_key, Ready_for_query status_idle]
     Startup_read empty_state [] ((startup_fsm_impl_init sample_params)\<lparr>sfi_resume_point := 2\<rparr>) = Some (None, 7, 9, [])"
proof -
  let ?f = "(startup_fsm_impl_init sample_params)\<lparr>sfi_resume_point := 2\<rparr>"
  let ?ms = "[Authentication_ok, Backend_key_data sample_key, Ready_for_query status_idle]"
  have "\<exists>auth rest. ?ms = auth @ rest \<and> authenticates sample_crypto empty_state ?f auth \<and>
      session_established rest (startup_keys empty_state) (7, 9) \<and> [] = []"
    by (intro exI [of _ "[Authentication_ok]"] exI [of _ "[Backend_key_data sample_key, Ready_for_query status_idle]"])
      (simp add: authenticates_def sample_session_established)
  then show ?thesis
    by (subst startup_succeeds_iff) (simp_all add: sample_no_null_error)
qed

section \<open>From messages to bytes\<close>

text \<open>
  The transport connects, accepts every write and returns at least one byte on a read, as many as it likes
  up to the room it was offered; \<open>ks\<close> are the sizes it chooses.
\<close>

type_synonym connect_io = "(connect_result \<times> connection_state \<times> connect_fsm) option"

fun connect_feed :: "crypto \<Rightarrow> (nat \<Rightarrow> bytes) \<Rightarrow> nat list \<Rightarrow> bytes \<Rightarrow> connect_io \<Rightarrow> connect_io" where
  "connect_feed cr alloc (k # ks) (b # bs) (Some (Conn_read room, st, f)) =
     (let chunk = take (min room (max 1 k)) (b # bs)
      in connect_feed cr alloc ks (drop (length chunk) (b # bs))
           (connect_resume cr alloc (receive_bytes chunk st) None (length chunk) f))"
| "connect_feed cr alloc (k # ks) bs (Some (Conn_write data, st, f)) =
     connect_feed cr alloc ks bs (connect_resume cr alloc st None 0 f)"
| "connect_feed cr alloc (k # ks) bs (Some (Conn_connect, st, f)) =
     connect_feed cr alloc ks bs (connect_resume cr alloc st None 0 f)"
| "connect_feed cr alloc (k # ks) bs (Some (Conn_close, st, f)) =
     connect_feed cr alloc ks bs (connect_resume cr alloc st None 0 f)"
| "connect_feed cr alloc ks bs x = x"

text \<open>The outcome of the bytes that are in the buffer and still to come.\<close>

definition outcome_of_bytes where
  "outcome_of_bytes cr bs res st diag f =
     startup_outcome_of cr (fst (drain parse_message bs)) res st diag f"

lemma outcome_of_bytes_read:
  "outcome_of_bytes cr bs Startup_read st diag f =
     (if pmr_ec (parse_message bs) = None
      then (case startup_fsm_impl_resume cr st diag (pmr_message (parse_message bs)) f of
              None \<Rightarrow> None
            | Some (res, st', diag', f') \<Rightarrow>
                outcome_of_bytes cr (drop (pmr_size (parse_message bs)) bs) res st' diag' f')
      else None)"
  unfolding outcome_of_bytes_def
  by (subst msg.drain_unfold) (auto split: option.split prod.split)

text \<open>
  How many writes are still to come at a point of the algorithm, counting one that is under way.
\<close>

definition writes_left :: "startup_fsm_impl \<Rightarrow> nat" where
  "writes_left f = (if sfi_resume_point f \<le> 1 then 3 else if sfi_resume_point f \<le> 3 then 2
     else if sfi_resume_point f \<le> 5 then 1 else 0)"

definition write_point :: "startup_fsm_impl \<Rightarrow> bool" where
  "write_point f \<longleftrightarrow> sfi_resume_point f \<in> {1, 3, 5}"

lemma resume_points:
  assumes "startup_fsm_impl_resume cr st diag m f = Some (res, st', diag', f')"
  shows "writes_left f' \<le> writes_left f" and "res = Startup_write \<Longrightarrow> write_point f'"
proof -
  have le: "sfi_resume_point f \<le> sfi_resume_point f'"
    using assms
    by (auto simp: startup_fsm_impl_resume_def startup_step_defs Let_def
        split: if_splits any_backend_message.splits option.splits prod.splits bool.splits)
  then show "writes_left f' \<le> writes_left f" by (simp add: writes_left_def)
  show "write_point f'" if "res = Startup_write"
    using assms that
    by (auto simp: startup_fsm_impl_resume_def startup_step_defs Let_def write_point_def
        split: if_splits any_backend_message.splits option.splits prod.splits bool.splits)
qed

lemma resume_write_point:
  assumes "write_point f"
  shows "\<exists>f'. startup_fsm_impl_resume cr st diag No_message f = Some (Startup_read, st, diag, f') \<and>
    writes_left f' < writes_left f"
  by (rule exI [of _ "f\<lparr>sfi_resume_point := sfi_resume_point f + 1\<rparr>"])
    (use assms in \<open>auto simp: write_point_def startup_fsm_impl_resume_def writes_left_def\<close>)

lemma outcome_of_bytes_write:
  assumes "startup_fsm_impl_resume cr st diag No_message f = Some (Startup_read, st', diag', f')"
  shows "outcome_of_bytes cr bs Startup_write st diag f = outcome_of_bytes cr bs Startup_read st' diag' f'"
  using assms by (simp add: outcome_of_bytes_def)

text \<open>What one call of the machine hands to its caller.\<close>

definition startup_hands where
  "startup_hands cr bs r io st diag f \<longleftrightarrow>
     (case io of
        Io_done ec \<Rightarrow> r = (ec, cst_backend_process_id st, cst_backend_secret_key st, diag)
      | Io_write data \<Rightarrow> data = cst_write_buffer st \<and> su_resume_point f = 1 \<and> write_point (su_impl f) \<and>
          outcome_of_bytes cr (buffered st @ bs) Startup_write st diag (su_impl f) = Some r
      | Io_read room \<Rightarrow> su_resume_point f = 2 \<and> 0 < room \<and> room = prepared_area_size (cst_read_buffer st) \<and> bs \<noteq> [] \<and>
          outcome_of_bytes cr (buffered st @ bs) Startup_read st diag (su_impl f) = Some r)"

lemma startup_loop_hands:
  assumes "outcome_of_bytes cr (buffered st @ bs) res st diag (su_impl f) = Some r" and "rb_ready alloc st"
    and "res = Startup_write \<longrightarrow> write_point (su_impl f)"
  shows "\<exists>io st' diag' f'. startup_loop cr alloc res st diag f = Some (io, st', diag', f') \<and> rb_ready alloc st' \<and>
    writes_left (su_impl f') \<le> writes_left (su_impl f) \<and> startup_hands cr bs r io st' diag' f'"
  using assms
proof (induction cr alloc res st diag f rule: startup_loop.induct)
  case (1 cr alloc res st diag f)
  let ?p = "parse_message (buffered st)"
  show ?case
  proof (cases res)
    case (Startup_done ec)
    then show ?thesis using "1.prems"
      by (subst startup_loop.simps) (simp add: startup_hands_def outcome_of_bytes_def)
  next
    case Startup_write
    then show ?thesis using "1.prems"
      by (subst startup_loop.simps) (simp add: startup_hands_def writes_left_def)
  next
    case Startup_read
    show ?thesis
    proof (cases "pmr_ec ?p")
      case None
      have st: "parse_message (buffered st @ bs) = ?p" using None by (intro parse_message_stable) simp
      obtain res' st' diag' impl where r: "startup_fsm_impl_resume cr st diag (pmr_message ?p) (su_impl f) =
          Some (res', st', diag', impl)"
        "outcome_of_bytes cr (drop (pmr_size ?p) (buffered st @ bs)) res' st' diag' impl = Some r"
        using "1.prems"(1) Startup_read None
        by (auto simp: outcome_of_bytes_read st split: option.splits)
      let ?st = "cst_consume (pmr_size ?p) st'" and ?f = "f\<lparr>su_impl := impl\<rparr>"
      note keep = startup_keeps_read_buffer(1) [OF r(1)] and pts = resume_points [OF r(1)]
      have inv: "rb_ready alloc ?st" "buffered ?st = drop (pmr_size ?p) (buffered st)"
        using "1.prems"(2) consume_inv keep by (auto simp: rb_ready_def cst_consume_def)
      have "outcome_of_bytes cr (buffered ?st @ bs) res' ?st diag' (su_impl ?f) = Some r"
        using r(2) inv(2) msg.complete_size [OF None] by (simp add: outcome_of_bytes_def cst_consume_def)
      then obtain io st'' diag'' f'' where
          "startup_loop cr alloc res' ?st diag' ?f = Some (io, st'', diag'', f'')" "rb_ready alloc st''"
          "writes_left (su_impl f'') \<le> writes_left (su_impl ?f)" "startup_hands cr bs r io st'' diag'' f''"
        using "1.IH" [OF Startup_read refl None r(1) refl refl refl _ inv(1)] pts(2) by auto
      then show ?thesis
        using Startup_read None r(1) pts(1) by (subst startup_loop.simps) (auto intro: order_trans)
    next
      case (Some ec)
      have more: "ec = Client needs_more"
      proof (rule ccontr)
        assume "ec \<noteq> Client needs_more"
        then have "parse_message (buffered st @ bs) = ?p" using Some by (intro parse_message_stable) simp
        then show False using "1.prems"(1) Startup_read Some by (simp add: outcome_of_bytes_read)
      qed
      then have bs: "bs \<noteq> []" using "1.prems"(1) Startup_read Some by (auto simp: outcome_of_bytes_read)
      let ?b = "prepare alloc (pmr_size ?p) (cst_read_buffer st)"
      have p: "rb_inv ?b" "committed_area ?b = buffered st" "pmr_size ?p \<le> prepared_area_size ?b"
        using prepare_inv [of alloc "cst_read_buffer st" "pmr_size ?p"] missing_fits [of "buffered st"] Some more
          "1.prems"(2) by (auto simp: rb_ready_def)
      moreover have "0 < pmr_size ?p" using msg.missing_positive Some more by blast
      moreover have "outcome_of_bytes cr (buffered st @ bs) Startup_read (st\<lparr>cst_read_buffer := ?b\<rparr>) diag (su_impl f) = Some r"
        using "1.prems"(1) Startup_read by (simp add: outcome_of_bytes_def)
      ultimately show ?thesis
        using Some more Startup_read "1.prems"(2) bs
        by (subst startup_loop.simps) (auto simp: rb_ready_def startup_hands_def Let_def)
    qed
  qed
qed


text \<open>The result of a call of the startup machine as \<^verbatim>\<open>connect_fsm\<close> passes it on.\<close>

definition pass_on :: "connect_fsm \<Rightarrow> (io_result \<times> connection_state \<times> bytes \<times> startup_fsm) option \<Rightarrow> connect_io" where
  "pass_on f x =
     (case x of
        None \<Rightarrow> None
      | Some (res, st1, diag, su) \<Rightarrow>
          (let st' = st1\<lparr>cst_shared_diag := diag\<rparr>; f' = f\<lparr>cf_startup := su\<rparr>
           in case res of
                Io_read room \<Rightarrow> Some (Conn_read room, st', f'\<lparr>cf_resume_point := 3\<rparr>)
              | Io_write data \<Rightarrow> Some (Conn_write data, st', f'\<lparr>cf_resume_point := 3\<rparr>)
              | Io_done None \<Rightarrow> Some (Conn_done None, st', f')
              | Io_done (Some e) \<Rightarrow> Some (Conn_close, st', f'\<lparr>cf_stored_ec := Some e, cf_resume_point := 4\<rparr>)))"

lemma connect_startup_pass_on:
  "connect_startup cr alloc st ec n f =
     pass_on f (startup_resume cr alloc st (cst_shared_diag st) ec n (cf_startup f))"
  by (simp add: connect_startup_def pass_on_def)

lemma connect_feed_done:
  assumes "outcome_of_bytes cr (buffered st @ bs) res st diag (su_impl su) = Some r" and "rb_ready alloc st"
    and "res = Startup_write \<longrightarrow> write_point (su_impl su)"
    and "length bs + writes_left (su_impl su) < length ks"
  shows "\<exists>st' f'. connect_feed cr alloc ks bs (pass_on f (startup_loop cr alloc res st diag su)) =
      Some (Conn_done (fst r), st', f') \<and>
    snd r = (cst_backend_process_id st', cst_backend_secret_key st', cst_shared_diag st')"
  using assms
proof (induction ks arbitrary: bs res st diag su f)
  case (Cons k ks)
  from startup_loop_hands [OF Cons.prems(1-3)] obtain io st1 diag1 su1 where
    l: "startup_loop cr alloc res st diag su = Some (io, st1, diag1, su1)" "rb_ready alloc st1"
      "writes_left (su_impl su1) \<le> writes_left (su_impl su)" "startup_hands cr bs r io st1 diag1 su1" by blast
  let ?st = "st1\<lparr>cst_shared_diag := diag1\<rparr>" and ?f = "f\<lparr>cf_startup := su1, cf_resume_point := 3\<rparr>"
  have ready: "rb_ready alloc ?st" using l(2) by (simp add: rb_ready_def)
  show ?case
  proof (cases io)
    case (Io_done ec)
    then show ?thesis using l(1,4)
      by (cases ec) (auto simp: startup_hands_def pass_on_def connect_resume_def Let_def)
  next
    case (Io_write data)
    then have h: "su_resume_point su1 = 1" "write_point (su_impl su1)"
      "outcome_of_bytes cr (buffered ?st @ bs) Startup_write ?st diag1 (su_impl su1) = Some r"
      using l(4) by (simp_all add: startup_hands_def outcome_of_bytes_def del: startup_outcome_of.simps)
    from resume_write_point [OF h(2), of cr ?st diag1] obtain impl where
      i: "startup_fsm_impl_resume cr ?st diag1 No_message (su_impl su1) = Some (Startup_read, ?st, diag1, impl)"
        "writes_left impl < writes_left (su_impl su1)" by blast
    have "connect_resume cr alloc ?st None 0 ?f =
        pass_on ?f (startup_loop cr alloc Startup_read ?st diag1 (su1\<lparr>su_impl := impl\<rparr>))"
      using h(1) i(1) by (simp add: connect_resume_def connect_startup_pass_on startup_resume_def)
    moreover have "outcome_of_bytes cr (buffered ?st @ bs) Startup_read ?st diag1 impl = Some r"
      using h(3) outcome_of_bytes_write [OF i(1)] by simp
    ultimately show ?thesis
      using Cons.IH [of ?st bs Startup_read diag1 "su1\<lparr>su_impl := impl\<rparr>" ?f] ready l(1,3) Io_write i(2) Cons.prems(4)
      by (simp add: pass_on_def Let_def)
  next
    case (Io_read room)
    then have h: "su_resume_point su1 = 2" "0 < room" "room = prepared_area_size (cst_read_buffer st1)" "bs \<noteq> []"
      "outcome_of_bytes cr (buffered st1 @ bs) Startup_read st1 diag1 (su_impl su1) = Some r"
      using l(4) by (simp_all add: startup_hands_def)
    obtain b bs' where bs: "bs = b # bs'" using h(4) by (cases bs) auto
    let ?chunk = "take (min room (max 1 k)) bs"
    let ?st1 = "receive_bytes ?chunk ?st"
    let ?st2 = "?st1\<lparr>cst_read_buffer := rb_commit (length ?chunk) (cst_read_buffer ?st1)\<rparr>"
    have fits: "length ?chunk \<le> prepared_area_size (cst_read_buffer ?st)" using h(3) by simp
    note rc = receive_commit [OF ready fits]
    have "connect_resume cr alloc ?st1 None (length ?chunk) ?f =
        pass_on ?f (startup_loop cr alloc Startup_read ?st2 diag1 su1)"
      using h(1) by (simp add: connect_resume_def connect_startup_pass_on startup_resume_def receive_bytes_def)
    moreover have "outcome_of_bytes cr (buffered ?st2 @ drop (length ?chunk) bs) Startup_read ?st2 diag1 (su_impl su1) = Some r"
      using h(5) rc(2) take_chunk [of "min room (max 1 k)" bs]
      by (simp add: outcome_of_bytes_def receive_bytes_def)
    moreover have "length (drop (length ?chunk) bs) + writes_left (su_impl su1) < length ks"
      using Cons.prems(4) l(3) h(2) bs by simp
    moreover have "pass_on f (startup_loop cr alloc res st diag su) = Some (Conn_read room, ?st, ?f)"
      using l(1) Io_read by (simp add: pass_on_def)
    moreover have "connect_feed cr alloc (k # ks) bs (Some (Conn_read room, ?st, ?f)) =
        connect_feed cr alloc ks (drop (length ?chunk) bs) (connect_resume cr alloc ?st1 None (length ?chunk) ?f)"
      unfolding bs by (simp only: connect_feed.simps Let_def)
    ultimately show ?thesis
      using Cons.IH [of ?st2 "drop (length ?chunk) bs" Startup_read diag1 su1 ?f] rc(1) by (simp only: simp_thms startup_result.simps)
  qed
qed simp


lemma connect_delivers:
  assumes "serialize_startup_message (make_startup_message params) [] = (None, buf)"
    and "outcome_of_bytes cr (buffered st @ bs) Startup_read (st\<lparr>cst_write_buffer := buf\<rparr>) (cst_shared_diag st)
      ((startup_fsm_impl_init params)\<lparr>sfi_resume_point := 2\<rparr>) = Some r"
    and "rb_ready alloc st" and "length bs + 5 \<le> length ks"
  shows "\<exists>st' f'. connect_feed cr alloc ks bs (connect_resume cr alloc st ec n (connect_fsm_init params)) =
      Some (Conn_done (fst r), st', f') \<and>
    snd r = (cst_backend_process_id st', cst_backend_secret_key st', cst_shared_diag st')"
proof -
  let ?st = "st\<lparr>cst_write_buffer := buf\<rparr>"
  let ?i = "startup_fsm_impl_init params"
  let ?f = "(connect_fsm_init params)\<lparr>cf_resume_point := 1\<rparr>"
  let ?su = "\<lparr>su_resume_point = 0, su_impl = ?i\<lparr>sfi_resume_point := 1\<rparr>\<rparr>"
  obtain k ks' where ks: "ks = k # ks'" using assms(4) by (cases ks) auto
  have start: "connect_resume cr alloc st ec n (connect_fsm_init params) = Some (Conn_connect, st, ?f)"
    by (simp add: connect_resume_def connect_fsm_init_def)
  have first: "connect_resume cr alloc st None 0 ?f =
      pass_on ?f (startup_loop cr alloc Startup_write ?st (cst_shared_diag st) ?su)"
    using assms(1)
    by (simp add: connect_resume_def connect_fsm_init_def connect_startup_pass_on startup_resume_def
        startup_fsm_init_def startup_fsm_impl_resume_def startup_initial_def startup_fsm_impl_init_def)
  have "outcome_of_bytes cr (buffered ?st @ bs) Startup_write ?st (cst_shared_diag st) (su_impl ?su) = Some r"
    using assms(2) by (simp add: outcome_of_bytes_def startup_fsm_impl_resume_def)
  moreover have "rb_ready alloc ?st" using assms(3) by (simp add: rb_ready_def)
  ultimately obtain st' f' where "connect_feed cr alloc ks' bs
      (pass_on ?f (startup_loop cr alloc Startup_write ?st (cst_shared_diag st) ?su)) = Some (Conn_done (fst r), st', f')"
      "snd r = (cst_backend_process_id st', cst_backend_secret_key st', cst_shared_diag st')"
    using connect_feed_done [of cr ?st bs Startup_write "cst_shared_diag st" ?su r alloc ks' ?f]
      assms(4) ks by (auto simp: write_point_def writes_left_def)
  then show ?thesis using start first ks by simp
qed

lemma connect_established:
  assumes "serialize_startup_message (make_startup_message params) [] = (None, buf)"
    and "drain parse_message (buffered st @ bs) = (auth @ ms, rest, e)"
    and "\<forall>m \<in> set (auth @ ms). \<not> null_error m"
    and "authenticates cr (st\<lparr>cst_write_buffer := buf\<rparr>) (startup_fsm_impl_init params) auth"
    and "session_established ms (startup_keys st) (pid, key)"
    and "rb_ready alloc st" and "length bs + 5 \<le> length ks"
  shows "\<exists>st' f'. connect_feed cr alloc ks bs (connect_resume cr alloc st ec n (connect_fsm_init params)) =
    Some (Conn_done None, st', f') \<and> startup_keys st' = (pid, key)"
proof -
  let ?st = "st\<lparr>cst_write_buffer := buf\<rparr>"
  let ?i = "(startup_fsm_impl_init params)\<lparr>sfi_resume_point := 2\<rparr>"
  have same: "authenticates cr ?st ?i auth" using assms(4) by (simp add: authenticates_def)
  have "startup_outcome_of cr (auth @ ms) Startup_read ?st (cst_shared_diag st) ?i =
      Some (None, pid, key, cst_shared_diag st)"
    using assms(3,5) same by (subst startup_outcome_iff) (simp_all, blast)
  then have "outcome_of_bytes cr (buffered st @ bs) Startup_read ?st (cst_shared_diag st) ?i =
      Some (None, pid, key, cst_shared_diag st)"
    using assms(2) by (simp add: outcome_of_bytes_def)
  from connect_delivers [OF assms(1) this assms(6,7), of ec n] show ?thesis by auto
qed

text \<open>
  C4. A connection is established: when the transport connects and the server answers with the bytes of an
  authentication, by SCRAM or without a password, and of a session that becomes ready, in reads of any
  sizes, \<^verbatim>\<open>connect_fsm\<close> ends without an error and the connection has the keys the server sent last.
\<close>

theorem connect_completes:
  assumes "serialize_startup_message (make_startup_message params) [] = (None, buf)"
    and "drain parse_message (buffered st @ bs) = (auth @ ms, rest, e)"
    and "\<forall>m \<in> set (auth @ ms). \<not> null_error m"
    and "authenticates cr (st\<lparr>cst_write_buffer := buf\<rparr>) (startup_fsm_impl_init params) auth"
    and "session_established ms (startup_keys st) (pid, key)"
    and "rb_ready alloc st" and "length bs + 5 \<le> length ks"
  shows "\<exists>st' f'. connect_feed cr alloc ks bs (connect_resume cr alloc st ec n (connect_fsm_init params)) =
    Some (Conn_done None, st', f') \<and> startup_keys st' = (pid, key)"
  using assms by (rule connect_established)

theorem connect_completes_witness:
  "\<exists>st' f'. connect_feed sample_crypto (\<lambda>n. replicate n 0) (replicate 40 3) sample_session
     (connect_resume sample_crypto (\<lambda>n. replicate n 0) empty_state None 0 (connect_fsm_init sample_params)) =
     Some (Conn_done None, st', f') \<and> startup_keys st' = (7, 9)"
proof -
  obtain buf where buf: "serialize_startup_message (make_startup_message sample_params) [] = (None, buf)"
    using sample_startup_message by blast
  show ?thesis
    by (rule connect_completes [where auth = "[Authentication_ok]" and rest = "[]" and e = None,
          OF buf _ _ _ sample_session_established empty_state_ready(1)])
      (simp_all add: empty_state_ready(2) sample_session_drain sample_session_length sample_no_null_error authenticates_def)
qed

section \<open>Logging in with a password\<close>

text \<open>The messages of a server that knows the password, as RFC 5802 prescribes them.\<close>

definition rfc_login ::
    "(bytes \<Rightarrow> bytes \<Rightarrow> bytes) \<Rightarrow> bytes \<Rightarrow> bytes \<Rightarrow> bytes \<Rightarrow> bytes \<Rightarrow> nat \<Rightarrow> forward_parsing_view \<Rightarrow> any_backend_message list" where
  "rfc_login hmac pw nonce server_nonce salt i v =
     (let server_first = rfc_server_first (nonce @ server_nonce) salt i;
          am = rfc_auth_message nonce server_first (nonce @ server_nonce)
      in [Authentication_sasl v, Authentication_sasl_continue server_first,
          Authentication_sasl_final (of_str ''v='' @ encode (hmac (rfc_server_key hmac pw salt i) am)),
          Authentication_ok])"

lemma rfc_login_authenticates:
  assumes "crypto_works cr hmac H" and "cr_rand_bytes cr 18 = Inr raw" and "length raw = 18"
    and "supports_scram_sha256 v = Some True"
    and "list_all scram_is_printable server_nonce" and "length server_nonce + 200 \<le> int32_max"
    and "1 \<le> i" and "i \<le> 0xffff"
  shows "authenticates cr st f (rfc_login hmac (cp_password (sfi_params f)) (encode raw) server_nonce salt i v)"
proof -
  let ?nonce = "encode raw"
  have nonce: "generate_nonce cr = Inr ?nonce" using assms(2) by (simp add: generate_nonce_def base64_encode_def)
  have len: "length ?nonce = 24" using assms(3) by (simp add: length_encode encoded_size_def)
  then have ne: "?nonce @ server_nonce \<noteq> []" by auto
  have "list_all scram_is_printable (?nonce @ server_nonce)" using assms(5) encode_printable by simp
  from scram_exchange [OF assms(1) this ne _ assms(7,8) refl refl, of "sfi_scram_fsm f" "cst_write_buffer st"
      salt "cp_password (sfi_params f)"] len assms(6)
  obtain f1 f2 client_proof where x:
    "on_init (Inr ?nonce) (sfi_scram_fsm f) (cst_write_buffer st) =
      (None, f1, frame (of_char CHR ''p'') (client_first_body ?nonce))"
    "on_server_first cr (rfc_server_first (?nonce @ server_nonce) salt i) (cp_password (sfi_params f)) f1
       (frame (of_char CHR ''p'') (client_first_body ?nonce)) =
      Some (None, f2, frame (of_char CHR ''p'') (client_final_body (?nonce @ server_nonce) client_proof))"
    and final: "\<forall>sig. on_server_final (of_str ''v='' @ encode sig) f2 =
      Some (if sig = hmac (rfc_server_key hmac (cp_password (sfi_params f)) salt i)
              (rfc_auth_message ?nonce (rfc_server_first (?nonce @ server_nonce) salt i) (?nonce @ server_nonce)) then None
            else Some (Client scram_invalid_server_signature))" by auto
  show ?thesis
    unfolding authenticates_def rfc_login_def Let_def nonce
    by (intro disjI2 exI conjI) (rule refl, rule assms(4), rule x(1), rule x(2), simp add: final)
qed


text \<open>A server that asks for SCRAM and the bytes it sends.\<close>

definition sample_mechanisms :: forward_parsing_view where
  "sample_mechanisms = \<lparr>fpv_size = 1, fpv_data = of_str ''SCRAM-SHA-256'' @ [0]\<rparr>"

lemma sample_mechanisms_supported: "supports_scram_sha256 sample_mechanisms = Some True"
  by (simp add: supports_scram_sha256_def fpv_items.simps sample_mechanisms_def scram_sha256_name_def of_str_def
      string_view_dereference_def string_view_advance_def unchecked_get_string_def)

lemma parse_auth_messages:
  "parse_any_message 0x52 ([0, 0, 0, 10] @ of_str ''SCRAM-SHA-256'' @ [0, 0]) = Inr (Authentication_sasl sample_mechanisms)"
  "parse_any_message 0x52 ([0, 0, 0, 11] @ d) = Inr (Authentication_sasl_continue d)"
  "parse_any_message 0x52 ([0, 0, 0, 12] @ d) = Inr (Authentication_sasl_final d)"
proof -
  show "parse_any_message 0x52 ([0, 0, 0, 10] @ of_str ''SCRAM-SHA-256'' @ [0, 0]) = Inr (Authentication_sasl sample_mechanisms)"
    by code_simp
  have r: "backend_message_type_of 0x52 = Some T_authentication_request" by code_simp
  show "parse_any_message 0x52 ([0, 0, 0, 11] @ d) = Inr (Authentication_sasl_continue d)"
    "parse_any_message 0x52 ([0, 0, 0, 12] @ d) = Inr (Authentication_sasl_final d)"
    by (simp_all add: parse_any_message_def r parse_authentication_request_def load_big_s32_def)
qed

definition sample_login_bytes :: "bytes \<Rightarrow> bytes \<Rightarrow> bytes" where
  "sample_login_bytes server_first server_final =
     frame 0x52 ([0, 0, 0, 10] @ of_str ''SCRAM-SHA-256'' @ [0, 0]) @
     frame 0x52 ([0, 0, 0, 11] @ server_first) @ frame 0x52 ([0, 0, 0, 12] @ server_final) @ sample_session"

lemma sample_login_drain:
  assumes "length server_first \<le> 1000" and "length server_final \<le> 1000"
  shows "drain parse_message (sample_login_bytes server_first server_final) =
    ([Authentication_sasl sample_mechanisms, Authentication_sasl_continue server_first,
      Authentication_sasl_final server_final, Authentication_ok] @
     [Backend_key_data sample_key, Ready_for_query status_idle], [], None)"
  unfolding sample_login_bytes_def
  by (subst drain_frame [OF _ parse_auth_messages(1)], simp add: int32_max_def)
    (subst drain_frame [OF _ parse_auth_messages(2)], use assms in \<open>simp add: int32_max_def\<close>,
     subst drain_frame [OF _ parse_auth_messages(3)], use assms in \<open>simp add: int32_max_def\<close>,
     simp add: sample_session_drain)


section \<open>Failures\<close>

text \<open>
  The results of a run of \<^verbatim>\<open>connect_fsm\<close>, whatever error codes and bytes its caller passes. A run is
  regular when it connects first, reads and writes next, and ends either with success or with a close
  followed by an error.
\<close>

fun connect_trace ::
    "crypto \<Rightarrow> (nat \<Rightarrow> bytes) \<Rightarrow> (error_code option \<times> bytes) list \<Rightarrow> connection_state \<Rightarrow> connect_fsm \<Rightarrow>
     connect_result list" where
  "connect_trace cr alloc [] st f = []"
| "connect_trace cr alloc ((ec, bs) # inputs) st f =
     (case connect_resume cr alloc (receive_bytes bs st) ec (length bs) f of
        None \<Rightarrow> []
      | Some (Conn_done e, st', f') \<Rightarrow> [Conn_done e]
      | Some (res, st', f') \<Rightarrow> res # connect_trace cr alloc inputs st' f')"

fun connect_body :: "connect_result list \<Rightarrow> bool" where
  "connect_body [] = True"
| "connect_body (Conn_read room # tr) = connect_body tr"
| "connect_body (Conn_write data # tr) = connect_body tr"
| "connect_body [Conn_done ec] = (ec = None)"
| "connect_body [Conn_close] = True"
| "connect_body [Conn_close, Conn_done ec] = (ec \<noteq> None)"
| "connect_body _ = False"

lemma connect_trace_closed:
  assumes "cf_resume_point f = 2 \<or> cf_resume_point f = 4"
  shows "connect_trace cr alloc inputs st f = (if inputs = [] then [] else [Conn_done (cf_stored_ec f)])"
proof (cases inputs)
  case (Cons x inputs')
  then show ?thesis using assms by (cases x) (auto simp: connect_resume_def Let_def)
qed simp

lemma connect_startup_cases:
  assumes "connect_startup cr alloc st ec n f = Some (res, st', f')"
  obtains room where "res = Conn_read room" "cf_resume_point f' = 3"
    | data where "res = Conn_write data" "cf_resume_point f' = 3"
    | "res = Conn_done None"
    | e where "res = Conn_close" "cf_resume_point f' = 4" "cf_stored_ec f' = Some e"
  using assms by (auto simp: connect_startup_def Let_def split: option.splits prod.splits io_result.splits)

lemma connect_trace_startup:
  assumes "\<And>st f. cf_resume_point f = 3 \<Longrightarrow> connect_body (connect_trace cr alloc inputs st f)"
    and "connect_resume cr alloc (receive_bytes bs st) ec (length bs) f =
      connect_startup cr alloc (receive_bytes bs st) ec (length bs) f"
  shows "connect_body (connect_trace cr alloc ((ec, bs) # inputs) st f)"
proof (cases "connect_startup cr alloc (receive_bytes bs st) ec (length bs) f")
  case (Some x)
  then obtain res st' f' where x: "connect_startup cr alloc (receive_bytes bs st) ec (length bs) f = Some (res, st', f')"
    by (cases x) auto
  then show ?thesis
    by (cases rule: connect_startup_cases) (use assms x in \<open>simp_all add: connect_trace_closed\<close>)
qed (simp add: assms(2))

lemma connect_trace_running:
  "cf_resume_point f = 3 \<Longrightarrow> connect_body (connect_trace cr alloc inputs st f)"
proof (induction inputs arbitrary: st f)
  case (Cons x inputs)
  obtain ec bs where x: "x = (ec, bs)" by (cases x)
  show ?case unfolding x
    by (rule connect_trace_startup [OF Cons.IH]) (use Cons.prems in \<open>simp_all add: connect_resume_def\<close>)
qed simp


text \<open>
  An error whose SQLSTATE is 00000 ends a startup with success: in the middle of an authentication, so
  that neither side has proved anything, or after it, before the server is ready.
\<close>

theorem startup_null_error_succeeds:
  assumes "null_error m" and "sfi_resume_point f \<in> {4, 6, 8}"
  shows "\<exists>diag'. startup_fsm_impl_resume cr st diag m f = Some (Startup_done None, st, diag', f)"
  using assms
  by (auto simp: null_error_def process_error_def startup_fsm_impl_resume_def startup_sasl_continue_def
      startup_sasl_final_def startup_wait_ready_def Let_def)


theorem startup_null_error_succeeds_witness:
  "\<exists>diag'. startup_fsm_impl_resume sample_crypto empty_state []
     (Error_response (no_error_fields\<lparr>enf_sqlstate := Some (of_str ''00000'')\<rparr>))
     ((startup_fsm_impl_init sample_params)\<lparr>sfi_resume_point := 4\<rparr>) =
   Some (Startup_done None, empty_state, diag', (startup_fsm_impl_init sample_params)\<lparr>sfi_resume_point := 4\<rparr>)"
proof (rule startup_null_error_succeeds)
  have "fst (process_error (no_error_fields\<lparr>enf_sqlstate := Some (of_str ''00000'')\<rparr>)) = None" by code_simp
  then show "null_error (Error_response (no_error_fields\<lparr>enf_sqlstate := Some (of_str ''00000'')\<rparr>))"
    by (simp add: null_error_def)
qed simp


section \<open>Connecting again\<close>

text \<open>Messages that are neither about authentication nor errors, and mean nothing to a startup at its beginning.\<close>

definition out_of_place :: "any_backend_message \<Rightarrow> bool" where
  "out_of_place m \<longleftrightarrow> (case m of
     Authentication_ok \<Rightarrow> False | Authentication_kerberos_v5 \<Rightarrow> False | Authentication_cleartext_password \<Rightarrow> False
   | Authentication_md5_password salt \<Rightarrow> False | Authentication_gss \<Rightarrow> False | Authentication_sspi \<Rightarrow> False
   | Authentication_sasl v \<Rightarrow> False | Error_response e \<Rightarrow> False | _ \<Rightarrow> True)"

lemma auth_request_out_of_place:
  assumes "out_of_place m"
  shows "startup_auth_request cr m st diag f = Some (Startup_done (Some (Client unexpected_message)), st, diag, f)"
  using assms
  by (cases m) (simp_all add: out_of_place_def startup_auth_request_def check_unknown_auth_methods_def
      startup_auth_response_def handle_auth_response_def)

text \<open>
  Connecting does not reset the read buffer: when a message of an earlier session is still in it, such as
  a row that was not consumed before the connection broke, a new connection fails with
  \<^verbatim>\<open>unexpected_message\<close> whatever the server sends, because the old message is taken for the answer to
  the startup message.
\<close>

theorem connect_reads_stale_bytes:
  assumes "serialize_startup_message (make_startup_message params) [] = (None, buf)"
    and "pmr_ec (parse_message (buffered st)) = None" and "out_of_place (pmr_message (parse_message (buffered st)))"
    and "rb_ready alloc st" and "length bs + 5 \<le> length ks"
  shows "\<exists>st' f'. connect_feed cr alloc ks bs (connect_resume cr alloc st ec n (connect_fsm_init params)) =
    Some (Conn_done (Some (Client unexpected_message)), st', f')"
proof -
  let ?r = "(Some (Client unexpected_message), cst_backend_process_id st, cst_backend_secret_key st, cst_shared_diag st)"
  have p: "parse_message (buffered st @ bs) = parse_message (buffered st)"
    using assms(2) by (intro parse_message_stable) simp
  have "outcome_of_bytes cr (buffered st @ bs) Startup_read (st\<lparr>cst_write_buffer := buf\<rparr>) (cst_shared_diag st)
      ((startup_fsm_impl_init params)\<lparr>sfi_resume_point := 2\<rparr>) = Some ?r"
    using assms(2) auth_request_out_of_place [OF assms(3)]
    by (subst outcome_of_bytes_read) (simp add: p startup_fsm_impl_resume_def outcome_of_bytes_def)
  from connect_delivers [OF assms(1) this assms(4,5), of ec n] show ?thesis by auto
qed


text \<open>A ReadyForQuery left in the buffer.\<close>

definition stale_bytes :: bytes where
  "stale_bytes = [0x5a, 0, 0, 0, 5, 0x49]"

definition stale_state :: connection_state where
  "stale_state = empty_state\<lparr>cst_read_buffer :=
     rb_commit (length stale_bytes) (fill_prepared stale_bytes
       (prepare (\<lambda>n. replicate n 0) 6 (read_buffer_init (\<lambda>n. replicate n 0) 4)))\<rparr>"

lemma stale_state_ready: "rb_ready (\<lambda>n. replicate n 0) stale_state" "buffered stale_state = stale_bytes"
proof -
  let ?a = "\<lambda>n. replicate n 0"
  let ?b = "read_buffer_init ?a 4"
  have i: "rb_inv ?b" "committed_area ?b = []" using init_inv [of ?a 4] by simp_all
  have p: "rb_inv (prepare ?a 6 ?b)" "committed_area (prepare ?a 6 ?b) = []" "6 \<le> prepared_area_size (prepare ?a 6 ?b)"
    using prepare_inv [of ?a ?b 6] i by (simp_all add: size_max_def)
  have len: "length stale_bytes = 6" by (simp add: stale_bytes_def)
  show "rb_ready ?a stale_state" "buffered stale_state = stale_bytes"
    using fill_commit_inv [OF p(1), of stale_bytes] p(2,3) len by (simp_all add: rb_ready_def stale_state_def)
qed

theorem connect_reads_stale_bytes_witness:
  "\<exists>st' f'. connect_feed sample_crypto (\<lambda>n. replicate n 0) (replicate 40 3) sample_session
     (connect_resume sample_crypto (\<lambda>n. replicate n 0) stale_state None 0 (connect_fsm_init sample_params)) =
     Some (Conn_done (Some (Client unexpected_message)), st', f')"
proof -
  obtain buf where buf: "serialize_startup_message (make_startup_message sample_params) [] = (None, buf)"
    using sample_startup_message by blast
  have p: "parse_message stale_bytes =
      \<lparr>pmr_ec = None, pmr_message = Ready_for_query status_idle, pmr_size = 6\<rparr>" by code_simp
  show ?thesis
    by (rule connect_reads_stale_bytes [OF buf _ _ stale_state_ready(1)])
      (simp_all add: stale_state_ready(2) p out_of_place_def sample_session_length)
qed

end
