(* ===== verification/Pg_Exec_Some.thy ===== *)
theory Pg_Exec_Some
  imports Pg_Exec
begin

text \<open>
  Executing a request piece by piece, for COPY: the state machine of \<^verbatim>\<open>exec_some_fsm.hpp\<close> and the
  coroutines of \<^verbatim>\<open>co_connection.cpp\<close> that drive it. The data of a COPY are not copied: the user is given
  buffers that point into the read buffer, so a buffer is a position in its memory and a size. The machine
  is a coroutine, its state is the point it resumes at. A step returns \<open>None\<close> where the code would violate
  an assertion or would not come to an end.
\<close>

section \<open>The machine\<close>

type_synonym const_buffer = "nat \<times> nat"

datatype some_result =
    Some_write
  | Some_read
  | Some_copy_out copy_response
  | Some_copy_data
  | Some_copy_data_with_eof
  | Some_done "error_code option"

record 's exec_some_fsm =
  es_resume_point :: nat
  es_consumed :: nat
  es_request :: request
  es_fsm :: "'s checked read_response_fsm"

type_synonym 's some_step = "(some_result \<times> connection_state \<times> const_buffer list \<times> 's exec_some_fsm) option"

definition exec_some_fsm_init :: "request \<Rightarrow> 's \<Rightarrow> 's exec_some_fsm" where
  "exec_some_fsm_init req s =
     \<lparr>es_resume_point = 0, es_consumed = 0, es_request = req, es_fsm = read_response_fsm_init req (Inr s) True\<rparr>"

text \<open>The outer loop up to its request for a batch of messages.\<close>

definition some_next_batch :: "connection_state \<Rightarrow> const_buffer list \<Rightarrow> 's exec_some_fsm \<Rightarrow> 's some_step" where
  "some_next_batch st copy_buffs f =
     Some (Some_read, cst_consume (es_consumed f) st, copy_buffs, f\<lparr>es_consumed := 0, es_resume_point := 2\<rparr>)"

lemma unread_shorter:
  assumes "pmr_ec (parse_message (drop n bs)) = None"
  shows "length bs - (n + pmr_size (parse_message (drop n bs))) < length bs - n"
  using msg.complete_size [OF assms] by (simp; linarith)

text \<open>
  The inner loop. The bytes of a CopyData message start after its type and its length, five bytes into the
  message.
\<close>

function some_loop ::
    "'s handler_ops \<Rightarrow> connection_state \<Rightarrow> const_buffer list \<Rightarrow> 's exec_some_fsm \<Rightarrow> 's some_step" where
  "some_loop ops st copy_buffs f =
     (let res = parse_message (drop (es_consumed f) (buffered st))
      in case pmr_ec res of
           Some ec \<Rightarrow>
             if ec = Client needs_more
             then (if copy_buffs \<noteq> [] then Some (Some_copy_data, st, copy_buffs, f\<lparr>es_resume_point := 3\<rparr>)
                   else some_next_batch st copy_buffs f)
             else Some (Some_done (Some ec), st, copy_buffs, f)
         | None \<Rightarrow>
             (let data_pos = rb_committed_offset (cst_read_buffer st) + es_consumed f + 5;
                  f1 = f\<lparr>es_consumed := es_consumed f + pmr_size res\<rparr>
              in case rr_resume (guarded ops) (pmr_message res) (es_fsm f) of
                   None \<Rightarrow> None
                 | Some (Fsm_done ec, rf) \<Rightarrow>
                     Some (Some_done ec, cst_consume (es_consumed f1) st, copy_buffs, f1\<lparr>es_fsm := rf\<rparr>)
                 | Some (Fsm_read, rf) \<Rightarrow>
                     (let f2 = f1\<lparr>es_fsm := rf\<rparr>
                      in case pmr_message res of
                           Copy_out_response r \<Rightarrow> Some (Some_copy_out r, st, copy_buffs, f2\<lparr>es_resume_point := 4\<rparr>)
                         | Copy_data data \<Rightarrow> some_loop ops st (copy_buffs @ [(data_pos, length data)]) f2
                         | Copy_done \<Rightarrow> Some (Some_copy_data_with_eof, st, copy_buffs, f2\<lparr>es_resume_point := 5\<rparr>)
                         | Error_response e \<Rightarrow> Some (Some_copy_data_with_eof, st, copy_buffs, f2\<lparr>es_resume_point := 6\<rparr>)
                         | _ \<Rightarrow> some_loop ops st copy_buffs f2)))"
  by pat_completeness auto
termination
  by (relation "measure (\<lambda>(ops, st, copy_buffs, f). length (buffered st) - es_consumed f)")
    (simp_all add: unread_shorter)

declare some_loop.simps [simp del]

definition some_resume ::
    "'s handler_ops \<Rightarrow> connection_state \<Rightarrow> const_buffer list \<Rightarrow> 's exec_some_fsm \<Rightarrow> 's some_step" where
  "some_resume ops st copy_buffs f =
     (let n = es_resume_point f
      in if n = 0 then
           (case rr_handler (es_fsm f) of
              Inl fault \<Rightarrow> None
            | Inr s \<Rightarrow>
                (case setup_request ops (es_request f) s of
                   Inl fault \<Rightarrow> None
                 | Inr (ec_req, s') \<Rightarrow>
                     (let f' = f\<lparr>es_fsm := (es_fsm f)\<lparr>rr_handler := Inr s'\<rparr>\<rparr>
                      in case ec_req of
                           Some e \<Rightarrow> Some (Some_done (Some e), st, copy_buffs, f')
                         | None \<Rightarrow> Some (Some_write, st, [], f'\<lparr>es_resume_point := 1\<rparr>))))
         else if n = 1 then some_next_batch st copy_buffs f
         else if n = 2 \<or> n = 4 then some_loop ops st copy_buffs f
         else if n = 3 then some_next_batch st [] f
         else if n = 5 \<or> n = 6 then some_loop ops st [] f
         else None)"

section \<open>The coroutines\<close>

text \<open>
  A transport: the bytes the server sends, how many a read returns depending on how many are left, the
  error of a read after the last of them, and the error of writing, if it fails.
\<close>

record transport =
  tr_bytes :: bytes
  tr_sizes :: "nat \<Rightarrow> nat"
  tr_read_error :: error_code
  tr_write_error :: "error_code option"

definition read_chunk :: "nat \<Rightarrow> transport \<Rightarrow> bytes" where
  "read_chunk room tr = take (min room (max 1 (tr_sizes tr (length (tr_bytes tr))))) (tr_bytes tr)"

text \<open>\<^verbatim>\<open>read_some_messages\<close>. A read into an area without room returns nothing, and the loop would not end.\<close>

function read_some_messages ::
    "(nat \<Rightarrow> bytes) \<Rightarrow> transport \<Rightarrow> connection_state \<Rightarrow> (error_code option \<times> transport \<times> connection_state) option" where
  "read_some_messages alloc tr st =
     (let missing_bytes = message_missing_bytes (buffered st)
      in if missing_bytes = 0 then Some (None, tr, st)
         else
           (let b = prepare alloc missing_bytes (cst_read_buffer st);
                st1 = st\<lparr>cst_read_buffer := b\<rparr>;
                chunk = read_chunk (prepared_area_size b) tr
            in if tr_bytes tr = [] then Some (Some (tr_read_error tr), tr, st1)
               else if chunk = [] then None
               else read_some_messages alloc (tr\<lparr>tr_bytes := drop (length chunk) (tr_bytes tr)\<rparr>)
                      (st1\<lparr>cst_read_buffer := rb_commit (length chunk) (fill_prepared chunk b)\<rparr>)))"
  by pat_completeness auto
termination
  by (relation "measure (\<lambda>(alloc, tr, st). length (tr_bytes tr))") (auto simp: read_chunk_def Let_def)

declare read_some_messages.simps [simp del]

datatype exec_some_result =
    Esr_done
  | Esr_copy_out copy_response
  | Esr_copy_out_data "const_buffer list" bool

text \<open>
  The connection. The handler is an object of the user that the machine refers to: \<open>cc_handler\<close> is the state
  it was left in by the last request that came to its end.
\<close>

record 's co_connection =
  cc_st :: connection_state
  cc_copy_out_buffers :: "const_buffer list"
  cc_exec_some_fsm :: "'s exec_some_fsm option"
  cc_handler :: "'s checked option"

definition cc_setup_request :: "request \<Rightarrow> 's \<Rightarrow> 's co_connection \<Rightarrow> 's co_connection option" where
  "cc_setup_request req handler c =
     (if cc_exec_some_fsm c \<noteq> None then None
      else Some (c\<lparr>cc_exec_some_fsm := Some (exec_some_fsm_init req handler)\<rparr>))"

partial_function (option) exec_some ::
    "'s handler_ops \<Rightarrow> (nat \<Rightarrow> bytes) \<Rightarrow> transport \<Rightarrow> 's co_connection \<Rightarrow>
     (error_code option \<times> exec_some_result \<times> transport \<times> 's co_connection) option" where
  "exec_some ops alloc tr c =
     (case cc_exec_some_fsm c of
        None \<Rightarrow> None
      | Some fsm \<Rightarrow>
          (case some_resume ops (cc_st c) (cc_copy_out_buffers c) fsm of
             None \<Rightarrow> None
           | Some (act, st, copy_buffs, fsm') \<Rightarrow>
               (let c1 = c\<lparr>cc_st := st, cc_copy_out_buffers := copy_buffs, cc_exec_some_fsm := Some fsm'\<rparr>
                in case act of
                     Some_write \<Rightarrow>
                       (case tr_write_error tr of
                          Some ec \<Rightarrow> Some (Some ec, Esr_done, tr, c1)
                        | None \<Rightarrow> exec_some ops alloc tr c1)
                   | Some_read \<Rightarrow>
                       (case read_some_messages alloc tr st of
                          None \<Rightarrow> None
                        | Some (ec, tr', st') \<Rightarrow>
                            if ec \<noteq> None then Some (ec, Esr_done, tr', c1\<lparr>cc_st := st'\<rparr>)
                            else exec_some ops alloc tr' (c1\<lparr>cc_st := st'\<rparr>))
                   | Some_copy_out r \<Rightarrow> Some (None, Esr_copy_out r, tr, c1)
                   | Some_copy_data \<Rightarrow> Some (None, Esr_copy_out_data copy_buffs False, tr, c1)
                   | Some_copy_data_with_eof \<Rightarrow> Some (None, Esr_copy_out_data copy_buffs True, tr, c1)
                   | Some_done ec \<Rightarrow>
                       Some (ec, Esr_done, tr, c1\<lparr>cc_exec_some_fsm := None, cc_handler := Some (rr_handler (es_fsm fsm'))\<rparr>))))"

end
