(* ===== verification/Pg_Exec_Some_Facts.thy ===== *)
theory Pg_Exec_Some_Facts
  imports Pg_Exec_Some
begin

text \<open>
  What a user of \<^verbatim>\<open>exec_some\<close> receives: the announcement of every COPY, its data and its end, in the order
  the server sent them, whatever the sizes of the reads; the buffers the user is given hold these data when
  they are returned.
\<close>

section \<open>COPY in the response machine\<close>

definition copying :: "'h read_response_fsm \<Rightarrow> bool" where
  "copying f \<longleftrightarrow> rr_state f = exec_copy_out \<or> rr_state f = query_copy_out"

lemma skip_to_sync_reads: "skip_to_sync on_message f = Some (res, f') \<Longrightarrow> res = Fsm_read"
proof (induction on_message f rule: skip_to_sync.induct)
  case (1 on_message f)
  from "1.prems" show ?case
    by (subst (asm) skip_to_sync.simps) (auto split: if_splits request_message_type.splits dest: "1.IH")
qed

lemma handle_error_reads: "handle_error on_message err f = Some (res, f') \<Longrightarrow> res = Fsm_read"
  unfolding handle_error_def by (rule skip_to_sync_reads)

lemmas handler_defs = handle_bind_def handle_close_def handle_describe_def handle_parse_def handle_sync_def
  handle_execute_def handle_query_def handle_query_first_def

text \<open>Data are accepted inside a COPY only.\<close>

lemma resume_copy_data:
  assumes "resume_loop on_message (Copy_data d) f = Some (Fsm_read, f')"
  shows "copying f'"
  using assms
proof (induction on_message "Copy_data d" f rule: resume_loop.induct)
  case (1 on_message f)
  from "1.prems" show ?case
    by (subst (asm) resume_loop.simps)
      (auto simp: handler_defs copying_def split: if_splits request_message_type.splits state_t.splits dest: "1.hyps")
qed

text \<open>Inside a COPY nothing else than its end or an error follows the data, and the response does not end.\<close>

lemma resume_copying:
  assumes "resume_loop on_message m f = Some (res, f')" and "copying f"
  shows "case res of Fsm_done ec \<Rightarrow> ec \<noteq> None
    | Fsm_read \<Rightarrow> m = Copy_done \<or> (\<exists>e. m = Error_response e) \<or> ((\<exists>d. m = Copy_data d) \<and> copying f')"
  using assms
proof (induction on_message m f rule: resume_loop.induct)
  case (1 on_message m f)
  from "1.prems" show ?case
    by (subst (asm) resume_loop.simps)
      (auto simp: handler_defs copying_def dest!: handle_error_reads
        split: if_splits request_message_type.splits state_t.splits any_backend_message.splits dest: "1.IH")
qed

lemma rr_resume_copying:
  assumes "rr_resume on_message m f = Some (Fsm_read, f')"
  shows "(\<exists>d. m = Copy_data d) \<Longrightarrow> copying f'"
    and "copying f \<Longrightarrow> m = Copy_done \<or> (\<exists>e. m = Error_response e) \<or> copying f' \<and> (\<forall>r. m \<noteq> Copy_out_response r)"
  using assms resume_copy_data [of on_message _ f f'] resume_copying [of on_message m f Fsm_read f']
  by (auto simp: rr_resume_def is_async_message_def split: if_splits any_backend_message.splits)

lemma rr_resume_copying_done:
  "rr_resume on_message m f = Some (Fsm_done ec, f') \<Longrightarrow> copying f \<Longrightarrow> ec \<noteq> None"
  using resume_copying [of on_message m f "Fsm_done ec" f'] by (auto simp: rr_resume_def split: if_splits)

section \<open>What the bytes mean\<close>

datatype copy_item = Copy_begin copy_response | Copy_chunk bytes | Copy_end

definition copy_items :: "any_backend_message \<Rightarrow> copy_item list" where
  "copy_items m =
     (case m of
        Copy_out_response r \<Rightarrow> [Copy_begin r]
      | Copy_data d \<Rightarrow> [Copy_chunk d]
      | Copy_done \<Rightarrow> [Copy_end]
      | Error_response e \<Rightarrow> [Copy_end]
      | _ \<Rightarrow> [])"

lemma message_shorter:
  assumes "pmr_ec (parse_message bs) = None"
  shows "length bs - pmr_size (parse_message bs) < length bs" "bs \<noteq> []" "0 < pmr_size (parse_message bs)"
  using msg.complete_size [OF assms] by (simp_all, linarith, auto)

text \<open>
  The messages in a string of bytes: the items of the COPY operations they carry up to the end of the
  response, the result where they reach it, and the response machine.
\<close>

function some_spec ::
    "'s handler_ops \<Rightarrow> 's checked read_response_fsm \<Rightarrow> bytes \<Rightarrow>
     (copy_item list \<times> error_code option option \<times> 's checked read_response_fsm) option" where
  "some_spec ops rf bs =
     (let res = parse_message bs
      in case pmr_ec res of
           Some ec \<Rightarrow> Some ([], if ec = Client needs_more then None else Some (Some ec), rf)
         | None \<Rightarrow>
             (case rr_resume (guarded ops) (pmr_message res) rf of
                None \<Rightarrow> None
              | Some (Fsm_done ec, rf') \<Rightarrow> Some ([], Some ec, rf')
              | Some (Fsm_read, rf') \<Rightarrow>
                  (case some_spec ops rf' (drop (pmr_size res) bs) of
                     None \<Rightarrow> None
                   | Some (items, out, rf'') \<Rightarrow> Some (copy_items (pmr_message res) @ items, out, rf''))))"
  by pat_completeness auto
termination
  by (relation "measure (\<lambda>(ops, rf, bs). length bs)") (simp_all add: message_shorter)

declare some_spec.simps [simp del]

definition buffer_data :: "connection_state \<Rightarrow> const_buffer \<Rightarrow> bytes" where
  "buffer_data st b = take (snd b) (drop (fst b) (rb_buffer (cst_read_buffer st)))"

abbreviation unread :: "connection_state \<Rightarrow> 's exec_some_fsm \<Rightarrow> bytes" where
  "unread st f \<equiv> drop (es_consumed f) (buffered st)"

lemma impl_made: "parse_any_message_impl mk r = Inr m \<Longrightarrow> \<exists>x. m = mk x"
  by (auto simp: parse_any_message_impl_def split: prod.splits option.splits)

lemma copy_data_body: "parse_any_message t data = Inr (Copy_data d) \<Longrightarrow> data = d"
  by (auto simp: parse_any_message_def parse_authentication_request_def parse_empty_message_def Let_def
      split: option.splits backend_message_type.splits if_splits dest!: impl_made)

lemma parse_copy_data:
  assumes "pmr_ec (parse_message bs) = None" and "pmr_message (parse_message bs) = Copy_data d"
  shows "take (length d) (drop 5 bs) = d" and "5 + length d \<le> length bs"
proof -
  obtain h where h: "5 \<le> length bs" "parse_header (take 5 bs) = Inr h" "unat (mh_size h) + 1 \<le> length bs"
    using assms(1) by (cases bs rule: parse_message_cases)
      (auto simp: parse_message_short parse_message_bad_header parse_message_partial)
  have "parse_any_message (mh_type h) (take (unat (mh_size h) - 4) (drop 5 bs)) = Inr (Copy_data d)"
    using assms parse_message_whole [OF h] by (auto split: sum.splits)
  then have d: "take (unat (mh_size h) - 4) (drop 5 bs) = d" by (rule copy_data_body)
  moreover have "4 \<le> unat (mh_size h)" using header_size [OF h(2)] by simp
  ultimately have "length d = unat (mh_size h) - 4" using h(3) by auto
  with d h(3) \<open>4 \<le> unat (mh_size h)\<close> show "take (length d) (drop 5 bs) = d" "5 + length d \<le> length bs" by simp_all
qed

lemma take_within:
  assumes "take (length d) (take k xs) = d"
  shows "take (length d) xs = d"
proof -
  have "length (take (length d) (take k xs)) \<le> k" by simp
  then have "length d \<le> k" unfolding assms .
  then show ?thesis using assms by (simp add: min_absorb1)
qed

lemma buffer_data_unread:
  assumes "pmr_ec (parse_message (unread st f)) = None" and "pmr_message (parse_message (unread st f)) = Copy_data d"
  shows "buffer_data st (rb_committed_offset (cst_read_buffer st) + es_consumed f + 5, length d) = d"
proof -
  let ?b = "cst_read_buffer st"
  let ?c = "rb_committed_offset ?b" and ?k = "rb_prepared_offset ?b - rb_committed_offset ?b - es_consumed f - 5"
  have "drop 5 (unread st f) = take ?k (drop (?c + es_consumed f + 5) (rb_buffer ?b))"
    by (simp add: committed_area_def drop_take add.commute add.left_commute)
  with parse_copy_data [OF assms] have d: "take (length d) (take ?k (drop (?c + es_consumed f + 5) (rb_buffer ?b))) = d"
    by (simp del: take_take)
  then show ?thesis unfolding buffer_data_def by (simp only: take_within fst_conv snd_conv)
qed

section \<open>The inner loop\<close>

text \<open>The machine after it accepted the next message, and what the loop does with it.\<close>

definition accepted :: "connection_state \<Rightarrow> 's checked read_response_fsm \<Rightarrow> 's exec_some_fsm \<Rightarrow> 's exec_some_fsm" where
  "accepted st rf f = f\<lparr>es_consumed := es_consumed f + pmr_size (parse_message (unread st f)), es_fsm := rf\<rparr>"

lemma some_loop_message:
  assumes "pmr_ec (parse_message (unread st f)) = None"
    and "rr_resume (guarded ops) (pmr_message (parse_message (unread st f))) (es_fsm f) = Some (Fsm_read, rf)"
  shows "copy_items (pmr_message (parse_message (unread st f))) = [] \<Longrightarrow>
      some_loop ops st bufs f = some_loop ops st bufs (accepted st rf f)"
    and "pmr_message (parse_message (unread st f)) = Copy_data d \<Longrightarrow>
      some_loop ops st bufs f = some_loop ops st
        (bufs @ [(rb_committed_offset (cst_read_buffer st) + es_consumed f + 5, length d)]) (accepted st rf f)"
    and "pmr_message (parse_message (unread st f)) = Copy_out_response r \<Longrightarrow>
      some_loop ops st bufs f = Some (Some_copy_out r, st, bufs, (accepted st rf f)\<lparr>es_resume_point := 4\<rparr>)"
    and "copy_items (pmr_message (parse_message (unread st f))) = [Copy_end] \<Longrightarrow>
      \<exists>n. (n = 5 \<or> n = 6) \<and>
        some_loop ops st bufs f = Some (Some_copy_data_with_eof, st, bufs, (accepted st rf f)\<lparr>es_resume_point := n\<rparr>)"
  using assms
  by (subst some_loop.simps, force simp: copy_items_def accepted_def Let_def split: any_backend_message.splits)+

lemma some_loop_needs_more:
  assumes "pmr_ec (parse_message (unread st f)) = Some (Client needs_more)"
  shows "some_loop ops st bufs f =
    (if bufs \<noteq> [] then Some (Some_copy_data, st, bufs, f\<lparr>es_resume_point := 3\<rparr>) else some_next_batch st bufs f)"
  using assms by (subst some_loop.simps) simp

lemma some_loop_done:
  assumes "pmr_ec (parse_message (unread st f)) = None"
    and "rr_resume (guarded ops) (pmr_message (parse_message (unread st f))) (es_fsm f) = Some (Fsm_done ec, rf)"
  shows "some_loop ops st bufs f = Some (Some_done ec, cst_consume (es_consumed (accepted st rf f)) st, bufs, accepted st rf f)"
  using assms by (subst some_loop.simps) (simp add: accepted_def Let_def)

text \<open>\<open>continues\<close>: from here the unread bytes and those to come carry the items to the end of the response.\<close>

definition continues ::
    "'s handler_ops \<Rightarrow> (nat \<Rightarrow> bytes) \<Rightarrow> bytes \<Rightarrow> connection_state \<Rightarrow> 's exec_some_fsm \<Rightarrow> copy_item list \<Rightarrow>
     's checked read_response_fsm \<Rightarrow> bool" where
  "continues ops alloc rest st f items rf' \<longleftrightarrow> rb_ready alloc st \<and> es_consumed f \<le> length (buffered st) \<and>
     some_spec ops (es_fsm f) (unread st f @ rest) = Some (items, Some None, rf')"

lemma continues_cases:
  assumes "continues ops alloc rest st f items rf'"
  obtains (more) "pmr_ec (parse_message (unread st f)) = Some (Client needs_more)"
  | (last) "pmr_ec (parse_message (unread st f)) = None" "items = []"
      "rr_resume (guarded ops) (pmr_message (parse_message (unread st f))) (es_fsm f) = Some (Fsm_done None, rf')"
  | (message) rf items' where "pmr_ec (parse_message (unread st f)) = None"
      "rr_resume (guarded ops) (pmr_message (parse_message (unread st f))) (es_fsm f) = Some (Fsm_read, rf)"
      "continues ops alloc rest st (accepted st rf f) items' rf'"
      "items = copy_items (pmr_message (parse_message (unread st f))) @ items'"
      "length (unread st (accepted st rf f)) < length (unread st f)"
proof (cases "pmr_ec (parse_message (unread st f)) = Some (Client needs_more)")
  case False
  let ?r = "parse_message (unread st f)"
  have stable: "parse_message (unread st f @ rest) = ?r" using parse_message_stable [OF False] .
  have spec: "some_spec ops (es_fsm f) (unread st f @ rest) = Some (items, Some None, rf')"
    using assms by (simp add: continues_def)
  then have none: "pmr_ec ?r = None"
    using False stable by (subst (asm) some_spec.simps) (auto simp: Let_def split: option.splits if_splits)
  note size = msg.complete_size [OF none]
  obtain res rf where rr: "rr_resume (guarded ops) (pmr_message ?r) (es_fsm f) = Some (res, rf)"
    using spec none stable by (subst (asm) some_spec.simps) (auto simp: Let_def split: option.splits)
  show thesis
  proof (cases res)
    case (Fsm_done ec)
    then have "items = []" "ec = None" "rf' = rf"
      using spec none stable rr by (subst (asm) some_spec.simps, simp add: Let_def)+
    then show ?thesis using last none rr Fsm_done by simp
  next
    case Fsm_read
    have drop: "drop (pmr_size ?r) (unread st f @ rest) = unread st (accepted st rf f) @ rest"
      using size by (simp add: accepted_def add.commute)
    then obtain items' where items': "some_spec ops rf (unread st (accepted st rf f) @ rest) = Some (items', Some None, rf')"
      "items = copy_items (pmr_message ?r) @ items'"
      using spec none stable rr Fsm_read by (subst (asm) some_spec.simps) (auto simp: Let_def split: option.splits)
    have "continues ops alloc rest st (accepted st rf f) items' rf'"
      using assms items'(1) size by (auto simp: continues_def accepted_def)
    moreover have "length (unread st (accepted st rf f)) < length (unread st f)"
      using unread_shorter [OF none] by (simp add: accepted_def)
    ultimately show ?thesis using message none rr Fsm_read items'(2) by simp
  qed
qed (rule more)

fun act_items :: "some_result \<Rightarrow> copy_item list" where
  "act_items (Some_copy_out r) = [Copy_begin r]"
| "act_items Some_copy_data_with_eof = [Copy_end]"
| "act_items _ = []"

text \<open>How the loop leaves off: \<open>bufs\<close> are the buffers it hands on and \<open>items\<close> what is still to come.\<close>

definition hands_on ::
    "'s handler_ops \<Rightarrow> (nat \<Rightarrow> bytes) \<Rightarrow> bytes \<Rightarrow> some_result \<Rightarrow> connection_state \<Rightarrow> const_buffer list \<Rightarrow> 's exec_some_fsm \<Rightarrow>
     copy_item list \<Rightarrow> 's checked read_response_fsm \<Rightarrow> bool" where
  "hands_on ops alloc rest act st bufs f items rf' \<longleftrightarrow>
     (case act of
        Some_done ec \<Rightarrow> ec = None \<and> bufs = [] \<and> items = [] \<and> es_fsm f = rf'
      | Some_write \<Rightarrow> False
      | Some_read \<Rightarrow> bufs = [] \<and> es_resume_point f = 2 \<and> es_consumed f = 0 \<and> continues ops alloc rest st f items rf'
      | Some_copy_out r \<Rightarrow> bufs = [] \<and> es_resume_point f = 4 \<and> continues ops alloc rest st f items rf'
      | Some_copy_data \<Rightarrow> es_resume_point f = 3 \<and> continues ops alloc rest st f items rf'
      | Some_copy_data_with_eof \<Rightarrow> (es_resume_point f = 5 \<or> es_resume_point f = 6) \<and> continues ops alloc rest st f items rf')"

text \<open>The loop makes progress when it has a message; otherwise it hands on the buffers it has or reads.\<close>

definition progress :: "some_result \<Rightarrow> connection_state \<Rightarrow> 's exec_some_fsm \<Rightarrow> connection_state \<Rightarrow> 's exec_some_fsm \<Rightarrow> bool" where
  "progress act st f st' f' \<longleftrightarrow> (\<exists>ec. act = Some_done ec) \<or> length (unread st' f') < length (unread st f)"

lemma continues_point: "continues ops alloc rest st (f\<lparr>es_resume_point := n\<rparr>) items rf' \<longleftrightarrow> continues ops alloc rest st f items rf'"
  by (simp add: continues_def)

lemma continues_next_batch:
  assumes "continues ops alloc rest st f items rf'"
  shows "continues ops alloc rest (cst_consume (es_consumed f) st) (f\<lparr>es_consumed := 0, es_resume_point := n\<rparr>) items rf'"
    and "unread (cst_consume (es_consumed f) st) (f\<lparr>es_consumed := 0, es_resume_point := n\<rparr>) = unread st f"
  using assms consume_inv [of "cst_read_buffer st" "es_consumed f"]
  by (auto simp: continues_def rb_ready_def cst_consume_def)

lemma copy_items_cases:
  obtains "copy_items m = []" "\<And>r. m \<noteq> Copy_out_response r" "m \<noteq> Copy_done" "\<And>e. m \<noteq> Error_response e"
  | d where "m = Copy_data d" "copy_items m = [Copy_chunk d]"
  | r where "m = Copy_out_response r" "copy_items m = [Copy_begin r]"
  | "copy_items m = [Copy_end]"
  by (cases m) (auto simp: copy_items_def)

lemma some_loop_step:
  assumes "continues ops alloc rest st f items rf'" and "bufs \<noteq> [] \<longrightarrow> copying (es_fsm f)"
  shows "\<exists>act st' new f' items'. some_loop ops st bufs f = Some (act, st', bufs @ new, f') \<and>
    rb_buffer (cst_read_buffer st') = rb_buffer (cst_read_buffer st) \<and>
    items = map (\<lambda>b. Copy_chunk (buffer_data st b)) new @ act_items act @ items' \<and>
    hands_on ops alloc rest act st' (bufs @ new) f' items' rf' \<and>
    (progress act st f st' f' \<or> pmr_ec (parse_message (unread st f)) = Some (Client needs_more) \<and> new = [] \<and>
      unread st' f' = unread st f \<and> (bufs = [] \<longrightarrow> act = Some_read))"
  using assms
proof (induction "length (unread st f)" arbitrary: bufs f items rule: less_induct)
  case less
  let ?r = "parse_message (unread st f)"
  from less.prems(1) show ?case
  proof (cases rule: continues_cases)
    case more
    let ?st = "cst_consume (es_consumed f) st" and ?f = "f\<lparr>es_consumed := 0, es_resume_point := 2\<rparr>"
    have mem: "rb_buffer (cst_read_buffer ?st) = rb_buffer (cst_read_buffer st)"
      by (simp add: cst_consume_def rb_consume_def)
    show ?thesis
    proof (cases "bufs = []")
      case True
      then have "some_loop ops st bufs f = Some (Some_read, ?st, bufs @ [], ?f)"
        using some_loop_needs_more [OF more] by (simp add: some_next_batch_def)
      then show ?thesis
        using continues_next_batch [OF less.prems(1), of 2] more mem True
        by (intro exI [of _ Some_read] exI [of _ ?st] exI [of _ "[] :: const_buffer list"] exI [of _ ?f] exI [of _ items])
          (simp add: hands_on_def)
    next
      case False
      then have "some_loop ops st bufs f = Some (Some_copy_data, st, bufs @ [], f\<lparr>es_resume_point := 3\<rparr>)"
        using some_loop_needs_more [OF more] by simp
      then show ?thesis
        using less.prems(1) more False
        by (intro exI [of _ Some_copy_data] exI [of _ st] exI [of _ "[] :: const_buffer list"] exI [of _ "f\<lparr>es_resume_point := 3\<rparr>"] exI [of _ items])
          (simp add: hands_on_def continues_point)
    qed
  next
    case last
    then have "bufs = []" using less.prems(2) rr_resume_copying_done by blast
    then show ?thesis
      using some_loop_done [OF last(1,3), of bufs] last(2)
      by (auto simp: hands_on_def progress_def accepted_def cst_consume_def rb_consume_def)
  next
    case (message rf items')
    let ?f = "accepted st rf f"
    note loop = some_loop_message [OF message(1,2)] and copying = rr_resume_copying [OF message(2)]
    have strict: "progress act st f st' f'" if "progress act st ?f st' f' \<or> unread st' f' = unread st ?f" for act st' f'
    proof -
      have "(\<exists>ec. act = Some_done ec) \<or> length (unread st' f') \<le> length (unread st ?f)"
        using that unfolding progress_def by (elim disjE) simp_all
      then show ?thesis using message(5) unfolding progress_def by (blast intro: le_less_trans)
    qed
    have point: "progress act st f st (?f\<lparr>es_resume_point := n\<rparr>)" for act n
      using message(5) by (simp add: progress_def)
    show ?thesis
    proof (cases "pmr_message ?r" rule: copy_items_cases)
      case 1
      have "bufs \<noteq> [] \<longrightarrow> copying (es_fsm ?f)"
        using less.prems(2) copying(2) 1 by (auto simp: accepted_def)
      from less.hyps [OF message(5,3) this] loop(1) [OF 1(1), of bufs] show ?thesis
        using 1(1) message(4) strict by fastforce
    next
      case (2 d)
      let ?b = "(rb_committed_offset (cst_read_buffer st) + es_consumed f + 5, length d)"
      have "copying (es_fsm ?f)" using copying(1) 2 by (auto simp: accepted_def)
      with less.hyps [OF message(5,3), of "bufs @ [?b]"] obtain act st' new f' items'' where
        ih: "some_loop ops st (bufs @ [?b]) ?f = Some (act, st', bufs @ ?b # new, f')"
          "rb_buffer (cst_read_buffer st') = rb_buffer (cst_read_buffer st)"
          "items' = map (\<lambda>b. Copy_chunk (buffer_data st b)) new @ act_items act @ items''"
          "hands_on ops alloc rest act st' (bufs @ ?b # new) f' items'' rf'"
          "progress act st ?f st' f' \<or> unread st' f' = unread st ?f" by fastforce
      have "buffer_data st ?b = d" using buffer_data_unread [OF message(1) 2(1)] .
      then show ?thesis
        using ih(1-4) strict [OF ih(5)] loop(2) [OF 2(1), of bufs] message(4) 2(2)
        by (intro exI [of _ act] exI [of _ st'] exI [of _ "?b # new"] exI [of _ f'] exI [of _ items'']) simp
    next
      case (3 r)
      then have "bufs = []" using less.prems(2) copying(2) by auto
      then show ?thesis
        using loop(3) [OF 3(1), of bufs] message(3,4) 3(2) point
        by (intro exI [of _ "Some_copy_out r"] exI [of _ st] exI [of _ "[] :: const_buffer list"] exI [of _ "?f\<lparr>es_resume_point := 4\<rparr>"] exI [of _ items'])
          (simp add: hands_on_def continues_point)
    next
      case 4
      from loop(4) [OF 4, of bufs] obtain n where n: "n = 5 \<or> n = 6"
        "some_loop ops st bufs f = Some (Some_copy_data_with_eof, st, bufs, ?f\<lparr>es_resume_point := n\<rparr>)" by blast
      then show ?thesis
        using message(3,4) 4 point
        by (intro exI [of _ Some_copy_data_with_eof] exI [of _ st] exI [of _ "[] :: const_buffer list"] exI [of _ "?f\<lparr>es_resume_point := n\<rparr>"] exI [of _ items'])
          (simp add: hands_on_def continues_point)
    qed
  qed
qed

section \<open>Reads\<close>

lemma missing_fits_bytes: "length bs + message_missing_bytes bs \<le> size_max" if "0 < message_missing_bytes bs"
  using missing_fits [of bs] needs_more_iff [of bs] missing_bytes_eq [OF that] that by simp

text \<open>While the bytes to come complete a message, \<^verbatim>\<open>read_some_messages\<close> returns with it.\<close>

lemma read_some_messages_reads:
  assumes "rb_ready alloc st" and "message_missing_bytes (buffered st @ tr_bytes tr) = 0"
  shows "\<exists>tr' st'. read_some_messages alloc tr st = Some (None, tr', st') \<and> rb_ready alloc st' \<and>
    buffered st' @ tr_bytes tr' = buffered st @ tr_bytes tr \<and> tr_write_error tr' = tr_write_error tr \<and>
    length (tr_bytes tr') \<le> length (tr_bytes tr) \<and>
    (0 < message_missing_bytes (buffered st) \<longrightarrow> length (tr_bytes tr') < length (tr_bytes tr))"
  using assms
proof (induction alloc tr st rule: read_some_messages.induct)
  case (1 alloc tr st)
  show ?case
  proof (cases "message_missing_bytes (buffered st) = 0")
    case True
    then show ?thesis using "1.prems"(1) by (subst read_some_messages.simps) simp
  next
    case False
    let ?b = "prepare alloc (message_missing_bytes (buffered st)) (cst_read_buffer st)"
    let ?st1 = "st\<lparr>cst_read_buffer := ?b\<rparr>"
    let ?chunk = "read_chunk (prepared_area_size ?b) tr"
    let ?tr = "tr\<lparr>tr_bytes := drop (length ?chunk) (tr_bytes tr)\<rparr>"
    let ?st = "?st1\<lparr>cst_read_buffer := rb_commit (length ?chunk) (fill_prepared ?chunk ?b)\<rparr>"
    have p: "rb_inv ?b" "committed_area ?b = buffered st" "message_missing_bytes (buffered st) \<le> prepared_area_size ?b"
      using prepare_inv [of alloc "cst_read_buffer st" "message_missing_bytes (buffered st)"] missing_fits_bytes [of "buffered st"]
        "1.prems"(1) False by (auto simp: rb_ready_def)
    have more: "tr_bytes tr \<noteq> []" using "1.prems"(2) False by auto
    then have chunk: "?chunk \<noteq> []" using p(3) False by (simp add: read_chunk_def)
    have fits: "length ?chunk \<le> prepared_area_size ?b" by (simp add: read_chunk_def)
    have st: "rb_ready alloc ?st" "buffered ?st = buffered st @ ?chunk"
      using fill_commit_inv [OF p(1) fits] p(2) "1.prems"(1) by (auto simp: rb_ready_def)
    have split: "?chunk @ tr_bytes ?tr = tr_bytes tr" using take_chunk [of _ "tr_bytes tr"] by (simp add: read_chunk_def)
    have less: "length (tr_bytes ?tr) < length (tr_bytes tr)" using chunk more by simp
    have complete: "message_missing_bytes (buffered ?st @ tr_bytes ?tr) = 0" using "1.prems"(2) st(2) split by simp
    have step: "read_some_messages alloc tr st = read_some_messages alloc ?tr ?st"
      using False more chunk by (subst read_some_messages.simps) (simp add: Let_def)
    from "1.IH" [OF refl False refl refl refl more chunk st(1) complete] obtain tr' st' where
      r: "read_some_messages alloc ?tr ?st = Some (None, tr', st')" "rb_ready alloc st'"
        "buffered st' @ tr_bytes tr' = buffered ?st @ tr_bytes ?tr" "tr_write_error tr' = tr_write_error tr"
        "length (tr_bytes tr') \<le> length (tr_bytes ?tr)" by auto
    have "buffered st' @ tr_bytes tr' = buffered st @ tr_bytes tr" unfolding r(3) st(2) append_assoc split ..
    moreover have "length (tr_bytes tr') < length (tr_bytes tr)" using r(5) less by (rule le_less_trans)
    ultimately show ?thesis unfolding step using r(1,2,4) by (intro exI [of _ tr'] exI [of _ st']) simp
  qed
qed

lemma continues_complete:
  assumes "continues ops alloc rest st f items rf'"
  shows "message_missing_bytes (unread st f @ rest) = 0"
proof (rule ccontr)
  assume "message_missing_bytes (unread st f @ rest) \<noteq> 0"
  then have "pmr_ec (parse_message (unread st f @ rest)) = Some (Client needs_more)"
    using needs_more_iff by simp
  then show False using assms unfolding continues_def by (subst (asm) some_spec.simps) (simp add: Let_def)
qed

section \<open>The calls of the user\<close>

definition delivered :: "'s co_connection \<Rightarrow> exec_some_result \<Rightarrow> copy_item list" where
  "delivered c r =
     (case r of
        Esr_done \<Rightarrow> []
      | Esr_copy_out cr \<Rightarrow> [Copy_begin cr]
      | Esr_copy_out_data bufs eof \<Rightarrow> map (\<lambda>b. Copy_chunk (buffer_data (cc_st c) b)) bufs @ (if eof then [Copy_end] else []))"

text \<open>The user calls \<^verbatim>\<open>exec_some\<close> until it is done, and uses what each call returns before the next one.\<close>

inductive copy_calls ::
    "'s handler_ops \<Rightarrow> (nat \<Rightarrow> bytes) \<Rightarrow> transport \<Rightarrow> 's co_connection \<Rightarrow> copy_item list \<Rightarrow> error_code option \<Rightarrow> 's co_connection \<Rightarrow> bool"
  for ops alloc where
  calls_done: "exec_some ops alloc tr c = Some (ec, Esr_done, tr', c') \<Longrightarrow> copy_calls ops alloc tr c [] ec c'"
| calls_next: "exec_some ops alloc tr c = Some (None, r, tr1, c1) \<Longrightarrow> r \<noteq> Esr_done \<Longrightarrow>
     copy_calls ops alloc tr1 c1 items ec c' \<Longrightarrow> copy_calls ops alloc tr c (delivered c1 r @ items) ec c'"

lemma copy_calls_same:
  assumes "copy_calls ops alloc tr2 c2 items ec c'" and "exec_some ops alloc tr c = exec_some ops alloc tr2 c2"
  shows "copy_calls ops alloc tr c items ec c'"
  using assms by (cases rule: copy_calls.cases) (auto intro: copy_calls.intros)

text \<open>The connection between two steps of its machine: there are no buffers that are still to be handed on.\<close>

definition at_step :: "'s exec_some_fsm \<Rightarrow> 's co_connection \<Rightarrow> bool" where
  "at_step f c \<longleftrightarrow> cc_exec_some_fsm c = Some f \<and>
     (es_resume_point f \<in> {1, 2, 4} \<and> cc_copy_out_buffers c = [] \<or> es_resume_point f \<in> {3, 5, 6})"

lemma some_resume_steps:
  assumes "at_step f c"
  shows "some_resume ops (cc_st c) (cc_copy_out_buffers c) f =
    (if es_resume_point f = 1 \<or> es_resume_point f = 3 then some_next_batch (cc_st c) [] f else some_loop ops (cc_st c) [] f)"
  using assms by (auto simp: at_step_def some_resume_def)

lemma step_outcome:
  assumes "at_step f c" and "continues ops alloc rest (cc_st c) f items rf'"
  shows "\<exists>act st' new f' items'. some_resume ops (cc_st c) (cc_copy_out_buffers c) f = Some (act, st', new, f') \<and>
    rb_buffer (cst_read_buffer st') = rb_buffer (cst_read_buffer (cc_st c)) \<and>
    items = map (\<lambda>b. Copy_chunk (buffer_data st' b)) new @ act_items act @ items' \<and>
    hands_on ops alloc rest act st' new f' items' rf' \<and>
    (progress act (cc_st c) f st' f' \<or> act = Some_read \<and> unread st' f' = unread (cc_st c) f \<and>
      (es_resume_point f = 2 \<longrightarrow> pmr_ec (parse_message (unread (cc_st c) f)) = Some (Client needs_more)))"
proof (cases "es_resume_point f = 1 \<or> es_resume_point f = 3")
  case True
  let ?st = "cst_consume (es_consumed f) (cc_st c)" and ?f = "f\<lparr>es_consumed := 0, es_resume_point := 2\<rparr>"
  have "some_resume ops (cc_st c) (cc_copy_out_buffers c) f = Some (Some_read, ?st, [], ?f)"
    using some_resume_steps [OF assms(1)] True by (simp add: some_next_batch_def)
  moreover have "rb_buffer (cst_read_buffer ?st) = rb_buffer (cst_read_buffer (cc_st c))"
    by (simp add: cst_consume_def rb_consume_def)
  ultimately show ?thesis
    using continues_next_batch [OF assms(2), of 2] True
    by (intro exI [of _ Some_read] exI [of _ ?st] exI [of _ "[] :: const_buffer list"] exI [of _ ?f] exI [of _ items]) (auto simp: hands_on_def)
next
  case False
  from some_loop_step [OF assms(2), of "[]"] obtain act st' new f' items' where
    l: "some_loop ops (cc_st c) [] f = Some (act, st', new, f')"
      "rb_buffer (cst_read_buffer st') = rb_buffer (cst_read_buffer (cc_st c))"
      "items = map (\<lambda>b. Copy_chunk (buffer_data (cc_st c) b)) new @ act_items act @ items'"
      "hands_on ops alloc rest act st' new f' items' rf'"
      "progress act (cc_st c) f st' f' \<or> pmr_ec (parse_message (unread (cc_st c) f)) = Some (Client needs_more) \<and> new = [] \<and>
        unread st' f' = unread (cc_st c) f \<and> act = Some_read" by auto
  have "buffer_data st' = buffer_data (cc_st c)" using l(2) by (simp add: buffer_data_def fun_eq_iff)
  then show ?thesis
    using l some_resume_steps [OF assms(1), of ops] False
    by (intro exI [of _ act] exI [of _ st'] exI [of _ new] exI [of _ f'] exI [of _ items']) auto
qed

text \<open>The bytes that are left, those in the transport counted twice: a read moves them into the buffer.\<close>

definition bytes_left :: "transport \<Rightarrow> connection_state \<Rightarrow> 's exec_some_fsm \<Rightarrow> nat" where
  "bytes_left tr st f = 2 * (2 * length (tr_bytes tr) + length (unread st f)) + of_bool (es_resume_point f \<noteq> 2)"

lemma calls_read:
  assumes "continues ops alloc (tr_bytes tr) st f items rf'" and "es_resume_point f = 2" and "es_consumed f = 0"
  shows "\<exists>tr' st'. read_some_messages alloc tr st = Some (None, tr', st') \<and> continues ops alloc (tr_bytes tr') st' f items rf' \<and>
    tr_write_error tr' = tr_write_error tr \<and>
    bytes_left tr' st' f \<le> bytes_left tr st f \<and>
    (pmr_ec (parse_message (unread st f)) = Some (Client needs_more) \<longrightarrow> bytes_left tr' st' f + 1 < bytes_left tr st f)"
proof -
  have "rb_ready alloc st" "message_missing_bytes (buffered st @ tr_bytes tr) = 0"
    using assms(1) continues_complete [OF assms(1)] assms(3) by (simp_all add: continues_def)
  from read_some_messages_reads [OF this] obtain tr' st' where
    r: "read_some_messages alloc tr st = Some (None, tr', st')" "rb_ready alloc st'" "tr_write_error tr' = tr_write_error tr"
      "buffered st' @ tr_bytes tr' = buffered st @ tr_bytes tr" "length (tr_bytes tr') \<le> length (tr_bytes tr)"
      "0 < message_missing_bytes (buffered st) \<longrightarrow> length (tr_bytes tr') < length (tr_bytes tr)" by (elim exE conjE)
  have "length (buffered st') + length (tr_bytes tr') = length (buffered st) + length (tr_bytes tr)"
    using arg_cong [OF r(4), of length] by simp
  then show ?thesis
    using r assms needs_more_iff [of "buffered st"]
    by (intro exI [of _ tr'] exI [of _ st']) (auto simp: continues_def bytes_left_def)
qed

lemma handed_on_calls:
  assumes "some_resume ops (cc_st c) (cc_copy_out_buffers c) f = Some (act, st', new, f')" and "cc_exec_some_fsm c = Some f"
  defines "c1 \<equiv> c\<lparr>cc_st := st', cc_copy_out_buffers := new, cc_exec_some_fsm := Some f'\<rparr>"
  shows "act = Some_copy_out r \<Longrightarrow> exec_some ops alloc tr c = Some (None, Esr_copy_out r, tr, c1)"
    and "act = Some_copy_data \<Longrightarrow> exec_some ops alloc tr c = Some (None, Esr_copy_out_data new False, tr, c1)"
    and "act = Some_copy_data_with_eof \<Longrightarrow> exec_some ops alloc tr c = Some (None, Esr_copy_out_data new True, tr, c1)"
    and "act = Some_done ec \<Longrightarrow> exec_some ops alloc tr c =
      Some (ec, Esr_done, tr, c1\<lparr>cc_exec_some_fsm := None, cc_handler := Some (rr_handler (es_fsm f'))\<rparr>)"
    and "act = Some_read \<Longrightarrow> read_some_messages alloc tr st' = Some (None, tr', st'') \<Longrightarrow>
      exec_some ops alloc tr c = exec_some ops alloc tr' (c1\<lparr>cc_st := st''\<rparr>)"
    and "act = Some_write \<Longrightarrow> tr_write_error tr = None \<Longrightarrow> exec_some ops alloc tr c = exec_some ops alloc tr c1"
  using assms(1,2) by (subst exec_some.simps, simp add: c1_def Let_def)+

lemma copy_calls_deliver:
  assumes "at_step f c" and "continues ops alloc (tr_bytes tr) (cc_st c) f items rf'"
  shows "\<exists>c'. copy_calls ops alloc tr c items None c' \<and> cc_handler c' = Some (rr_handler rf') \<and> cc_exec_some_fsm c' = None"
  using assms
proof (induction "bytes_left tr (cc_st c) f" arbitrary: tr c f items rule: less_induct)
  case less
  have fsm: "cc_exec_some_fsm c = Some f" using less.prems(1) by (simp add: at_step_def)
  from step_outcome [OF less.prems] obtain act st' new f' items' where
    s: "some_resume ops (cc_st c) (cc_copy_out_buffers c) f = Some (act, st', new, f')"
    and items: "items = map (\<lambda>b. Copy_chunk (buffer_data st' b)) new @ act_items act @ items'"
    and on: "hands_on ops alloc (tr_bytes tr) act st' new f' items' rf'"
    and p: "progress act (cc_st c) f st' f' \<or> act = Some_read \<and> unread st' f' = unread (cc_st c) f \<and>
      (es_resume_point f = 2 \<longrightarrow> pmr_ec (parse_message (unread (cc_st c) f)) = Some (Client needs_more))" by (elim exE conjE)
  let ?c1 = "c\<lparr>cc_st := st', cc_copy_out_buffers := new, cc_exec_some_fsm := Some f'\<rparr>"
  note calls = handed_on_calls [OF s fsm]
  have next_call: ?case
    if "exec_some ops alloc tr c = Some (None, r, tr, ?c1)" "r \<noteq> Esr_done" "items = delivered ?c1 r @ items'" "at_step f' ?c1"
      "continues ops alloc (tr_bytes tr) st' f' items' rf'" "length (unread st' f') < length (unread (cc_st c) f)" for r
  proof -
    have "bytes_left tr (cc_st ?c1) f' < bytes_left tr (cc_st c) f" using that(6) by (auto simp: bytes_left_def)
    from less.hyps [OF this that(4)] that(5) obtain c' where "copy_calls ops alloc tr ?c1 items' None c'"
      "cc_handler c' = Some (rr_handler rf')" "cc_exec_some_fsm c' = None" by auto
    then show ?thesis using calls_next [OF that(1,2)] that(3) by auto
  qed
  show ?case
  proof (cases act)
    case Some_write
    then show ?thesis using on by (simp add: hands_on_def)
  next
    case Some_read
    then have n: "new = []" "es_resume_point f' = 2" "es_consumed f' = 0" "continues ops alloc (tr_bytes tr) st' f' items' rf'"
      using on by (simp_all add: hands_on_def)
    from calls_read [OF n(4,2,3)] obtain tr' st'' where
      r: "read_some_messages alloc tr st' = Some (None, tr', st'')" "continues ops alloc (tr_bytes tr') st'' f' items' rf'"
        "bytes_left tr' st'' f' \<le> bytes_left tr st' f'"
        "pmr_ec (parse_message (unread st' f')) = Some (Client needs_more) \<longrightarrow> bytes_left tr' st'' f' + 1 < bytes_left tr st' f'"
      by (elim exE conjE)
    let ?c2 = "?c1\<lparr>cc_st := st''\<rparr>"
    have "bytes_left tr' st'' f' < bytes_left tr (cc_st c) f"
    proof (cases "progress act (cc_st c) f st' f'")
      case True
      then have "bytes_left tr st' f' < bytes_left tr (cc_st c) f"
        using Some_read by (auto simp: progress_def bytes_left_def)
      then show ?thesis using r(3) by simp
    next
      case False
      then show ?thesis using p r(3,4) n(2) by (auto simp: bytes_left_def)
    qed
    moreover have "at_step f' ?c2" using n by (simp add: at_step_def)
    ultimately obtain c' where "copy_calls ops alloc tr' ?c2 items' None c'" "cc_handler c' = Some (rr_handler rf')"
      "cc_exec_some_fsm c' = None" using less.hyps [of tr' ?c2 f'] r(2) by auto
    then show ?thesis
      using copy_calls_same [OF _ calls(5) [OF Some_read r(1)]] items n(1) Some_read by auto
  next
    case (Some_copy_out r)
    then show ?thesis
      using on p items calls(1) [of r alloc tr]
      by (intro next_call [of "Esr_copy_out r"]) (auto simp: hands_on_def progress_def delivered_def at_step_def)
  next
    case Some_copy_data
    then show ?thesis
      using on p items calls(2) [of alloc tr]
      by (intro next_call [of "Esr_copy_out_data new False"]) (auto simp: hands_on_def progress_def delivered_def at_step_def)
  next
    case Some_copy_data_with_eof
    then show ?thesis
      using on p items calls(3) [of alloc tr]
      by (intro next_call [of "Esr_copy_out_data new True"]) (auto simp: hands_on_def progress_def delivered_def at_step_def)
  next
    case (Some_done ec)
    then show ?thesis
      using on items calls(4) [of ec alloc tr] calls_done [of ops alloc tr c ec] by (auto simp: hands_on_def)
  qed
qed

section \<open>Conversations with COPY\<close>

lemma resume_ends:
  assumes "resume_loop on_message m f = Some (Fsm_done None, f')"
  shows "copy_items m = []"
  using assms
proof (induction on_message m f rule: resume_loop.induct)
  case (1 on_message m f)
  from "1.prems" show ?case
    by (subst (asm) resume_loop.simps)
      (auto simp: handler_defs copy_items_def dest!: handle_error_reads
        split: if_splits request_message_type.splits state_t.splits any_backend_message.splits dest: "1.IH")
qed

lemma async_no_items: "is_async_message m \<Longrightarrow> copy_items m = []"
  by (cases m) (simp_all add: is_async_message_def copy_items_def)

lemma sync_messages_no_items: "sync_messages ms = [] \<Longrightarrow> concat (map copy_items ms) = []"
  by (induction ms) (auto simp: sync_messages_def async_no_items split: if_splits)

lemma some_spec_run:
  assumes "drain parse_message bs = (ms, rest, e)" and "rr_run (guarded ops) ms rf = Some (Fsm_done None, rf', left)"
    and "sync_messages left = []"
  shows "some_spec ops rf bs = Some (concat (map copy_items ms), Some None, rf')"
  using assms
proof (induction ms arbitrary: bs rf)
  case (Cons m ms)
  from Cons.prems(1) obtain ec: "pmr_ec (parse_message bs) = None" and m: "pmr_message (parse_message bs) = m"
    and ms: "drain parse_message (drop (pmr_size (parse_message bs)) bs) = (ms, rest, e)"
    by (subst (asm) msg.drain_unfold) (auto split: option.splits if_splits prod.splits)
  obtain res rf1 where r: "rr_resume (guarded ops) m rf = Some (res, rf1)"
    using Cons.prems(2) by (auto split: option.splits)
  show ?case
  proof (cases res)
    case (Fsm_done ec')
    then have "ec' = None" "rf1 = rf'" "left = ms" using Cons.prems(2) r by simp_all
    moreover have "copy_items m = []"
      using r Fsm_done \<open>ec' = None\<close> resume_ends async_no_items by (auto simp: rr_resume_def split: if_splits)
    ultimately show ?thesis
      using r Fsm_done ec m sync_messages_no_items [OF Cons.prems(3)] by (subst some_spec.simps) (simp add: Let_def)
  next
    case Fsm_read
    then have "some_spec ops rf1 (drop (pmr_size (parse_message bs)) bs) = Some (concat (map copy_items ms), Some None, rf')"
      using Cons.IH [OF ms _ Cons.prems(3)] Cons.prems(2) r by simp
    then show ?thesis using r Fsm_read ec m by (subst some_spec.simps) (simp add: Let_def)
  qed
qed simp

text \<open>
  C3. COPY OUT works piece by piece: when the handler accepts the request and the server answers with a
  conversation the protocol prescribes, the calls of \<^verbatim>\<open>exec_some\<close> come to their end without an error,
  whatever the sizes of the reads. Together they give the user the announcement of every COPY, its data
  and its end in the order of the server, and the buffers each call returns hold the data at that moment.
  The handler has seen exactly the prescribed messages, and the connection is ready for the next request.
\<close>

theorem copy_out_delivers:
  assumes "setup_request ops req s0 = Inr (None, s)"
    and "drain parse_message (buffered (cc_st c) @ tr_bytes tr) = (ms, rest, e)"
    and "replies True 0 (req_types req) (sync_messages ms) cs" and "run_calls ops cs s = Inr s'"
    and "rb_ready alloc (cc_st c)" and "cc_exec_some_fsm c = None" and "tr_write_error tr = None"
  shows "\<exists>c1 c'. cc_setup_request req s0 c = Some c1 \<and>
    copy_calls ops alloc tr c1 (concat (map copy_items ms)) None c' \<and>
    cc_handler c' = Some (Inr s') \<and> cc_exec_some_fsm c' = None"
proof -
  define f where "f = (exec_some_fsm_init req s)\<lparr>es_resume_point := 1\<rparr>"
  define c1 where "c1 = c\<lparr>cc_exec_some_fsm := Some (exec_some_fsm_init req s0)\<rparr>"
  define c2 where "c2 = c\<lparr>cc_copy_out_buffers := [], cc_exec_some_fsm := Some f\<rparr>"
  obtain rf left where rf: "rr_run (guarded ops) ms (read_response_fsm_init req (Inr s) True) = Some (Fsm_done None, rf, left)"
    "sync_messages left = []" "rr_handler rf = Inr s'"
    using handler_run [OF setup_requestE(1) [OF assms(1)] assms(3), of ops s] assms(4) by auto
  have "continues ops alloc (tr_bytes tr) (cc_st c2) f (concat (map copy_items ms)) rf"
    using some_spec_run [OF assms(2) rf(1,2)] assms(5)
    by (simp add: continues_def f_def c2_def exec_some_fsm_init_def)
  moreover have "at_step f c2" by (simp add: at_step_def f_def c2_def)
  ultimately obtain c' where c': "copy_calls ops alloc tr c2 (concat (map copy_items ms)) None c'"
    "cc_handler c' = Some (rr_handler rf)" "cc_exec_some_fsm c' = None" using copy_calls_deliver by blast
  have "some_resume ops (cc_st c1) (cc_copy_out_buffers c1) (exec_some_fsm_init req s0) = Some (Some_write, cc_st c, [], f)"
    using assms(1) by (simp add: some_resume_def exec_some_fsm_init_def read_response_fsm_init_def f_def c1_def)
  from handed_on_calls(6) [OF this, where alloc = alloc and tr = tr] assms(7) have "exec_some ops alloc tr c1 = exec_some ops alloc tr c2"
    by (simp add: c1_def c2_def)
  from copy_calls_same [OF c'(1) this] show ?thesis
    using c'(2,3) rf(3) assms(6) by (auto simp: cc_setup_request_def c1_def)
qed

definition copy_query :: request where
  "copy_query = \<lparr>req_buffer = [], req_types = [msg_query], req_autosync = True\<rparr>"

text \<open>CopyOutResponse, two CopyData, CopyDone, CommandComplete and ReadyForQuery.\<close>

definition copy_bytes :: bytes where
  "copy_bytes = [0x48, 0, 0, 0, 7, 0, 0, 0, 0x64, 0, 0, 0, 6, 0x61, 0x62, 0x64, 0, 0, 0, 5, 0x63,
     0x63, 0, 0, 0, 4, 0x43, 0, 0, 0, 5, 0, 0x5a, 0, 0, 0, 5, 0x49]"

definition copy_connection :: "extended_error co_connection" where
  "copy_connection = \<lparr>cc_st = empty_state, cc_copy_out_buffers = [], cc_exec_some_fsm = None, cc_handler = None\<rparr>"

definition copy_transport :: transport where
  "copy_transport = \<lparr>tr_bytes = copy_bytes, tr_sizes = (\<lambda>n. 3), tr_read_error = Client incomplete_message, tr_write_error = None\<rparr>"

definition copy_header :: copy_response where
  "copy_header = (case drain parse_message copy_bytes of (Copy_out_response r # _, _) \<Rightarrow> r)"

lemma copy_drain:
  "drain parse_message copy_bytes =
     ([Copy_out_response copy_header, Copy_data [0x61, 0x62], Copy_data [0x63], Copy_done, Command_complete [],
       Ready_for_query status_idle], [], None)"
  by code_simp

theorem copy_out_delivers_witness:
  "\<exists>c1 c'. cc_setup_request copy_query no_error copy_connection = Some c1 \<and>
    copy_calls check (\<lambda>n. replicate n 0) copy_transport c1
      [Copy_begin copy_header, Copy_chunk [0x61, 0x62], Copy_chunk [0x63], Copy_end] None c' \<and>
    cc_handler c' = Some (Inr no_error) \<and> cc_exec_some_fsm c' = None"
proof -
  let ?ms = "[Copy_out_response copy_header, Copy_data [0x61, 0x62], Copy_data [0x63], Copy_done, Command_complete [],
    Ready_for_query status_idle]"
  let ?cs = "[(Rm_row_description empty_forward_view, 0), (Rm_command_complete [], 0)]"
  have "query_reply True ([Copy_out_response copy_header] @ map Copy_data [[0x61, 0x62], [0x63]] @ [Copy_done, Command_complete []])
      [Rm_row_description empty_forward_view, Rm_command_complete []]"
    by (rule query_ok, rule results_one) (use result_copy [of True copy_header "[[0x61, 0x62], [0x63]]" "[]"] in simp)
  from replies_query [OF this replies_end, of 0 status_idle]
  have "replies True 0 (req_types copy_query) (sync_messages ?ms) ?cs" by (simp add: copy_query_def sync_messages_def)
  moreover have "setup_request check copy_query no_error = Inr (None, no_error)"
    by (simp add: setup_request_def check_request_def copy_query_def check_def)
  moreover have "run_calls check ?cs no_error = Inr no_error"
    by (simp add: check_def maybe_store_error_of_def)
  moreover have "drain parse_message (buffered (cc_st copy_connection) @ tr_bytes copy_transport) = (?ms, [], None)"
    using copy_drain by (simp add: copy_connection_def copy_transport_def empty_state_ready(2))
  ultimately show ?thesis
    using copy_out_delivers [of check copy_query no_error no_error copy_connection copy_transport ?ms "[]" None ?cs no_error
        "\<lambda>n. replicate n 0"] empty_state_ready(1)
    by (simp add: copy_connection_def copy_transport_def copy_items_def)
qed



end
