(* ===== verification/Pg_Notification.thy ===== *)
theory Pg_Notification
  imports Pg_Backend
begin

text \<open>
  The queue of \<^verbatim>\<open>nativepg_internal/notification_queue.hpp\<close> between the reader of a multiplexed connection
  and the consumer of notifications. An \<^verbatim>\<open>async_event\<close> is its flag; waiting on it suspends a coroutine
  until the flag is set, so an operation that waits is one that is not possible yet: its result is
  \<open>None\<close>. The lemmas show that the flags tell exactly what the queue holds, so that no coroutine waits for
  nothing, that every notification is read once and in order, and that the queue stays bounded.
\<close>

section \<open>State and operations\<close>

datatype notification_event_type = ev_notify | ev_connect | ev_disconnect

record notification_event =
  ne_type :: notification_event_type
  ne_backend_pid :: int32
  ne_channel :: bytes
  ne_payload :: bytes

record notification_queue =
  nq_max_pending :: nat
  nq_pending :: "notification_event list"
  nq_events_available :: bool
  nq_space_available :: bool

definition notification_queue_init :: "nat \<Rightarrow> notification_queue option" where
  "notification_queue_init max_pending =
     (if max_pending > 0
      then Some \<lparr>nq_max_pending = max_pending, nq_pending = [], nq_events_available = False, nq_space_available = True\<rparr>
      else None)"

definition has_space :: "notification_queue \<Rightarrow> bool" where
  "has_space q \<longleftrightarrow> length (nq_pending q) < nq_max_pending q"

definition add_event :: "notification_event \<Rightarrow> notification_queue \<Rightarrow> notification_queue" where
  "add_event evt q =
     (let q1 = q\<lparr>nq_pending := nq_pending q @ [evt]\<rparr>;
          q2 = (if \<not> has_space q1 then q1\<lparr>nq_space_available := False\<rparr> else q1)
      in q2\<lparr>nq_events_available := True\<rparr>)"

definition notify_event :: "notification_response \<Rightarrow> notification_event" where
  "notify_event msg =
     \<lparr>ne_type = ev_notify, ne_backend_pid = nr_process_id msg, ne_channel = nr_channel_name msg, ne_payload = nr_payload msg\<rparr>"

definition do_add_notification :: "notification_response \<Rightarrow> notification_queue \<Rightarrow> notification_queue" where
  "do_add_notification msg q = add_event (notify_event msg) q"

definition plain_event :: "notification_event_type \<Rightarrow> notification_event" where
  "plain_event t = \<lparr>ne_type = t, ne_backend_pid = 0, ne_channel = [], ne_payload = []\<rparr>"

definition add_connect :: "notification_queue \<Rightarrow> notification_queue" where
  "add_connect q = add_event (plain_event ev_connect) q"

definition add_disconnect :: "notification_queue \<Rightarrow> notification_queue" where
  "add_disconnect q =
     (if nq_pending q \<noteq> [] \<and> ne_type (last (nq_pending q)) = ev_connect
      then
        (let q1 = q\<lparr>nq_pending := butlast (nq_pending q)\<rparr>;
             q2 = (if has_space q1 then q1\<lparr>nq_space_available := True\<rparr> else q1)
         in if nq_pending q2 = [] then q2\<lparr>nq_events_available := False\<rparr> else q2)
      else add_event (plain_event ev_disconnect) q)"

definition try_add_notify :: "notification_response \<Rightarrow> notification_queue \<Rightarrow> bool \<times> notification_queue" where
  "try_add_notify msg q = (if \<not> has_space q then (False, q) else (True, do_add_notification msg q))"

text \<open>\<^verbatim>\<open>add_notify\<close> and \<^verbatim>\<open>read_events\<close> past their waiting loops.\<close>

definition add_notify :: "notification_response \<Rightarrow> notification_queue \<Rightarrow> notification_queue option" where
  "add_notify msg q = (if \<not> has_space q then None else Some (do_add_notification msg q))"

definition read_events :: "notification_queue \<Rightarrow> (notification_event list \<times> notification_queue) option" where
  "read_events q =
     (if nq_pending q = [] then None
      else Some (nq_pending q, q\<lparr>nq_pending := [], nq_events_available := False, nq_space_available := True\<rparr>))"

section \<open>The invariant\<close>

definition nq_inv :: "notification_queue \<Rightarrow> bool" where
  "nq_inv q \<longleftrightarrow> 0 < nq_max_pending q \<and>
     (nq_events_available q \<longleftrightarrow> nq_pending q \<noteq> []) \<and> (nq_space_available q \<longleftrightarrow> has_space q)"

lemma nq_inv_init: "notification_queue_init n = Some q \<Longrightarrow> nq_inv q \<and> nq_pending q = [] \<and> nq_max_pending q = n"
  by (auto simp: notification_queue_init_def nq_inv_def has_space_def split: if_splits)

lemma add_event_simps [simp]:
  "nq_pending (add_event e q) = nq_pending q @ [e]"
  "nq_max_pending (add_event e q) = nq_max_pending q"
  by (simp_all add: add_event_def Let_def)

lemma nq_inv_add_event: "nq_inv q \<Longrightarrow> nq_inv (add_event e q)"
  by (auto simp: nq_inv_def add_event_def has_space_def Let_def)

lemma add_disconnect_cases:
  obtains es e where "nq_pending q = es @ [e]" "ne_type e = ev_connect" "nq_pending (add_disconnect q) = es"
    | "nq_pending q = [] \<or> ne_type (last (nq_pending q)) \<noteq> ev_connect"
      "add_disconnect q = add_event (plain_event ev_disconnect) q"
proof (cases "nq_pending q \<noteq> [] \<and> ne_type (last (nq_pending q)) = ev_connect")
  case True
  then have "nq_pending q = butlast (nq_pending q) @ [last (nq_pending q)]" by simp
  moreover have "nq_pending (add_disconnect q) = butlast (nq_pending q)"
    using True by (simp add: add_disconnect_def Let_def)
  ultimately show thesis using that(1) True by blast
qed (use that(2) in \<open>auto simp: add_disconnect_def\<close>)

lemma add_disconnect_max [simp]: "nq_max_pending (add_disconnect q) = nq_max_pending q"
  by (simp add: add_disconnect_def Let_def)

lemma nq_inv_add_disconnect:
  assumes "nq_inv q"
  shows "nq_inv (add_disconnect q)"
proof (cases rule: add_disconnect_cases [of q])
  case (1 es e)
  then have "add_disconnect q = (let q1 = q\<lparr>nq_pending := es\<rparr>;
      q2 = (if has_space q1 then q1\<lparr>nq_space_available := True\<rparr> else q1)
    in if nq_pending q2 = [] then q2\<lparr>nq_events_available := False\<rparr> else q2)"
    by (simp add: add_disconnect_def)
  then show ?thesis using assms 1(1) by (auto simp: nq_inv_def has_space_def Let_def)
qed (simp add: assms nq_inv_add_event)

lemma nq_inv_read: "nq_inv q \<Longrightarrow> read_events q = Some (es, q') \<Longrightarrow> nq_inv q'"
  by (auto simp: read_events_def nq_inv_def has_space_def split: if_splits)

section \<open>Runs\<close>

text \<open>
  The interleavings of a connection and a consumer. The connection adds connects and disconnects
  alternately, as \<^verbatim>\<open>co_multiplexed_connection.cpp\<close> does, and notifications while it is connected; the last
  two components are the events the consumer has read and the notifications that were accepted.
\<close>

record notification_run =
  nu_queue :: notification_queue
  nu_connected :: bool
  nu_read :: "notification_event list"
  nu_accepted :: "notification_response list"

inductive nq_step :: "notification_run \<Rightarrow> notification_run \<Rightarrow> bool" where
  nq_connect: "\<not> nu_connected r \<Longrightarrow>
     nq_step r (r\<lparr>nu_queue := add_connect (nu_queue r), nu_connected := True\<rparr>)"
| nq_disconnect: "nu_connected r \<Longrightarrow>
     nq_step r (r\<lparr>nu_queue := add_disconnect (nu_queue r), nu_connected := False\<rparr>)"
| nq_try_notify: "nu_connected r \<Longrightarrow> try_add_notify msg (nu_queue r) = (ok, q) \<Longrightarrow>
     nq_step r (r\<lparr>nu_queue := q, nu_accepted := nu_accepted r @ (if ok then [msg] else [])\<rparr>)"
| nq_notify: "nu_connected r \<Longrightarrow> add_notify msg (nu_queue r) = Some q \<Longrightarrow>
     nq_step r (r\<lparr>nu_queue := q, nu_accepted := nu_accepted r @ [msg]\<rparr>)"
| nq_read: "read_events (nu_queue r) = Some (es, q) \<Longrightarrow>
     nq_step r (r\<lparr>nu_queue := q, nu_read := nu_read r @ es\<rparr>)"

inductive nq_reachable :: "nat \<Rightarrow> notification_run \<Rightarrow> bool" for n where
  nq_start: "notification_queue_init n = Some q \<Longrightarrow>
     nq_reachable n \<lparr>nu_queue = q, nu_connected = False, nu_read = [], nu_accepted = []\<rparr>"
| nq_next: "nq_reachable n r \<Longrightarrow> nq_step r r' \<Longrightarrow> nq_reachable n r'"

definition notifications :: "notification_event list \<Rightarrow> notification_event list" where
  "notifications es = filter (\<lambda>e. ne_type e = ev_notify) es"

lemma notifications_simps [simp]:
  "notifications [] = []"
  "notifications (xs @ ys) = notifications xs @ notifications ys"
  "notifications [notify_event msg] = [notify_event msg]"
  "ne_type e \<noteq> ev_notify \<Longrightarrow> notifications [e] = []"
  "ne_type (plain_event t) = t"
  by (simp_all add: notifications_def notify_event_def plain_event_def)

text \<open>
  The bound: a notification is added below the limit only; a disconnect may follow when the queue is full,
  and a connect after it, which the next disconnect takes back.
\<close>

definition nq_bounded :: "notification_run \<Rightarrow> bool" where
  "nq_bounded r \<longleftrightarrow>
     (let es = nq_pending (nu_queue r)
      in length es \<le> nq_max_pending (nu_queue r) +
           (if \<not> nu_connected r then 1 else if es \<noteq> [] \<and> ne_type (last es) = ev_connect then 2 else 0))"

definition nq_run_inv :: "nat \<Rightarrow> notification_run \<Rightarrow> bool" where
  "nq_run_inv n r \<longleftrightarrow> nq_inv (nu_queue r) \<and> nq_max_pending (nu_queue r) = n \<and> nq_bounded r \<and>
     notifications (nu_read r @ nq_pending (nu_queue r)) = map notify_event (nu_accepted r)"

lemma nq_step_inv:
  assumes "nq_step r r'" and "nq_run_inv n r"
  shows "nq_run_inv n r'"
  using assms
proof (cases rule: nq_step.cases)
  case nq_connect
  then show ?thesis using assms(2)
    by (auto simp: nq_run_inv_def nq_bounded_def add_connect_def nq_inv_add_event Let_def)
next
  case nq_disconnect
  show ?thesis
  proof (cases rule: add_disconnect_cases [of "nu_queue r"])
    case (1 es e)
    then show ?thesis using assms(2) nq_disconnect
      by (auto simp: nq_run_inv_def nq_bounded_def nq_inv_add_disconnect Let_def)
  next
    case 2
    then show ?thesis using assms(2) nq_disconnect
      by (auto simp: nq_run_inv_def nq_bounded_def nq_inv_add_event Let_def)
  qed
next
  case (nq_try_notify msg ok q)
  then show ?thesis using assms(2)
    by (auto simp: nq_run_inv_def nq_bounded_def try_add_notify_def do_add_notification_def nq_inv_add_event
        has_space_def Let_def split: if_splits)
next
  case (nq_notify msg q)
  then show ?thesis using assms(2)
    by (auto simp: nq_run_inv_def nq_bounded_def add_notify_def do_add_notification_def nq_inv_add_event
        has_space_def Let_def split: if_splits)
next
  case (nq_read es q)
  then have "nq_inv q" using assms(2) nq_inv_read by (auto simp: nq_run_inv_def)
  then show ?thesis using assms(2) nq_read
    by (auto simp: nq_run_inv_def nq_bounded_def read_events_def Let_def split: if_splits)
qed

lemma nq_reachable_inv: "nq_reachable n r \<Longrightarrow> nq_run_inv n r"
proof (induction rule: nq_reachable.induct)
  case (nq_start q)
  then show ?case using nq_inv_init by (auto simp: nq_run_inv_def nq_bounded_def)
qed (rule nq_step_inv)

text \<open>
  C20. Every notification the queue accepted is read exactly once and in the order of arrival, whatever the
  interleaving of connection and consumer; the two events the coroutines wait on are set exactly when
  reading and adding are possible, so that neither side waits for ever; and the queue never holds more than
  two events above its limit, however often the connection is lost while nobody reads.
\<close>

theorem notifications_delivered:
  assumes "nq_reachable n r"
  shows "notifications (nu_read r @ nq_pending (nu_queue r)) = map notify_event (nu_accepted r) \<and>
    (nq_events_available (nu_queue r) \<longleftrightarrow> read_events (nu_queue r) \<noteq> None) \<and>
    (nq_space_available (nu_queue r) \<longleftrightarrow> add_notify msg (nu_queue r) \<noteq> None) \<and>
    length (nq_pending (nu_queue r)) \<le> n + 2"
  using nq_reachable_inv [OF assms]
  by (auto simp: nq_run_inv_def nq_inv_def nq_bounded_def read_events_def add_notify_def Let_def split: if_splits)

lemma sample_notification_run:
  "nq_reachable 1 \<lparr>nu_queue = add_disconnect (add_connect \<lparr>nq_max_pending = 1, nq_pending = [], nq_events_available = False,
     nq_space_available = True\<rparr>), nu_connected = False, nu_read = [], nu_accepted = []\<rparr>"
proof -
  let ?q = "\<lparr>nq_max_pending = 1, nq_pending = [], nq_events_available = False, nq_space_available = True\<rparr>"
  have "nq_reachable 1 \<lparr>nu_queue = ?q, nu_connected = False, nu_read = [], nu_accepted = []\<rparr>"
    by (rule nq_start) (simp add: notification_queue_init_def)
  then have "nq_reachable 1 \<lparr>nu_queue = add_connect ?q, nu_connected = True, nu_read = [], nu_accepted = []\<rparr>"
    by (rule nq_next) (use nq_connect [of "\<lparr>nu_queue = ?q, nu_connected = False, nu_read = [], nu_accepted = []\<rparr>"] in simp)
  then show ?thesis
    by (rule nq_next)
      (use nq_disconnect [of "\<lparr>nu_queue = add_connect ?q, nu_connected = True, nu_read = [], nu_accepted = []\<rparr>"] in simp)
qed

theorem notifications_delivered_witness:
  "length (nq_pending (add_disconnect (add_connect \<lparr>nq_max_pending = 1, nq_pending = [], nq_events_available = False,
     nq_space_available = True\<rparr>))) \<le> 1 + 2"
  using notifications_delivered [OF sample_notification_run] by simp

end
