(* ===== verification/Pg_Multiplexed.thy ===== *)
theory Pg_Multiplexed
  imports Pg_Exec_Some Pg_Multiplexer_Facts Pg_Notification
begin

text \<open>
  The multiplexed connection of \<^verbatim>\<open>co_multiplexed_connection.cpp\<close>: the coroutines that connect a connection,
  the multiplexer and the notification queue, cut at their suspension points. The reader hands
  notifications to the queue and everything else to the multiplexer; the writer writes what the multiplexer
  has prepared and sleeps on an event when there is nothing; \<^verbatim>\<open>exec\<close> adds a request, wakes the writer and
  waits. A step returns \<open>None\<close> where an assertion fails.
\<close>

section \<open>The connection\<close>

record co_multiplexed_connection =
  mc_st :: connection_state
  mc_mpx :: multiplexer
  mc_write_evt :: bool
  mc_notif_queue :: notification_queue

text \<open>A turn of the writer: the bytes to write, or nothing where it goes to sleep on its event.\<close>

definition writer_turn :: "co_multiplexed_connection \<Rightarrow> (bytes option \<times> co_multiplexed_connection) option" where
  "writer_turn c =
     (case mx_prepare_write (mc_mpx c) of
        None \<Rightarrow> None
      | Some m \<Rightarrow>
          (let buff = mx_write_buffer m; c1 = c\<lparr>mc_mpx := m\<rparr>
           in if buff = [] then Some (None, c1\<lparr>mc_write_evt := False\<rparr>) else Some (Some buff, c1)))"

text \<open>How a batch of the reader ends: it reads more, waits for room for a notification or returns.\<close>

datatype reader_result = Reader_reads | Reader_waits notification_response | Reader_returns

definition reader_consume :: "nat \<Rightarrow> co_multiplexed_connection \<Rightarrow> co_multiplexed_connection" where
  "reader_consume consumed c = c\<lparr>mc_st := cst_consume consumed (mc_st c)\<rparr>"

text \<open>The loop over the messages of a batch. An error of the multiplexer returns without consuming them.\<close>

function reader_loop ::
    "nat \<Rightarrow> co_multiplexed_connection \<Rightarrow> (reader_result \<times> nat \<times> co_multiplexed_connection) option" where
  "reader_loop consumed c =
     (let res = parse_message (drop consumed (buffered (mc_st c)))
      in case pmr_ec res of
           Some ec \<Rightarrow>
             Some (if ec = Client needs_more then Reader_reads else Reader_returns, consumed, reader_consume consumed c)
         | None \<Rightarrow>
             (let consumed' = consumed + pmr_size res
              in case pmr_message res of
                   Notification_response n \<Rightarrow>
                     (let (ok, q) = try_add_notify n (mc_notif_queue c)
                      in if \<not> ok then Some (Reader_waits n, consumed', c)
                         else reader_loop consumed' (c\<lparr>mc_notif_queue := q\<rparr>))
                 | msg \<Rightarrow>
                     (case mx_on_message msg (mc_mpx c) of
                        None \<Rightarrow> None
                      | Some (ec, m) \<Rightarrow>
                          if ec \<noteq> None then Some (Reader_returns, consumed', c\<lparr>mc_mpx := m\<rparr>)
                          else reader_loop consumed' (c\<lparr>mc_mpx := m\<rparr>))))"
  by pat_completeness auto
termination
  by (relation "measure (\<lambda>(consumed, c). length (buffered (mc_st c)) - consumed)") (simp_all add: unread_shorter)

declare reader_loop.simps [simp del]

text \<open>The reader after it waited for room: the notification is added and the batch goes on.\<close>

definition reader_resume ::
    "notification_response \<Rightarrow> nat \<Rightarrow> co_multiplexed_connection \<Rightarrow> (reader_result \<times> nat \<times> co_multiplexed_connection) option" where
  "reader_resume n consumed c =
     (case add_notify n (mc_notif_queue c) of
        None \<Rightarrow> Some (Reader_waits n, consumed, c)
      | Some q \<Rightarrow> reader_loop consumed (c\<lparr>mc_notif_queue := q\<rparr>))"

text \<open>\<^verbatim>\<open>run\<close> once a session is established, and after it was lost.\<close>

definition run_connected :: "co_multiplexed_connection \<Rightarrow> co_multiplexed_connection" where
  "run_connected c = c\<lparr>mc_notif_queue := add_connect (mc_notif_queue c)\<rparr>"

definition run_lost :: "co_multiplexed_connection \<Rightarrow> co_multiplexed_connection option" where
  "run_lost c =
     (case mx_cleanup (mc_mpx c) of
        None \<Rightarrow> None
      | Some m \<Rightarrow> Some (c\<lparr>mc_mpx := m, mc_notif_queue := add_disconnect (mc_notif_queue c)\<rparr>))"

text \<open>\<^verbatim>\<open>exec\<close> up to its wait, and after it: the request is done, or is cancelled where it is not.\<close>

definition mc_submit :: "request \<Rightarrow> co_multiplexed_connection \<Rightarrow> nat \<times> co_multiplexed_connection" where
  "mc_submit req c = (case mx_add req (mc_mpx c) of (elm, m) \<Rightarrow> (elm, c\<lparr>mc_mpx := m, mc_write_evt := True\<rparr>))"

definition mc_exec ::
    "'s handler_ops \<Rightarrow> request \<Rightarrow> 's \<Rightarrow> co_multiplexed_connection \<Rightarrow>
     ((error_code + nat) \<times> 's \<times> co_multiplexed_connection) option" where
  "mc_exec ops req handler c =
     (case setup_request ops req handler of
        Inl fault \<Rightarrow> None
      | Inr (Some ec, h) \<Rightarrow> Some (Inl ec, h, c)
      | Inr (None, h) \<Rightarrow>
          (case mc_submit req c of (elm, c') \<Rightarrow> Some (Inr elm, h, c')))"

definition done_result :: "nat \<Rightarrow> mx_event list \<Rightarrow> error_code option option" where
  "done_result elm evs =
     (case filter (\<lambda>e. case e of On_done i ec \<Rightarrow> i = elm | _ \<Rightarrow> False) evs of
        On_done i ec # _ \<Rightarrow> Some ec
      | _ \<Rightarrow> None)"

definition mc_exec_wake ::
    "error_code option \<Rightarrow> nat \<Rightarrow> co_multiplexed_connection \<Rightarrow> (error_code option \<times> co_multiplexed_connection) option" where
  "mc_exec_wake handler_code elm c =
     (case done_result elm (mx_events (mc_mpx c)) of
        Some ec \<Rightarrow> Some (if ec \<noteq> None then ec else handler_code, c)
      | None \<Rightarrow> (case mx_cancel elm (mc_mpx c) of
                    None \<Rightarrow> None
                  | Some m \<Rightarrow> Some (Some Operation_canceled, c\<lparr>mc_mpx := m\<rparr>)))"

end
