(* ===== verification/Pg_Multiplexed_Facts.thy ===== *)
theory Pg_Multiplexed_Facts
  imports Pg_Multiplexed
begin

text \<open>
  The reader separates the stream: notifications go to the queue and everything else to the multiplexer,
  each in the order of the server. The coroutines do not lose wake-ups: while the writer sleeps, no request
  waits to be written.
\<close>

section \<open>The reader\<close>

definition notified :: "any_backend_message \<Rightarrow> notification_response list" where
  "notified m = (case m of Notification_response n \<Rightarrow> [n] | _ \<Rightarrow> [])"

text \<open>The multiplexer on a sequence of messages without an error.\<close>

fun mx_messages :: "any_backend_message list \<Rightarrow> multiplexer \<Rightarrow> multiplexer option" where
  "mx_messages [] m = Some m"
| "mx_messages (x # xs) m =
     (case mx_on_message x m of Some (None, m') \<Rightarrow> mx_messages xs m' | _ \<Rightarrow> None)"

lemma notified_cases:
  obtains n where "m = Notification_response n" "notified m = [n]"
  | "notified m = []" "\<And>n. m \<noteq> Notification_response n"
  by (cases m) (auto simp: notified_def)

lemma reader_loop_unfold:
  assumes "pmr_ec (parse_message (drop k (buffered (mc_st c)))) = None"
  shows "pmr_message (parse_message (drop k (buffered (mc_st c)))) = Notification_response n \<Longrightarrow>
      has_space (mc_notif_queue c) \<Longrightarrow>
      reader_loop k c = reader_loop (k + pmr_size (parse_message (drop k (buffered (mc_st c)))))
        (c\<lparr>mc_notif_queue := do_add_notification n (mc_notif_queue c)\<rparr>)"
    and "notified (pmr_message (parse_message (drop k (buffered (mc_st c))))) = [] \<Longrightarrow>
      mx_on_message (pmr_message (parse_message (drop k (buffered (mc_st c))))) (mc_mpx c) = Some (None, m) \<Longrightarrow>
      reader_loop k c = reader_loop (k + pmr_size (parse_message (drop k (buffered (mc_st c))))) (c\<lparr>mc_mpx := m\<rparr>)"
    and "notified (pmr_message (parse_message (drop k (buffered (mc_st c))))) = [] \<Longrightarrow>
      mx_on_message (pmr_message (parse_message (drop k (buffered (mc_st c))))) (mc_mpx c) = Some (Some ec, m) \<Longrightarrow>
      reader_loop k c = Some (Reader_returns, k + pmr_size (parse_message (drop k (buffered (mc_st c)))), c\<lparr>mc_mpx := m\<rparr>)"
  using assms
  by (subst reader_loop.simps, simp add: try_add_notify_def notified_def Let_def split: any_backend_message.splits)+

text \<open>The messages of a batch one after the other.\<close>

lemma reader_prefix:
  assumes "drain parse_message (drop k (buffered (mc_st c))) = (ms @ later, rest, e)"
    and "mx_messages (filter (\<lambda>m. notified m = []) ms) (mc_mpx c) = Some m'"
    and "length (nq_pending (mc_notif_queue c)) + length (concat (map notified ms)) \<le> nq_max_pending (mc_notif_queue c)"
  shows "\<exists>k' q. reader_loop k c = reader_loop k' (c\<lparr>mc_mpx := m', mc_notif_queue := q\<rparr>) \<and>
    drain parse_message (drop k' (buffered (mc_st c))) = (later, rest, e) \<and>
    nq_pending q = nq_pending (mc_notif_queue c) @ map notify_event (concat (map notified ms))"
  using assms
proof (induction ms arbitrary: k c)
  case Nil
  have "c\<lparr>mc_mpx := m', mc_notif_queue := mc_notif_queue c\<rparr> = c" using Nil.prems(2) by (cases c) simp
  then show ?case using Nil.prems(1) by (intro exI [of _ k] exI [of _ "mc_notif_queue c"]) simp
next
  case (Cons m ms)
  let ?r = "parse_message (drop k (buffered (mc_st c)))"
  from Cons.prems(1) have r: "pmr_ec ?r = None" "pmr_message ?r = m"
    and ms: "drain parse_message (drop (k + pmr_size ?r) (buffered (mc_st c))) = (ms @ later, rest, e)"
    by (subst (asm) msg.drain_unfold, auto split: option.splits if_splits prod.splits simp: add.commute)+
  note step = reader_loop_unfold [OF r(1), unfolded r(2)]
  show ?case
  proof (cases m rule: notified_cases)
    case (1 n)
    let ?c = "c\<lparr>mc_notif_queue := do_add_notification n (mc_notif_queue c)\<rparr>"
    have "has_space (mc_notif_queue c)" using Cons.prems(3) 1(2) by (simp add: has_space_def)
    from step(1) [OF 1(1) this] show ?thesis
      using Cons.IH [of "k + pmr_size ?r" ?c] ms Cons.prems(2,3) 1(2) by (simp add: do_add_notification_def)
  next
    case 2
    then obtain m1 where m1: "mx_on_message m (mc_mpx c) = Some (None, m1)"
      "mx_messages (filter (\<lambda>m. notified m = []) ms) m1 = Some m'"
      using Cons.prems(2) by (auto split: option.splits)
    from step(2) [OF 2(1) m1(1)] show ?thesis
      using Cons.IH [of "k + pmr_size ?r" "c\<lparr>mc_mpx := m1\<rparr>"] ms Cons.prems(3) m1(2) 2(1) by simp
  qed
qed

lemma drain_Nil:
  assumes "drain parse_message bs = ([], rest, None)"
  shows "pmr_ec (parse_message bs) = Some (Client needs_more)" "rest = bs"
  using assms by (subst (asm) msg.drain_unfold, auto split: option.splits if_splits prod.splits)+

lemma drain_Cons:
  assumes "drain parse_message bs = (m # ms, rest, e)"
  shows "pmr_ec (parse_message bs) = None" "pmr_message (parse_message bs) = m"
  using assms by (subst (asm) msg.drain_unfold, auto split: option.splits if_splits prod.splits)+


text \<open>
  C38. When the multiplexer reports an error for a message the reader returns without consuming what it has
  read: every message of the batch is still in the read buffer, which nothing clears before the next session
  is started on it.
\<close>

theorem reader_error_keeps_bytes:
  assumes "drain parse_message (buffered (mc_st c)) = (ms @ m # later, rest, e)"
    and "mx_messages (filter (\<lambda>m. notified m = []) ms) (mc_mpx c) = Some m1"
    and "length (nq_pending (mc_notif_queue c)) + length (concat (map notified ms)) \<le> nq_max_pending (mc_notif_queue c)"
    and "notified m = []" and "mx_on_message m m1 = Some (Some ec, m2)"
  shows "\<exists>n c'. reader_loop 0 c = Some (Reader_returns, n, c') \<and> mc_mpx c' = m2 \<and> mc_st c' = mc_st c \<and>
    (case run_lost c' of None \<Rightarrow> True | Some c'' \<Rightarrow> buffered (mc_st c'') = buffered (mc_st c))"
proof -
  from reader_prefix [of 0 c ms "m # later" rest e m1] assms(1-3) obtain k q where
    k: "reader_loop 0 c = reader_loop k (c\<lparr>mc_mpx := m1, mc_notif_queue := q\<rparr>)"
      "drain parse_message (drop k (buffered (mc_st c))) = (m # later, rest, e)" by auto
  let ?c = "c\<lparr>mc_mpx := m1, mc_notif_queue := q\<rparr>"
  obtain n where "reader_loop k ?c = Some (Reader_returns, n, ?c\<lparr>mc_mpx := m2\<rparr>)"
    using reader_loop_unfold(3) [of k ?c] drain_Cons [OF k(2)] assms(4,5) by simp
  then show ?thesis unfolding k(1)
    by (intro exI [of _ n] exI [of _ "?c\<lparr>mc_mpx := m2\<rparr>"]) (simp add: run_lost_def split: option.split)
qed

section \<open>Wake-ups\<close>

text \<open>
  The coroutines on a connection. \<open>mr_sleeping\<close> tells that the writer waits on its event, \<open>mr_up\<close> that there
  is a session. What the users and the server guarantee is as for the multiplexer: requests are checked
  before they are added, only requests that are neither done nor cancelled are waited for, and the server
  answers only what was asked.
\<close>

record multiplexed_run =
  mr_conn :: co_multiplexed_connection
  mr_sleeping :: bool
  mr_up :: bool

datatype mc_op =
    Mc_submit request
  | Mc_wake "error_code option" nat
  | Mc_write
  | Mc_write_evt
  | Mc_message any_backend_message
  | Mc_connected
  | Mc_lost

abbreviation mr_mpx :: "multiplexed_run \<Rightarrow> multiplexer" where
  "mr_mpx r \<equiv> mc_mpx (mr_conn r)"

definition mc_legal :: "mc_op \<Rightarrow> multiplexed_run \<Rightarrow> bool" where
  "mc_legal opn r =
     (case opn of
        Mc_submit req \<Rightarrow> check_request req = None
      | Mc_wake code i \<Rightarrow> i \<in> waiting (mr_mpx r) \<or> i \<in> set (done_ids (mx_events (mr_mpx r)))
      | Mc_write \<Rightarrow> mr_up r \<and> \<not> mr_sleeping r
      | Mc_write_evt \<Rightarrow> mr_sleeping r \<and> mc_write_evt (mr_conn r)
      | Mc_message m \<Rightarrow> mr_up r \<and> notified m = [] \<and> (is_async_message m \<or> 0 < outstanding (mr_mpx r))
      | Mc_connected \<Rightarrow> \<not> mr_up r
      | Mc_lost \<Rightarrow> mr_up r)"

definition mc_apply :: "mc_op \<Rightarrow> multiplexed_run \<Rightarrow> multiplexed_run option" where
  "mc_apply opn r =
     (let c = mr_conn r
      in case opn of
           Mc_submit req \<Rightarrow> Some (r\<lparr>mr_conn := snd (mc_submit req c)\<rparr>)
         | Mc_wake code i \<Rightarrow> map_option (\<lambda>(ec, c'). r\<lparr>mr_conn := c'\<rparr>) (mc_exec_wake code i c)
         | Mc_write \<Rightarrow> map_option (\<lambda>(out, c'). r\<lparr>mr_conn := c', mr_sleeping := (out = None)\<rparr>) (writer_turn c)
         | Mc_write_evt \<Rightarrow> Some (r\<lparr>mr_sleeping := False\<rparr>)
         | Mc_message m \<Rightarrow> map_option (\<lambda>(ec, mx). r\<lparr>mr_conn := c\<lparr>mc_mpx := mx\<rparr>\<rparr>) (mx_on_message m (mc_mpx c))
         | Mc_connected \<Rightarrow> Some (r\<lparr>mr_conn := run_connected c, mr_up := True, mr_sleeping := False\<rparr>)
         | Mc_lost \<Rightarrow> map_option (\<lambda>c'. r\<lparr>mr_conn := c', mr_up := False, mr_sleeping := False\<rparr>) (run_lost c))"

inductive mc_reachable :: "multiplexed_run \<Rightarrow> bool" where
  mc_reach_init: "notification_queue_init 256 = Some q \<Longrightarrow>
     mc_reachable \<lparr>mr_conn = \<lparr>mc_st = st, mc_mpx = multiplexer_init, mc_write_evt = False, mc_notif_queue = q\<rparr>,
       mr_sleeping = False, mr_up = False\<rparr>"
| mc_reach_step: "mc_reachable r \<Longrightarrow> mc_legal opn r \<Longrightarrow> mc_apply opn r = Some r' \<Longrightarrow> mc_reachable r'"

text \<open>\<^verbatim>\<open>exec\<close> finds its result in the log exactly when the request is done.\<close>

lemma done_result_iff: "done_result i evs = None \<longleftrightarrow> i \<notin> set (done_ids evs)"
proof -
  have "filter (\<lambda>e. case e of On_done j ec \<Rightarrow> j = i | _ \<Rightarrow> False) evs = [] \<longleftrightarrow> i \<notin> set (done_ids evs)"
    by (induction evs) (auto split: mx_event.splits)
  moreover have "\<exists>ec. e = On_done i ec" if "e \<in> set (filter (\<lambda>e. case e of On_done j ec \<Rightarrow> j = i | _ \<Rightarrow> False) evs)" for e
    using that by (auto split: mx_event.splits)
  ultimately show ?thesis unfolding done_result_def
    by (cases "filter (\<lambda>e. case e of On_done j ec \<Rightarrow> j = i | _ \<Rightarrow> False) evs") (auto split: mx_event.splits)
qed

definition mc_inv :: "multiplexed_run \<Rightarrow> bool" where
  "mc_inv r \<longleftrightarrow> mx_reachable (mr_mpx r) \<and>
     (mr_sleeping r \<and> \<not> mc_write_evt (mr_conn r) \<longrightarrow> mx_num_pending (mr_mpx r) = 0)"

lemma mx_op_reachable:
  assumes "mx_reachable m" and "mx_legal opn m"
  obtains m' where "mx_apply opn m = Some m'" "mx_reachable m'"
  using mx_apply_ok [OF mx_reachable_inv [OF assms(1)] assms(2)] mx_reach_step [OF assms] by blast

lemma num_pending_kept:
  "mx_on_message msg m = Some (ec, m') \<Longrightarrow> mx_num_pending m' = mx_num_pending m"
  "mx_cancel i m = Some m' \<Longrightarrow> mx_num_pending m' = mx_num_pending m"
  "mx_cleanup m = Some m' \<Longrightarrow> mx_num_pending m' = mx_num_pending m"
  "mx_prepare_write m = Some m' \<Longrightarrow> mx_num_pending m' = 0"
  by (auto simp: mx_on_message_def mx_cancel_def mx_cleanup_def mx_prepare_write_def split: if_splits option.splits)

lemma mc_op_ok:
  assumes "mc_inv r" and "mc_legal opn r"
  shows "\<exists>r'. mc_apply opn r = Some r' \<and> mc_inv r'"
proof -
  have m: "mx_reachable (mr_mpx r)" using assms(1) by (simp add: mc_inv_def)
  note inv = assms(1) [unfolded mc_inv_def] and defs = mc_apply_def mc_inv_def Let_def
  show ?thesis
  proof (cases opn)
    case (Mc_submit req)
    then have "mx_legal (Op_add req) (mr_mpx r)" using assms(2) by (simp add: mc_legal_def)
    from mx_op_reachable [OF m this] obtain m' where "snd (mx_add req (mr_mpx r)) = m'" "mx_reachable m'" by auto
    then show ?thesis using Mc_submit by (auto simp: defs mc_submit_def split: prod.splits)
  next
    case (Mc_wake code i)
    show ?thesis
    proof (cases "i \<in> set (done_ids (mx_events (mr_mpx r)))")
      case True
      then obtain ec where "done_result i (mx_events (mr_mpx r)) = Some ec" using done_result_iff by fastforce
      then show ?thesis using Mc_wake inv by (simp add: defs mc_exec_wake_def)
    next
      case False
      then have "mx_legal (Op_cancel i) (mr_mpx r)" using assms(2) Mc_wake by (simp add: mc_legal_def)
      from mx_op_reachable [OF m this] obtain m' where m': "mx_cancel i (mr_mpx r) = Some m'" "mx_reachable m'" by auto
      moreover have "done_result i (mx_events (mr_mpx r)) = None" using False done_result_iff by blast
      ultimately show ?thesis
        using Mc_wake inv num_pending_kept(2) [OF m'(1)] by (simp add: defs mc_exec_wake_def)
    qed
  next
    case Mc_write
    from mx_op_reachable [OF m, of Op_prepare_write] obtain m' where
      m': "mx_prepare_write (mr_mpx r) = Some m'" "mx_reachable m'" by auto
    then show ?thesis using Mc_write num_pending_kept(4) [OF m'(1)] by (simp add: defs writer_turn_def)
  next
    case Mc_write_evt
    then show ?thesis using inv by (simp add: defs)
  next
    case (Mc_message msg)
    then have "mx_legal (Op_message msg) (mr_mpx r)" using assms(2) by (simp add: mc_legal_def)
    from mx_op_reachable [OF m this] obtain m' where r': "mx_apply (Op_message msg) (mr_mpx r) = Some m'" "mx_reachable m'" .
    then obtain ec where m': "mx_on_message msg (mr_mpx r) = Some (ec, m')" by auto
    then show ?thesis using Mc_message inv num_pending_kept(1) [OF m'] r'(2) by (simp add: defs)
  next
    case Mc_connected
    then show ?thesis using inv by (simp add: defs run_connected_def)
  next
    case Mc_lost
    from mx_op_reachable [OF m, of Op_cleanup] obtain m' where "mx_cleanup (mr_mpx r) = Some m'" "mx_reachable m'" by auto
    then show ?thesis using Mc_lost by (simp add: defs run_lost_def)
  qed
qed

lemma mc_reachable_inv: "mc_reachable r \<Longrightarrow> mc_inv r"
proof (induction rule: mc_reachable.induct)
  case (mc_reach_init q st)
  then show ?case by (simp add: mc_inv_def mx_reach_init)
next
  case (mc_reach_step r opn r')
  then show ?case using mc_op_ok by fastforce
qed

text \<open>
  C8. The coroutines of a multiplexed connection work together without a failed assertion and without a lost
  wake-up, in every interleaving: each step that can be taken is carried out, and while the writer sleeps on
  an event that is not set no request is waiting to be written, so every request that is added is written
  as soon as the writer runs.
\<close>

theorem multiplexed_no_lost_wakeup:
  assumes "mc_reachable r" and "mc_legal opn r"
  shows "(\<exists>r'. mc_apply opn r = Some r') \<and>
    (mr_sleeping r \<and> \<not> mc_write_evt (mr_conn r) \<longrightarrow> (\<forall>e \<in> set (mx_elems (mr_mpx r)). me_status e \<noteq> pending))"
proof -
  have inv: "mc_inv r" using assms(1) by (rule mc_reachable_inv)
  have mx: "mx_inv (mr_mpx r)" using inv mx_reachable_inv by (simp add: mc_inv_def)
  have "\<forall>e \<in> set (mx_elems (mr_mpx r)). me_status e \<noteq> pending" if "mx_num_pending (mr_mpx r) = 0"
  proof -
    have "mx_elems (mr_mpx r) = mx_written (mr_mpx r)" using that by (simp add: mx_written_def)
    then show ?thesis using mx stream_not_pending by (auto simp: mx_inv_def)
  qed
  then show ?thesis using mc_op_ok [OF inv assms(2)] inv by (auto simp: mc_inv_def)
qed

section \<open>Examples\<close>

text \<open>A ReadyForQuery, a notification and two bytes of the next message.\<close>

definition mixed_bytes :: bytes where
  "mixed_bytes = [0x41, 0, 0, 0, 12, 0, 0, 0, 7, 0x63, 0, 0x70, 0, 0x5a, 0, 0, 0, 5, 0x49, 0x5a, 0]"

definition mixed_connection :: "multiplexer \<Rightarrow> co_multiplexed_connection" where
  "mixed_connection m =
     \<lparr>mc_st = empty_state\<lparr>cst_read_buffer := \<lparr>rb_size = 21, rb_committed_offset = 0, rb_prepared_offset = 21,
        rb_buffer = mixed_bytes\<rparr>\<rparr>,
      mc_mpx = m, mc_write_evt = False,
      mc_notif_queue = \<lparr>nq_max_pending = 256, nq_pending = [], nq_events_available = False, nq_space_available = True\<rparr>\<rparr>"

text \<open>A multiplexer that ignores the answer to a cancelled request.\<close>

definition ignoring_one :: multiplexer where
  "ignoring_one = multiplexer_init\<lparr>mx_elems := [\<lparr>me_id = 0, me_req = None, me_status = abandoned_in_flight, me_num_rfq = 1\<rparr>],
     mx_next_id := 1\<rparr>"

definition mixed_note :: notification_response where
  "mixed_note = (case drain parse_message mixed_bytes of (Notification_response n # _, _) \<Rightarrow> n)"

lemma mixed_drain: "drain parse_message mixed_bytes =
    ([Notification_response mixed_note, Ready_for_query status_idle], [0x5a, 0], None)"
  by code_simp

lemma mixed_buffered: "buffered (mc_st (mixed_connection m)) = mixed_bytes" "rb_inv (cst_read_buffer (mc_st (mixed_connection m)))"
  by (simp_all add: mixed_connection_def committed_area_def rb_inv_def mixed_bytes_def)


theorem reader_error_keeps_bytes_witness:
  "\<exists>n c'. reader_loop 0 (mixed_connection multiplexer_init) = Some (Reader_returns, n, c') \<and> buffered (mc_st c') = mixed_bytes"
proof -
  let ?m = "multiplexer_init\<lparr>mx_elems := []\<rparr>"
  have "mx_on_message (Ready_for_query status_idle) multiplexer_init = Some (Some (Client unmatched_request), multiplexer_init)"
    by (simp add: mx_on_message_def multiplexer_init_def stream_begin_def)
  moreover have "drain parse_message (buffered (mc_st (mixed_connection multiplexer_init))) =
      ([Notification_response mixed_note] @ Ready_for_query status_idle # [], [0x5a, 0], None)"
    unfolding mixed_buffered by (simp add: mixed_drain)
  ultimately obtain n c' where "reader_loop 0 (mixed_connection multiplexer_init) = Some (Reader_returns, n, c')"
    "mc_st c' = mc_st (mixed_connection multiplexer_init)"
    using reader_error_keeps_bytes [of "mixed_connection multiplexer_init" "[Notification_response mixed_note]"
        "Ready_for_query status_idle" "[]" "[0x5a, 0]" None multiplexer_init]
    by (auto simp: notified_def mixed_connection_def)
  then show ?thesis using mixed_buffered(1) by auto
qed

fun mc_apply_all :: "mc_op list \<Rightarrow> multiplexed_run \<Rightarrow> multiplexed_run option" where
  "mc_apply_all [] r = Some r"
| "mc_apply_all (opn # opns) r =
     (if mc_legal opn r then case mc_apply opn r of None \<Rightarrow> None | Some r' \<Rightarrow> mc_apply_all opns r' else None)"

lemma mc_apply_all_reachable:
  assumes "mc_reachable r" and "mc_apply_all opns r = Some r'"
  shows "mc_reachable r'"
  using assms by (induction opns r rule: mc_apply_all.induct) (auto split: if_splits option.splits intro: mc_reach_step)

definition fresh_run :: multiplexed_run where
  "fresh_run = \<lparr>mr_conn = mixed_connection multiplexer_init, mr_sleeping = False, mr_up = False\<rparr>"

text \<open>A request is added before there is a session; the writer writes it and goes to sleep.\<close>

definition sleeping_run :: multiplexed_run where
  "sleeping_run = the (mc_apply_all [Mc_submit one_query, Mc_connected, Mc_write, Mc_write] fresh_run)"

lemmas mc_run_defs = mc_legal_def mc_apply_def mc_submit_def mx_add_def run_connected_def writer_turn_def
  mx_prepare_write_def pending_offset_def multiplexer_init_def Let_def

lemma sleeping_run_eq:
  "mc_apply_all [Mc_submit one_query, Mc_connected, Mc_write, Mc_write] fresh_run =
    Some (fresh_run\<lparr>mr_conn := (run_connected (mixed_connection multiplexer_init))
      \<lparr>mc_mpx := multiplexer_init\<lparr>mx_elems := [\<lparr>me_id = 0, me_req = Some one_query, me_status = in_flight, me_num_rfq = 0\<rparr>],
        mx_next_id := 1\<rparr>\<rparr>, mr_sleeping := True, mr_up := True\<rparr>)"
  by (simp add: fresh_run_def mixed_connection_def mc_run_defs one_query_checked)

lemma sleeping_reachable: "mc_reachable sleeping_run"
proof (rule mc_apply_all_reachable)
  show "mc_reachable fresh_run" unfolding fresh_run_def mixed_connection_def
    by (rule mc_reach_init) (simp add: notification_queue_init_def)
  show "mc_apply_all [Mc_submit one_query, Mc_connected, Mc_write, Mc_write] fresh_run = Some sleeping_run"
    unfolding sleeping_run_def by (simp only: sleeping_run_eq option.sel)
qed

theorem multiplexed_no_lost_wakeup_witness:
  "(\<exists>r'. mc_apply (Mc_submit one_query) sleeping_run = Some r') \<and>
    list_all (\<lambda>e. me_status e \<noteq> pending) (mx_elems (mr_mpx sleeping_run)) \<and> length (mx_elems (mr_mpx sleeping_run)) = 1"
proof -
  have "mc_legal (Mc_submit one_query) sleeping_run" by (simp add: mc_legal_def one_query_checked)
  moreover have "mr_sleeping sleeping_run \<and> \<not> mc_write_evt (mr_conn sleeping_run)"
    "length (mx_elems (mr_mpx sleeping_run)) = 1"
    by (simp_all add: sleeping_run_def sleeping_run_eq run_connected_def mixed_connection_def del: mc_apply_all.simps)
  ultimately show ?thesis
    using multiplexed_no_lost_wakeup [OF sleeping_reachable, of "Mc_submit one_query"] by (simp add: list_all_iff)
qed

end
