(* ===== verification/Pg_Pool.thy ===== *)
theory Pg_Pool
  imports Pg_Startup
begin

text \<open>
  The connection pool: the node state machine of \<^verbatim>\<open>connection_pool/sansio_connection_node.hpp\<close>, the nodes
  and the state they share of \<^verbatim>\<open>connection_node.hpp\<close>, and the pool of \<^verbatim>\<open>connection_pool_impl.hpp\<close> with
  the check of its parameters. A node is its position in the list \<^verbatim>\<open>all_conns_\<close>, which only grows. The
  coroutines are cut at their suspension points: each piece between two of them is one operation. Waiting on
  a timer or an event suspends a coroutine until something resumes it; which one is resumed when is left
  open. An operation returns \<open>None\<close> where an assertion fails, a counter would fall below zero or an element
  that is not in the idle list would be erased from it.
\<close>

section \<open>The node state machine\<close>

datatype node_status =
    node_initial
  | connect_in_progress
  | sleep_connect_failed_in_progress
  | reset_in_progress
  | ping_in_progress
  | node_idle
  | node_in_use
  | node_terminated

datatype next_connection_action =
    act_none
  | act_connect
  | act_sleep_connect_failed
  | act_idle_wait
  | act_reset
  | act_ping

datatype collection_state = collection_none | needs_collect | needs_collect_with_reset

text \<open>The calls of the derived class that \<^verbatim>\<open>set_status\<close> makes, in their order.\<close>

datatype node_hook = entering_idle | exiting_idle | entering_pending | exiting_pending

definition is_pending :: "node_status \<Rightarrow> bool" where
  "is_pending status \<longleftrightarrow> status \<noteq> node_initial \<and> status \<noteq> node_idle \<and> status \<noteq> node_in_use \<and> status \<noteq> node_terminated"

definition status_to_action :: "node_status \<Rightarrow> next_connection_action" where
  "status_to_action status =
     (case status of
        connect_in_progress \<Rightarrow> act_connect
      | sleep_connect_failed_in_progress \<Rightarrow> act_sleep_connect_failed
      | ping_in_progress \<Rightarrow> act_ping
      | reset_in_progress \<Rightarrow> act_reset
      | node_idle \<Rightarrow> act_idle_wait
      | node_in_use \<Rightarrow> act_idle_wait
      | _ \<Rightarrow> act_none)"

definition set_status_hooks :: "node_status \<Rightarrow> node_status \<Rightarrow> node_hook list" where
  "set_status_hooks status new_status =
     (if new_status = node_idle \<and> status \<noteq> node_idle then [entering_idle]
      else if new_status \<noteq> node_idle \<and> status = node_idle then [exiting_idle] else []) @
     (if \<not> is_pending status \<and> is_pending new_status then [entering_pending]
      else if is_pending status \<and> \<not> is_pending new_status then [exiting_pending] else [])"

text \<open>
  The status \<^verbatim>\<open>resume\<close> sets, if it sets one. A connection that is in use and was not returned waits on
  without a change of status.
\<close>

definition resume_status :: "node_status \<Rightarrow> error_code option \<Rightarrow> collection_state \<Rightarrow> node_status option" where
  "resume_status status ec col_st =
     (case status of
        node_initial \<Rightarrow> Some connect_in_progress
      | connect_in_progress \<Rightarrow> Some (if ec \<noteq> None then sleep_connect_failed_in_progress else node_idle)
      | sleep_connect_failed_in_progress \<Rightarrow> Some connect_in_progress
      | node_idle \<Rightarrow> Some ping_in_progress
      | node_in_use \<Rightarrow>
          (case col_st of
             needs_collect \<Rightarrow> Some node_idle
           | needs_collect_with_reset \<Rightarrow> Some reset_in_progress
           | collection_none \<Rightarrow> None)
      | ping_in_progress \<Rightarrow> Some (if ec \<noteq> None then connect_in_progress else node_idle)
      | reset_in_progress \<Rightarrow> Some (if ec \<noteq> None then connect_in_progress else node_idle)
      | node_terminated \<Rightarrow> None)"

text \<open>The action where \<^verbatim>\<open>resume\<close> returns without setting a status.\<close>

definition resume_action :: "node_status \<Rightarrow> error_code option \<Rightarrow> collection_state \<Rightarrow> next_connection_action" where
  "resume_action status ec col_st =
     (case resume_status status ec col_st of
        Some new_status \<Rightarrow> status_to_action new_status
      | None \<Rightarrow> if status = node_in_use then act_idle_wait else act_none)"

definition num_connections_to_create :: "nat \<Rightarrow> nat \<Rightarrow> nat \<Rightarrow> nat \<Rightarrow> nat \<Rightarrow> nat option" where
  "num_connections_to_create initial_size max_size current_connections pending_connections pending_requests =
     (if \<not> (initial_size \<le> max_size \<and> current_connections \<le> max_size \<and> pending_connections \<le> current_connections)
      then None
      else
        (let required_by_requests =
               (if pending_requests > pending_connections then pending_requests - pending_connections else 0);
             required_by_min =
               (if current_connections < initial_size then initial_size - current_connections else 0);
             room = max_size - current_connections
         in Some (min (max required_by_requests required_by_min) room)))"

section \<open>Nodes and their shared state\<close>

record conn_shared_state =
  ss_idle_list :: "nat list"
  ss_num_pending_connections :: nat
  ss_num_pending_requests :: nat
  ss_num_running_connections :: nat

record connection_node =
  cn_status :: node_status
  cn_collection_state :: collection_state
  cn_last_act :: next_connection_action
  cn_running :: bool

definition connection_node_init :: connection_node where
  "connection_node_init =
     \<lparr>cn_status = node_initial, cn_collection_state = collection_none, cn_last_act = act_none, cn_running = False\<rparr>"

definition run_hook :: "nat \<Rightarrow> node_hook \<Rightarrow> conn_shared_state \<Rightarrow> conn_shared_state option" where
  "run_hook i h ss =
     (case h of
        entering_idle \<Rightarrow> Some (ss\<lparr>ss_idle_list := ss_idle_list ss @ [i]\<rparr>)
      | exiting_idle \<Rightarrow>
          if i \<in> set (ss_idle_list ss) then Some (ss\<lparr>ss_idle_list := remove1 i (ss_idle_list ss)\<rparr>) else None
      | entering_pending \<Rightarrow> Some (ss\<lparr>ss_num_pending_connections := ss_num_pending_connections ss + 1\<rparr>)
      | exiting_pending \<Rightarrow>
          if ss_num_pending_connections ss > 0
          then Some (ss\<lparr>ss_num_pending_connections := ss_num_pending_connections ss - 1\<rparr>) else None)"

fun run_hooks :: "nat \<Rightarrow> node_hook list \<Rightarrow> conn_shared_state \<Rightarrow> conn_shared_state option" where
  "run_hooks i [] ss = Some ss"
| "run_hooks i (h # hs) ss = (case run_hook i h ss of None \<Rightarrow> None | Some ss' \<Rightarrow> run_hooks i hs ss')"

section \<open>The pool\<close>

datatype pool_state = pool_initial | pool_running | pool_cancelled

record pool_params =
  pp_initial_size :: nat
  pp_max_size :: nat
  pp_connect_timeout :: int
  pp_retry_interval :: int
  pp_ping_interval :: int
  pp_ping_timeout :: int

record co_connection_pool_impl =
  pl_params :: pool_params
  pl_state :: pool_state
  pl_all_conns :: "connection_node list"
  pl_shared_st :: conn_shared_state
  pl_connections_needed :: bool

text \<open>The message of the exception, if one is thrown.\<close>

definition check_pool_params :: "pool_params \<Rightarrow> string option" where
  "check_pool_params params =
     (if pp_max_size params = 0 then Some ''pool_params::max_size must be greater than zero''
      else if pp_max_size params < pp_initial_size params
      then Some ''pool_params::max_size must be greater than pool_params::initial_size''
      else if pp_connect_timeout params < 0 then Some ''pool_params::connect_timeout must not be negative''
      else if pp_retry_interval params \<le> 0 then Some ''pool_params::retry_interval must be greater than zero''
      else if pp_ping_interval params < 0 then Some ''pool_params::ping_interval must not be negative''
      else if pp_ping_timeout params < 0 then Some ''pool_params::ping_timeout must not be negative''
      else None)"

definition pool_init :: "pool_params \<Rightarrow> string + co_connection_pool_impl" where
  "pool_init params =
     (case check_pool_params params of
        Some msg \<Rightarrow> Inl msg
      | None \<Rightarrow> Inr \<lparr>pl_params = params, pl_state = pool_initial, pl_all_conns = [],
          pl_shared_st = \<lparr>ss_idle_list = [], ss_num_pending_connections = 0, ss_num_pending_requests = 0,
            ss_num_running_connections = 0\<rparr>,
          pl_connections_needed = False\<rparr>)"

text \<open>\<^verbatim>\<open>set_status\<close> of the node \<open>i\<close>, with its hooks.\<close>

definition set_status :: "nat \<Rightarrow> node_status \<Rightarrow> co_connection_pool_impl \<Rightarrow> co_connection_pool_impl option" where
  "set_status i new_status p =
     (let node = pl_all_conns p ! i
      in case run_hooks i (set_status_hooks (cn_status node) new_status) (pl_shared_st p) of
           None \<Rightarrow> None
         | Some ss \<Rightarrow> Some (p\<lparr>pl_all_conns := (pl_all_conns p)[i := node\<lparr>cn_status := new_status\<rparr>], pl_shared_st := ss\<rparr>))"

definition mark_as_in_use :: "nat \<Rightarrow> co_connection_pool_impl \<Rightarrow> co_connection_pool_impl option" where
  "mark_as_in_use i p =
     (if cn_status (pl_all_conns p ! i) \<noteq> node_idle then None else set_status i node_in_use p)"

definition node_cancel :: "nat \<Rightarrow> co_connection_pool_impl \<Rightarrow> co_connection_pool_impl option" where
  "node_cancel i p = set_status i node_terminated p"

definition node_resume ::
    "nat \<Rightarrow> error_code option \<Rightarrow> collection_state \<Rightarrow> co_connection_pool_impl \<Rightarrow> co_connection_pool_impl option" where
  "node_resume i ec col_st p =
     (let status = cn_status (pl_all_conns p ! i);
          act = resume_action status ec col_st
      in case (case resume_status status ec col_st of None \<Rightarrow> Some p | Some new_status \<Rightarrow> set_status i new_status p) of
           None \<Rightarrow> None
         | Some p' \<Rightarrow> Some (p'\<lparr>pl_all_conns := (pl_all_conns p')[i := (pl_all_conns p' ! i)\<lparr>cn_last_act := act\<rparr>]\<rparr>))"

definition on_connection_start :: "conn_shared_state \<Rightarrow> conn_shared_state" where
  "on_connection_start ss = ss\<lparr>ss_num_running_connections := ss_num_running_connections ss + 1\<rparr>"

definition on_connection_finish :: "conn_shared_state \<Rightarrow> conn_shared_state option" where
  "on_connection_finish ss =
     (if ss_num_running_connections ss = 0 then None
      else Some (ss\<lparr>ss_num_running_connections := ss_num_running_connections ss - 1\<rparr>))"

text \<open>
  The loop of \<^verbatim>\<open>connection_node::run\<close> up to its next suspension: it leaves where it is asked to stop or the
  action is \<^verbatim>\<open>none\<close>. A reset does not suspend: it resumes at once, without an error.
\<close>

definition node_finish :: "nat \<Rightarrow> co_connection_pool_impl \<Rightarrow> co_connection_pool_impl option" where
  "node_finish i p =
     (case on_connection_finish (pl_shared_st p) of
        None \<Rightarrow> None
      | Some ss \<Rightarrow> Some (p\<lparr>pl_shared_st := ss,
          pl_all_conns := (pl_all_conns p)[i := (pl_all_conns p ! i)\<lparr>cn_running := False\<rparr>]\<rparr>))"

definition node_loop :: "nat \<Rightarrow> bool \<Rightarrow> co_connection_pool_impl \<Rightarrow> co_connection_pool_impl option" where
  "node_loop i stop_requested p =
     (if stop_requested then node_finish i p
      else if cn_last_act (pl_all_conns p ! i) = act_none then node_finish i p
      else if cn_last_act (pl_all_conns p ! i) = act_reset then node_resume i None collection_none p
      else Some p)"

definition node_start :: "nat \<Rightarrow> bool \<Rightarrow> co_connection_pool_impl \<Rightarrow> co_connection_pool_impl option" where
  "node_start i stop_requested p =
     (let p1 = p\<lparr>pl_shared_st := on_connection_start (pl_shared_st p),
                 pl_all_conns := (pl_all_conns p)[i := (pl_all_conns p ! i)\<lparr>cn_running := True\<rparr>]\<rparr>
      in case node_resume i None collection_none p1 of
           None \<Rightarrow> None
         | Some p2 \<Rightarrow> node_loop i stop_requested p2)"

text \<open>The awaited action of the node \<open>i\<close> has ended with \<open>ec\<close>.\<close>

definition node_action_done ::
    "nat \<Rightarrow> error_code option \<Rightarrow> bool \<Rightarrow> co_connection_pool_impl \<Rightarrow> co_connection_pool_impl option" where
  "node_action_done i ec stop_requested p =
     (let node = pl_all_conns p ! i;
          col_st = (if cn_last_act node = act_idle_wait then cn_collection_state node else collection_none);
          p1 = (if cn_last_act node = act_idle_wait
                then p\<lparr>pl_all_conns := (pl_all_conns p)[i := node\<lparr>cn_collection_state := collection_none\<rparr>]\<rparr> else p)
      in case node_resume i ec col_st p1 of
           None \<Rightarrow> None
         | Some p2 \<Rightarrow> node_loop i stop_requested p2)"

definition mark_as_collectable :: "nat \<Rightarrow> bool \<Rightarrow> co_connection_pool_impl \<Rightarrow> co_connection_pool_impl" where
  "mark_as_collectable i should_reset p =
     p\<lparr>pl_all_conns := (pl_all_conns p)[i := (pl_all_conns p ! i)
        \<lparr>cn_collection_state := (if should_reset then needs_collect_with_reset else needs_collect)\<rparr>]\<rparr>"

definition create_connection :: "co_connection_pool_impl \<Rightarrow> co_connection_pool_impl" where
  "create_connection p = p\<lparr>pl_all_conns := pl_all_conns p @ [connection_node_init]\<rparr>"

definition create_connections :: "co_connection_pool_impl \<Rightarrow> co_connection_pool_impl option" where
  "create_connections p =
     (case num_connections_to_create (pp_initial_size (pl_params p)) (pp_max_size (pl_params p))
             (length (pl_all_conns p)) (ss_num_pending_connections (pl_shared_st p))
             (ss_num_pending_requests (pl_shared_st p)) of
        None \<Rightarrow> None
      | Some n \<Rightarrow>
          if length (pl_all_conns p) + n \<le> pp_max_size (pl_params p) then Some ((create_connection ^^ n) p) else None)"

definition enter_request_pending :: "co_connection_pool_impl \<Rightarrow> co_connection_pool_impl" where
  "enter_request_pending p =
     p\<lparr>pl_shared_st := (pl_shared_st p)\<lparr>ss_num_pending_requests := ss_num_pending_requests (pl_shared_st p) + 1\<rparr>,
       pl_connections_needed := True\<rparr>"

definition exit_request_pending :: "co_connection_pool_impl \<Rightarrow> co_connection_pool_impl option" where
  "exit_request_pending p =
     (if ss_num_pending_requests (pl_shared_st p) > 0
      then Some (p\<lparr>pl_shared_st := (pl_shared_st p)
        \<lparr>ss_num_pending_requests := ss_num_pending_requests (pl_shared_st p) - 1\<rparr>\<rparr>)
      else None)"

definition try_get_connection ::
    "co_connection_pool_impl \<Rightarrow> (nat option \<times> co_connection_pool_impl) option" where
  "try_get_connection p =
     (case ss_idle_list (pl_shared_st p) of
        [] \<Rightarrow> Some (None, p)
      | i # _ \<Rightarrow> (case mark_as_in_use i p of None \<Rightarrow> None | Some p' \<Rightarrow> Some (Some i, p')))"

text \<open>\<^verbatim>\<open>run\<close>: its beginning, a turn of its loop, and the cancellation.\<close>

definition pool_run :: "co_connection_pool_impl \<Rightarrow> co_connection_pool_impl option" where
  "pool_run p = (if pl_state p \<noteq> pool_initial then None else create_connections (p\<lparr>pl_state := pool_running\<rparr>))"

definition pool_wake :: "co_connection_pool_impl \<Rightarrow> co_connection_pool_impl option" where
  "pool_wake p = create_connections (p\<lparr>pl_connections_needed := False\<rparr>)"

definition pool_cancel :: "co_connection_pool_impl \<Rightarrow> co_connection_pool_impl" where
  "pool_cancel p = p\<lparr>pl_state := pool_cancelled\<rparr>"

text \<open>\<^verbatim>\<open>get_connection\<close> up to its first suspension and after a wake-up: it fails, has a connection or waits.\<close>

datatype get_result_t = Get_canceled | Get_connection nat | Get_waits

definition get_connection :: "co_connection_pool_impl \<Rightarrow> (get_result_t \<times> co_connection_pool_impl) option" where
  "get_connection p =
     (if pl_state p = pool_cancelled then Some (Get_canceled, p)
      else (case try_get_connection p of
              None \<Rightarrow> None
            | Some (Some i, p') \<Rightarrow> Some (Get_connection i, p')
            | Some (None, p') \<Rightarrow> Some (Get_waits, enter_request_pending p')))"

definition get_connection_wake :: "bool \<Rightarrow> co_connection_pool_impl \<Rightarrow> (get_result_t \<times> co_connection_pool_impl) option" where
  "get_connection_wake stop_requested p =
     (case exit_request_pending p of
        None \<Rightarrow> None
      | Some p1 \<Rightarrow>
          if pl_state p1 = pool_cancelled then Some (Get_canceled, p1)
          else (case try_get_connection p1 of
                  None \<Rightarrow> None
                | Some (Some i, p2) \<Rightarrow> Some (Get_connection i, p2)
                | Some (None, p2) \<Rightarrow>
                    if stop_requested then Some (Get_canceled, p2) else Some (Get_waits, enter_request_pending p2)))"

end
