(* ===== verification/Pg_Pool_Facts.thy ===== *)
theory Pg_Pool_Facts
  imports Pg_Pool
begin

text \<open>
  The pool under every interleaving of its coroutines. The hooks of the node state machine keep the list of
  idle nodes and the count of pending ones equal to what the statuses say; on top of that no assertion
  fails, no counter underflows, no connection is handed to two users, and a connection that is returned
  becomes available again.
\<close>

section \<open>What the hooks keep\<close>

definition tracks :: "connection_node list \<Rightarrow> conn_shared_state \<Rightarrow> bool" where
  "tracks ns ss \<longleftrightarrow> distinct (ss_idle_list ss) \<and>
     set (ss_idle_list ss) = {i. i < length ns \<and> cn_status (ns ! i) = node_idle} \<and>
     ss_num_pending_connections ss = length (filter (\<lambda>n. is_pending (cn_status n)) ns)"

lemma length_filter_update:
  assumes "i < length xs"
  shows "length (filter P (xs[i := y])) + of_bool (P (xs ! i)) = length (filter P xs) + of_bool (P y)"
proof -
  have xs: "xs = take i xs @ xs ! i # drop (Suc i) xs" using assms by (simp add: id_take_nth_drop)
  have "length (filter P xs) = length (filter P (take i xs)) + of_bool (P (xs ! i)) + length (filter P (drop (Suc i) xs))"
    by (subst xs) simp
  moreover have "length (filter P (xs[i := y])) = length (filter P (take i xs)) + of_bool (P y) + length (filter P (drop (Suc i) xs))"
    using assms by (simp add: upd_conv_take_nth_drop)
  ultimately show ?thesis by simp
qed

lemma length_filter_pos:
  assumes "i < length xs" and "P (xs ! i)"
  shows "0 < length (filter P xs)"
  using assms nth_mem by (fastforce simp: filter_empty_conv)

lemma idle_not_pending [simp]: "\<not> is_pending node_idle"
  by (simp add: is_pending_def)

definition idle_after :: "nat \<Rightarrow> node_status \<Rightarrow> node_status \<Rightarrow> nat list \<Rightarrow> nat list" where
  "idle_after i old new l =
     (if new = node_idle \<and> old \<noteq> node_idle then l @ [i]
      else if new \<noteq> node_idle \<and> old = node_idle then remove1 i l else l)"

definition pending_after :: "node_status \<Rightarrow> node_status \<Rightarrow> nat \<Rightarrow> nat" where
  "pending_after old new k = k + of_bool (is_pending new) - of_bool (is_pending old)"

lemma run_set_status_hooks:
  assumes "old = node_idle \<Longrightarrow> i \<in> set (ss_idle_list ss)"
    and "is_pending old \<Longrightarrow> 0 < ss_num_pending_connections ss"
  shows "run_hooks i (set_status_hooks old new) ss =
    Some (ss\<lparr>ss_idle_list := idle_after i old new (ss_idle_list ss),
             ss_num_pending_connections := pending_after old new (ss_num_pending_connections ss)\<rparr>)"
  using assms
  by (auto simp: set_status_hooks_def run_hook_def idle_after_def pending_after_def)

lemma tracks_idle:
  assumes "distinct l" and "set l = {j. j < length ns \<and> cn_status (ns ! j) = node_idle}" and "i < length ns"
    and new: "cn_status n' = new"
  shows "distinct (idle_after i (cn_status (ns ! i)) new l) \<and>
    set (idle_after i (cn_status (ns ! i)) new l) =
      {j. j < length ns \<and> cn_status (ns[i := n'] ! j) = node_idle}"
proof -
  let ?S = "{j. j < length ns \<and> cn_status (ns ! j) = node_idle}"
  have S: "{j. j < length ns \<and> cn_status (ns[i := n'] ! j) = node_idle} = (if new = node_idle then insert i ?S else ?S - {i})"
    using assms(3) new by (auto simp: nth_list_update)
  have i: "i \<in> ?S \<longleftrightarrow> cn_status (ns ! i) = node_idle" using assms(3) by simp
  show ?thesis unfolding S idle_after_def using assms(1) i unfolding assms(2) [symmetric]
    by (cases "cn_status (ns ! i) = node_idle"; cases "new = node_idle") auto
qed

lemma set_status_tracks:
  assumes "tracks (pl_all_conns p) (pl_shared_st p)" and "i < length (pl_all_conns p)"
  shows "\<exists>ss. set_status i s p = Some (p\<lparr>pl_all_conns := (pl_all_conns p)[i := (pl_all_conns p ! i)\<lparr>cn_status := s\<rparr>],
      pl_shared_st := ss\<rparr>) \<and>
    tracks ((pl_all_conns p)[i := (pl_all_conns p ! i)\<lparr>cn_status := s\<rparr>]) ss \<and>
    ss_num_pending_requests ss = ss_num_pending_requests (pl_shared_st p) \<and>
    ss_num_running_connections ss = ss_num_running_connections (pl_shared_st p)"
proof -
  let ?ns = "pl_all_conns p" and ?ss = "pl_shared_st p"
  let ?old = "cn_status (?ns ! i)" and ?P = "\<lambda>n. is_pending (cn_status n)"
  let ?ss' = "?ss\<lparr>ss_idle_list := idle_after i ?old s (ss_idle_list ?ss),
    ss_num_pending_connections := pending_after ?old s (ss_num_pending_connections ?ss)\<rparr>"
  have "run_hooks i (set_status_hooks ?old s) ?ss = Some ?ss'"
    using assms length_filter_pos [OF assms(2), of ?P] by (intro run_set_status_hooks) (auto simp: tracks_def)
  moreover have "tracks (?ns[i := (?ns ! i)\<lparr>cn_status := s\<rparr>]) ?ss'"
    using assms(1) tracks_idle [of "ss_idle_list ?ss" ?ns i "(?ns ! i)\<lparr>cn_status := s\<rparr>" s] assms(2)
      length_filter_update [OF assms(2), of ?P "(?ns ! i)\<lparr>cn_status := s\<rparr>"]
    by (auto simp: tracks_def pending_after_def)
  ultimately show ?thesis by (auto simp: set_status_def Let_def)
qed


section \<open>A turn of a node\<close>

definition pool_counts :: "connection_node list \<Rightarrow> conn_shared_state \<Rightarrow> bool" where
  "pool_counts ns ss \<longleftrightarrow> tracks ns ss \<and> ss_num_running_connections ss = length (filter cn_running ns)"

text \<open>The state of a node matters to the shared state through its status and whether it runs.\<close>

lemma counts_update:
  assumes "pool_counts ns ss" and "i < length ns" and "cn_status n = cn_status (ns ! i)" and "cn_running n = cn_running (ns ! i)"
  shows "pool_counts (ns[i := n]) ss"
proof -
  have "cn_status (ns[i := n] ! j) = cn_status (ns ! j)" if "j < length ns" for j
    using assms(3) that by (cases "i = j") simp_all
  then have "{j. j < length ns \<and> cn_status (ns[i := n] ! j) = node_idle} = {j. j < length ns \<and> cn_status (ns ! j) = node_idle}"
    by auto
  then show ?thesis
    using assms length_filter_update [OF assms(2), of "\<lambda>n. is_pending (cn_status n)" n]
      length_filter_update [OF assms(2), of cn_running n]
    by (auto simp: pool_counts_def tracks_def)
qed

definition status_after :: "node_status \<Rightarrow> error_code option \<Rightarrow> collection_state \<Rightarrow> node_status" where
  "status_after s ec col = (case resume_status s ec col of None \<Rightarrow> s | Some s' \<Rightarrow> s')"

text \<open>The pool with the node \<open>i\<close> and the shared state replaced.\<close>

abbreviation with_node :: "nat \<Rightarrow> connection_node \<Rightarrow> conn_shared_state \<Rightarrow> co_connection_pool_impl \<Rightarrow> co_connection_pool_impl" where
  "with_node i n ss p \<equiv> p\<lparr>pl_all_conns := (pl_all_conns p)[i := n], pl_shared_st := ss\<rparr>"

lemma set_status_counts:
  assumes "pool_counts (pl_all_conns p) (pl_shared_st p)" and "i < length (pl_all_conns p)"
  shows "\<exists>ss. set_status i s p = Some (with_node i ((pl_all_conns p ! i)\<lparr>cn_status := s\<rparr>) ss p) \<and>
    pool_counts ((pl_all_conns p)[i := (pl_all_conns p ! i)\<lparr>cn_status := s\<rparr>]) ss \<and>
    ss_num_pending_requests ss = ss_num_pending_requests (pl_shared_st p)"
  using assms set_status_tracks [of p i s]
    length_filter_update [OF assms(2), of cn_running "(pl_all_conns p ! i)\<lparr>cn_status := s\<rparr>"]
  by (auto simp: pool_counts_def)

lemma node_resume_counts:
  fixes i ec col p
  defines "n \<equiv> pl_all_conns p ! i"
  defines "n' \<equiv> n\<lparr>cn_status := status_after (cn_status n) ec col, cn_last_act := resume_action (cn_status n) ec col\<rparr>"
  assumes "pool_counts (pl_all_conns p) (pl_shared_st p)" and "i < length (pl_all_conns p)"
  shows "\<exists>ss. node_resume i ec col p = Some (with_node i n' ss p) \<and> pool_counts ((pl_all_conns p)[i := n']) ss \<and>
    ss_num_pending_requests ss = ss_num_pending_requests (pl_shared_st p)"
proof (cases "resume_status (cn_status n) ec col")
  case None
  then have n': "n' = n\<lparr>cn_last_act := resume_action (cn_status n) ec col\<rparr>"
    unfolding n'_def status_after_def by simp
  then have "node_resume i ec col p = Some (with_node i n' (pl_shared_st p) p)"
    using None by (simp add: node_resume_def n_def [symmetric])
  moreover have "pool_counts ((pl_all_conns p)[i := n']) (pl_shared_st p)"
    using assms(3,4) n' by (intro counts_update) (simp_all add: n_def)
  ultimately show ?thesis by blast
next
  case (Some s)
  from set_status_counts [OF assms(3,4), of s] obtain ss where ss:
    "set_status i s p = Some (with_node i (n\<lparr>cn_status := s\<rparr>) ss p)"
    "pool_counts ((pl_all_conns p)[i := n\<lparr>cn_status := s\<rparr>]) ss"
    "ss_num_pending_requests ss = ss_num_pending_requests (pl_shared_st p)" by (auto simp: n_def)
  have n': "n' = n\<lparr>cn_status := s, cn_last_act := resume_action (cn_status n) ec col\<rparr>"
    unfolding n'_def status_after_def Some by simp
  have "node_resume i ec col p = Some (with_node i n' ss p)"
    using Some ss(1) assms(4) n' by (simp add: node_resume_def n_def [symmetric])
  moreover have "pool_counts ((pl_all_conns p)[i := n']) ss"
    using counts_update [OF ss(2), of i n'] assms(4) n' by simp
  ultimately show ?thesis using ss(3) by auto
qed

lemma running_update:
  assumes "pool_counts ns ss" and "i < length ns"
    and "k + of_bool (cn_running (ns ! i)) = ss_num_running_connections ss + of_bool b"
  shows "pool_counts (ns[i := (ns ! i)\<lparr>cn_running := b\<rparr>]) (ss\<lparr>ss_num_running_connections := k\<rparr>)"
proof -
  have "{j. j < length ns \<and> cn_status (ns[i := (ns ! i)\<lparr>cn_running := b\<rparr>] ! j) = node_idle} =
      {j. j < length ns \<and> cn_status (ns ! j) = node_idle}"
    using assms(2) by (auto simp: nth_list_update split: if_splits)
  then show ?thesis
    using assms length_filter_update [OF assms(2), of "\<lambda>n. is_pending (cn_status n)" "(ns ! i)\<lparr>cn_running := b\<rparr>"]
      length_filter_update [OF assms(2), of cn_running "(ns ! i)\<lparr>cn_running := b\<rparr>"]
    by (auto simp: pool_counts_def tracks_def)
qed

lemma node_finish_counts:
  assumes "pool_counts (pl_all_conns p) (pl_shared_st p)" and "i < length (pl_all_conns p)" and "cn_running (pl_all_conns p ! i)"
  shows "\<exists>ss. node_finish i p = Some (with_node i ((pl_all_conns p ! i)\<lparr>cn_running := False\<rparr>) ss p) \<and>
    pool_counts ((pl_all_conns p)[i := (pl_all_conns p ! i)\<lparr>cn_running := False\<rparr>]) ss \<and>
    ss_num_pending_requests ss = ss_num_pending_requests (pl_shared_st p)"
proof -
  have "0 < ss_num_running_connections (pl_shared_st p)"
    using assms length_filter_pos [of i "pl_all_conns p" cn_running] by (simp add: pool_counts_def)
  then show ?thesis
    using assms running_update [OF assms(1,2), of "ss_num_running_connections (pl_shared_st p) - 1" False]
    by (intro exI [of _ "(pl_shared_st p)\<lparr>ss_num_running_connections := ss_num_running_connections (pl_shared_st p) - 1\<rparr>"])
      (simp add: node_finish_def on_connection_finish_def)
qed

text \<open>
  A turn of the loop after \<^verbatim>\<open>resume\<close>: the node waits for the action of its status, a reset being over at
  once, or has finished where it was asked to stop.
\<close>

definition settled :: "node_status \<Rightarrow> bool" where
  "settled s \<longleftrightarrow> s \<noteq> node_initial \<and> s \<noteq> node_terminated \<and> s \<noteq> reset_in_progress"

lemma node_loop_counts:
  fixes i stop p
  defines "n \<equiv> pl_all_conns p ! i"
  assumes "pool_counts (pl_all_conns p) (pl_shared_st p)" and "i < length (pl_all_conns p)" and "cn_running n"
    and "cn_last_act n = status_to_action (cn_status n)" and "settled (cn_status n) \<or> cn_status n = reset_in_progress"
  shows "\<exists>n' ss. node_loop i stop p = Some (with_node i n' ss p) \<and> pool_counts ((pl_all_conns p)[i := n']) ss \<and>
    ss_num_pending_requests ss = ss_num_pending_requests (pl_shared_st p) \<and>
    cn_collection_state n' = cn_collection_state n \<and>
    (if stop then \<not> cn_running n' \<and> cn_status n' = cn_status n
     else cn_running n' \<and> cn_last_act n' = status_to_action (cn_status n') \<and>
       cn_status n' = (if cn_status n = reset_in_progress then node_idle else cn_status n))"
proof (cases stop)
  case True
  from node_finish_counts [OF assms(2,3)] assms(4) obtain ss where
    "node_finish i p = Some (with_node i (n\<lparr>cn_running := False\<rparr>) ss p)"
    "pool_counts ((pl_all_conns p)[i := n\<lparr>cn_running := False\<rparr>]) ss"
    "ss_num_pending_requests ss = ss_num_pending_requests (pl_shared_st p)" by (auto simp: n_def)
  then show ?thesis
    using True by (intro exI [of _ "n\<lparr>cn_running := False\<rparr>"] exI [of _ ss]) (simp add: node_loop_def)
next
  case False
  show ?thesis
  proof (cases "cn_status n = reset_in_progress")
    case True
    then have r: "status_after (cn_status n) None collection_none = node_idle"
      "resume_action (cn_status n) None collection_none = act_idle_wait" "cn_last_act n = act_reset"
      using assms(5) by (simp_all add: status_after_def resume_status_def resume_action_def status_to_action_def)
    let ?n = "n\<lparr>cn_status := node_idle, cn_last_act := act_idle_wait\<rparr>"
    from node_resume_counts [OF assms(2,3), of None collection_none] r obtain ss where
      "node_resume i None collection_none p = Some (with_node i ?n ss p)" "pool_counts ((pl_all_conns p)[i := ?n]) ss"
      "ss_num_pending_requests ss = ss_num_pending_requests (pl_shared_st p)" by (auto simp: n_def [symmetric])
    then show ?thesis using False True assms(4) r(3)
      by (intro exI [of _ ?n] exI [of _ ss]) (simp add: node_loop_def n_def [symmetric] status_to_action_def)
  next
    case reset: False
    then have "cn_last_act n \<noteq> act_none" "cn_last_act n \<noteq> act_reset"
      using assms(5,6) by (auto simp: settled_def status_to_action_def split: node_status.splits)
    then have "node_loop i stop p = Some (with_node i n (pl_shared_st p) p)"
      using False by (simp add: node_loop_def n_def)
    then show ?thesis using assms(2-5) False reset
      by (intro exI [of _ n] exI [of _ "pl_shared_st p"]) (simp add: n_def)
  qed
qed


section \<open>Runs of the pool\<close>

text \<open>
  The pool with the connections its users hold and the number of requests that wait. The operations are the
  pieces of the coroutines; an operation is legal when the coroutine it belongs to can be at that point:
  only started nodes finish an action, only holders return a connection, and a node is asked to stop only
  after the pool was cancelled.
\<close>

record pool_usage =
  pu_pool :: co_connection_pool_impl
  pu_held :: "nat list"
  pu_waiting :: nat

datatype pool_op =
    Op_run
  | Op_wake
  | Op_cancel
  | Op_start nat bool
  | Op_done nat "error_code option" bool
  | Op_get
  | Op_get_wake bool
  | Op_return nat bool

abbreviation pu_nodes :: "pool_usage \<Rightarrow> connection_node list" where
  "pu_nodes u \<equiv> pl_all_conns (pu_pool u)"

definition pool_legal :: "pool_op \<Rightarrow> pool_usage \<Rightarrow> bool" where
  "pool_legal op u =
     (case op of
        Op_run \<Rightarrow> pl_state (pu_pool u) = pool_initial
      | Op_wake \<Rightarrow> pl_state (pu_pool u) = pool_running \<and> pl_connections_needed (pu_pool u)
      | Op_cancel \<Rightarrow> pl_state (pu_pool u) = pool_running
      | Op_start i stop \<Rightarrow> i < length (pu_nodes u) \<and> cn_status (pu_nodes u ! i) = node_initial \<and>
          \<not> cn_running (pu_nodes u ! i) \<and> (stop \<longrightarrow> pl_state (pu_pool u) = pool_cancelled)
      | Op_done i ec stop \<Rightarrow> i < length (pu_nodes u) \<and> cn_running (pu_nodes u ! i) \<and>
          (stop \<longrightarrow> pl_state (pu_pool u) = pool_cancelled)
      | Op_get \<Rightarrow> True
      | Op_get_wake stop \<Rightarrow> 0 < pu_waiting u
      | Op_return i reset \<Rightarrow> i \<in> set (pu_held u))"

definition got :: "pool_usage \<Rightarrow> get_result_t \<times> co_connection_pool_impl \<Rightarrow> pool_usage" where
  "got u x = (case x of
     (Get_connection i, p) \<Rightarrow> u\<lparr>pu_pool := p, pu_held := i # pu_held u\<rparr>
   | (Get_waits, p) \<Rightarrow> u\<lparr>pu_pool := p, pu_waiting := pu_waiting u + 1\<rparr>
   | (Get_canceled, p) \<Rightarrow> u\<lparr>pu_pool := p\<rparr>)"

definition pool_apply :: "pool_op \<Rightarrow> pool_usage \<Rightarrow> pool_usage option" where
  "pool_apply op u =
     (let p = pu_pool u; put = map_option (\<lambda>p'. u\<lparr>pu_pool := p'\<rparr>)
      in case op of
           Op_run \<Rightarrow> put (pool_run p)
         | Op_wake \<Rightarrow> put (pool_wake p)
         | Op_cancel \<Rightarrow> Some (u\<lparr>pu_pool := pool_cancel p\<rparr>)
         | Op_start i stop \<Rightarrow> put (node_start i stop p)
         | Op_done i ec stop \<Rightarrow> put (node_action_done i ec stop p)
         | Op_get \<Rightarrow> map_option (got u) (get_connection p)
         | Op_get_wake stop \<Rightarrow> map_option (got (u\<lparr>pu_waiting := pu_waiting u - 1\<rparr>)) (get_connection_wake stop p)
         | Op_return i reset \<Rightarrow> Some (u\<lparr>pu_pool := mark_as_collectable i reset p, pu_held := remove1 i (pu_held u)\<rparr>))"

inductive pool_reachable :: "pool_params \<Rightarrow> pool_usage \<Rightarrow> bool" for params where
  pool_start: "pool_init params = Inr p \<Longrightarrow> pool_reachable params \<lparr>pu_pool = p, pu_held = [], pu_waiting = 0\<rparr>"
| pool_next: "pool_reachable params u \<Longrightarrow> pool_legal op u \<Longrightarrow> pool_apply op u = Some u' \<Longrightarrow> pool_reachable params u'"

section \<open>The invariant\<close>

definition node_ok :: "bool \<Rightarrow> connection_node \<Rightarrow> bool" where
  "node_ok cancelled n \<longleftrightarrow>
     (cn_collection_state n \<noteq> collection_none \<longrightarrow> cn_status n = node_in_use) \<and>
     (cn_running n \<longrightarrow> cn_last_act n = status_to_action (cn_status n) \<and> settled (cn_status n)) \<and>
     (\<not> cn_running n \<and> \<not> cancelled \<longrightarrow> cn_status n = node_initial)"

definition lent :: "connection_node \<Rightarrow> bool" where
  "lent n \<longleftrightarrow> cn_status n = node_in_use \<and> cn_collection_state n = collection_none"

definition pool_inv :: "pool_params \<Rightarrow> pool_usage \<Rightarrow> bool" where
  "pool_inv params u \<longleftrightarrow>
     pl_params (pu_pool u) = params \<and> pp_initial_size params \<le> pp_max_size params \<and>
     length (pu_nodes u) \<le> pp_max_size params \<and>
     (pl_state (pu_pool u) = pool_initial \<longrightarrow> pu_nodes u = []) \<and>
     pool_counts (pu_nodes u) (pl_shared_st (pu_pool u)) \<and>
     ss_num_pending_requests (pl_shared_st (pu_pool u)) = pu_waiting u \<and>
     list_all (node_ok (pl_state (pu_pool u) = pool_cancelled)) (pu_nodes u) \<and>
     distinct (pu_held u) \<and> set (pu_held u) = {i. i < length (pu_nodes u) \<and> lent (pu_nodes u ! i)}"

lemma pool_inv_init: "pool_init params = Inr p \<Longrightarrow> pool_inv params \<lparr>pu_pool = p, pu_held = [], pu_waiting = 0\<rparr>"
  by (auto simp: pool_init_def pool_inv_def check_pool_params_def pool_counts_def tracks_def split: option.splits if_splits)

text \<open>Replacing one node that stays in order keeps the invariant.\<close>

lemma pool_inv_replace:
  assumes "pool_inv params u" and "i < length (pu_nodes u)" and "pool_counts ((pu_nodes u)[i := n]) ss"
    and "ss_num_pending_requests ss = pu_waiting u"
    and "node_ok (pl_state (pu_pool u) = pool_cancelled) n"
    and "distinct held" and "set held = (if lent n then insert i (set (pu_held u)) else set (pu_held u) - {i})"
  shows "pool_inv params (u\<lparr>pu_pool := with_node i n ss (pu_pool u), pu_held := held\<rparr>)"
proof -
  have "{j. j < length (pu_nodes u) \<and> lent ((pu_nodes u)[i := n] ! j)} =
      (if lent n then insert i (set (pu_held u)) else set (pu_held u) - {i})"
    using assms(1,2) by (auto simp: pool_inv_def nth_list_update split: if_splits)
  moreover have "list_all (node_ok (pl_state (pu_pool u) = pool_cancelled)) ((pu_nodes u)[i := n])"
    using assms(1,5) by (auto simp: pool_inv_def list_all_iff dest!: set_update_subset_insert [THEN subsetD])
  ultimately show ?thesis using assms by (auto simp: pool_inv_def)
qed


section \<open>Every operation keeps it\<close>

lemma resume_settles:
  assumes "settled s \<or> s = node_initial"
  shows "resume_action s ec col = status_to_action (status_after s ec col)"
    and "settled (status_after s ec col) \<or> status_after s ec col = reset_in_progress"
    and "status_after s ec col = node_in_use \<longleftrightarrow> s = node_in_use \<and> col = collection_none"
  using assms
  by (auto simp: resume_action_def status_after_def resume_status_def status_to_action_def settled_def
      split: node_status.splits collection_state.splits)

lemma node_turn:
  fixes i ec col stop p
  defines "n \<equiv> pl_all_conns p ! i"
  assumes "pool_counts (pl_all_conns p) (pl_shared_st p)" and "i < length (pl_all_conns p)" and "cn_running n"
    and "settled (cn_status n) \<or> cn_status n = node_initial"
  shows "\<exists>n' ss. (case node_resume i ec col p of None \<Rightarrow> None | Some p' \<Rightarrow> node_loop i stop p') = Some (with_node i n' ss p) \<and>
    pool_counts ((pl_all_conns p)[i := n']) ss \<and>
    ss_num_pending_requests ss = ss_num_pending_requests (pl_shared_st p) \<and>
    cn_collection_state n' = cn_collection_state n \<and>
    (cn_status n' = node_in_use \<longleftrightarrow> cn_status n = node_in_use \<and> col = collection_none) \<and>
    cn_running n' = (\<not> stop) \<and>
    (\<not> stop \<longrightarrow> cn_last_act n' = status_to_action (cn_status n') \<and> settled (cn_status n'))"
proof -
  let ?n = "n\<lparr>cn_status := status_after (cn_status n) ec col, cn_last_act := resume_action (cn_status n) ec col\<rparr>"
  note settles = resume_settles [OF assms(5), of ec col]
  from node_resume_counts [OF assms(2,3), of ec col] obtain ss where
    r: "node_resume i ec col p = Some (with_node i ?n ss p)" "pool_counts ((pl_all_conns p)[i := ?n]) ss"
      "ss_num_pending_requests ss = ss_num_pending_requests (pl_shared_st p)" by (auto simp: n_def)
  let ?p = "with_node i ?n ss p"
  have at: "pl_all_conns ?p ! i = ?n" using assms(3) by simp
  have c: "pool_counts (pl_all_conns ?p) (pl_shared_st ?p)" "i < length (pl_all_conns ?p)"
    using r(2) assms(3) by simp_all
  from node_loop_counts [OF c, unfolded at, of stop] settles(1,2) assms(4) obtain n' ss' where
    l: "node_loop i stop ?p = Some (with_node i n' ss' ?p)" "pool_counts ((pl_all_conns ?p)[i := n']) ss'"
      "ss_num_pending_requests ss' = ss_num_pending_requests (pl_shared_st ?p)"
      "cn_collection_state n' = cn_collection_state ?n"
      "if stop then \<not> cn_running n' \<and> cn_status n' = cn_status ?n
       else cn_running n' \<and> cn_last_act n' = status_to_action (cn_status n') \<and>
         cn_status n' = (if cn_status ?n = reset_in_progress then node_idle else cn_status ?n)" by auto
  have "settled node_idle" by (simp add: settled_def)
  then show ?thesis
    using r(1,3) l settles(2,3)
    by (intro exI [of _ n'] exI [of _ ss']) (cases stop; auto)
qed

lemma done_steps:
  assumes "pool_inv params u" and "pool_legal (Op_done i ec stop) u"
  shows "\<exists>n ss. pool_apply (Op_done i ec stop) u = Some (u\<lparr>pu_pool := with_node i n ss (pu_pool u)\<rparr>) \<and>
    pool_inv params (u\<lparr>pu_pool := with_node i n ss (pu_pool u)\<rparr>) \<and> cn_running n = (\<not> stop)"
proof -
  let ?p = "pu_pool u" and ?n = "pu_nodes u ! i"
  have i: "i < length (pu_nodes u)" "cn_running ?n" "stop \<longrightarrow> pl_state ?p = pool_cancelled"
    using assms(2) by (simp_all add: pool_legal_def)
  have ok: "node_ok (pl_state ?p = pool_cancelled) ?n" using assms(1) i(1) by (simp add: pool_inv_def list_all_length)
  define w where "w \<longleftrightarrow> cn_last_act ?n = act_idle_wait"
  define col where "col = (if w then cn_collection_state ?n else collection_none)"
  define n1 where "n1 = (if w then ?n\<lparr>cn_collection_state := collection_none\<rparr> else ?n)"
  define p1 where "p1 = ?p\<lparr>pl_all_conns := (pu_nodes u)[i := n1]\<rparr>"
  have p1: "node_action_done i ec stop ?p = (case node_resume i ec col p1 of None \<Rightarrow> None | Some p' \<Rightarrow> node_loop i stop p')"
    using i(1) by (simp add: node_action_done_def p1_def n1_def w_def col_def Let_def)
  have n1: "pl_all_conns p1 ! i = n1" "i < length (pl_all_conns p1)" "cn_running n1" "cn_status n1 = cn_status ?n"
    using i by (simp_all add: p1_def n1_def)
  have "pool_counts (pl_all_conns p1) (pl_shared_st p1)"
    using assms(1) i n1(4) counts_update [of "pu_nodes u" "pl_shared_st ?p" i n1]
    by (simp add: p1_def pool_inv_def n1_def)
  from node_turn [OF this n1(2), unfolded n1(1), where ec = ec and col = col and stop = stop] n1(3) ok i(2) n1(4) obtain n' ss where
    t: "node_action_done i ec stop ?p = Some (with_node i n' ss p1)" "pool_counts ((pl_all_conns p1)[i := n']) ss"
      "ss_num_pending_requests ss = ss_num_pending_requests (pl_shared_st p1)"
      "cn_collection_state n' = cn_collection_state n1"
      "cn_status n' = node_in_use \<longleftrightarrow> cn_status ?n = node_in_use \<and> col = collection_none" "cn_running n' = (\<not> stop)"
      "\<not> stop \<longrightarrow> cn_last_act n' = status_to_action (cn_status n') \<and> settled (cn_status n')"
    unfolding p1 by (auto simp: node_ok_def)
  have idle: "cn_status ?n = node_in_use \<Longrightarrow> w" using ok i(2) by (simp add: node_ok_def w_def status_to_action_def)
  have none: "cn_collection_state n1 = collection_none"
    using ok idle by (auto simp: n1_def node_ok_def)
  have same: "with_node i n' ss p1 = with_node i n' ss ?p" by (simp add: p1_def)
  have "pool_inv params (u\<lparr>pu_pool := with_node i n' ss ?p, pu_held := pu_held u\<rparr>)"
  proof (rule pool_inv_replace [OF assms(1) i(1)])
    show "pool_counts ((pu_nodes u)[i := n']) ss" using t(2) by (simp add: p1_def)
    show "ss_num_pending_requests ss = pu_waiting u" using t(3) assms(1) by (simp add: p1_def pool_inv_def)
    show "node_ok (pl_state ?p = pool_cancelled) n'" using t(4,6,7) none i(3) by (auto simp: node_ok_def)
    show "distinct (pu_held u)" using assms(1) by (simp add: pool_inv_def)
    have "lent n' \<longleftrightarrow> lent ?n" using t(4,5) none idle by (auto simp: lent_def col_def)
    moreover have "i \<in> set (pu_held u) \<longleftrightarrow> lent ?n" using assms(1) i(1) by (simp add: pool_inv_def)
    ultimately show "set (pu_held u) = (if lent n' then insert i (set (pu_held u)) else set (pu_held u) - {i})" by auto
  qed
  moreover have "u\<lparr>pu_pool := p, pu_held := pu_held u\<rparr> = u\<lparr>pu_pool := p\<rparr>" for p by simp
  ultimately show ?thesis using t(1,6) same
    by (intro exI [of _ n'] exI [of _ ss]) (simp add: pool_apply_def Let_def)
qed

lemma pool_done_ok:
  assumes "pool_inv params u" and "pool_legal (Op_done i ec stop) u"
  shows "\<exists>u'. pool_apply (Op_done i ec stop) u = Some u' \<and> pool_inv params u'"
  using done_steps [OF assms] by blast

lemma pool_start_ok:
  assumes "pool_inv params u" and "pool_legal (Op_start i stop) u"
  shows "\<exists>u'. pool_apply (Op_start i stop) u = Some u' \<and> pool_inv params u'"
proof -
  let ?p = "pu_pool u" and ?n = "pu_nodes u ! i"
  have i: "i < length (pu_nodes u)" "\<not> cn_running ?n" "cn_status ?n = node_initial" "stop \<longrightarrow> pl_state ?p = pool_cancelled"
    using assms(2) by (simp_all add: pool_legal_def)
  have col: "cn_collection_state ?n = collection_none"
    using assms(1) i(1,3) by (auto simp: pool_inv_def list_all_length node_ok_def)
  define n1 where "n1 = ?n\<lparr>cn_running := True\<rparr>"
  define p1 where "p1 = ?p\<lparr>pl_shared_st := on_connection_start (pl_shared_st ?p), pl_all_conns := (pu_nodes u)[i := n1]\<rparr>"
  have p1: "node_start i stop ?p = (case node_resume i None collection_none p1 of None \<Rightarrow> None | Some p' \<Rightarrow> node_loop i stop p')"
    by (simp add: node_start_def p1_def n1_def Let_def)
  have n1: "pl_all_conns p1 ! i = n1" "i < length (pl_all_conns p1)" "cn_running n1" "cn_status n1 = node_initial"
    using i by (simp_all add: p1_def n1_def)
  have "pool_counts (pl_all_conns p1) (pl_shared_st p1)"
    using assms(1) i running_update [of "pu_nodes u" "pl_shared_st ?p" i "Suc (ss_num_running_connections (pl_shared_st ?p))" True]
    by (simp add: p1_def n1_def pool_inv_def on_connection_start_def)
  from node_turn [OF this n1(2), unfolded n1(1), where ec = None and col = collection_none and stop = stop] n1(3,4) obtain n' ss where
    t: "node_start i stop ?p = Some (with_node i n' ss p1)" "pool_counts ((pl_all_conns p1)[i := n']) ss"
      "ss_num_pending_requests ss = ss_num_pending_requests (pl_shared_st p1)"
      "cn_collection_state n' = cn_collection_state n1" "cn_status n' \<noteq> node_in_use" "cn_running n' = (\<not> stop)"
      "\<not> stop \<longrightarrow> cn_last_act n' = status_to_action (cn_status n') \<and> settled (cn_status n')"
    unfolding p1 by auto
  have same: "with_node i n' ss p1 = with_node i n' ss ?p" by (simp add: p1_def)
  have "pool_inv params (u\<lparr>pu_pool := with_node i n' ss ?p, pu_held := pu_held u\<rparr>)"
  proof (rule pool_inv_replace [OF assms(1) i(1)])
    show "pool_counts ((pu_nodes u)[i := n']) ss" using t(2) by (simp add: p1_def)
    show "ss_num_pending_requests ss = pu_waiting u"
      using t(3) assms(1) by (simp add: p1_def pool_inv_def on_connection_start_def)
    show "node_ok (pl_state ?p = pool_cancelled) n'" using t(4,6,7) col i(4) by (auto simp: node_ok_def n1_def)
    show "distinct (pu_held u)" using assms(1) by (simp add: pool_inv_def)
    have "i \<notin> set (pu_held u)" using assms(1) i(3) by (simp add: pool_inv_def lent_def)
    then show "set (pu_held u) = (if lent n' then insert i (set (pu_held u)) else set (pu_held u) - {i})"
      using t(5) by (auto simp: lent_def)
  qed
  then show ?thesis using t(1) same by (simp add: pool_apply_def Let_def)
qed

lemma create_connection_funpow:
  "(create_connection ^^ k) p = p\<lparr>pl_all_conns := pl_all_conns p @ replicate k connection_node_init\<rparr>"
  by (induction k) (simp_all add: create_connection_def replicate_append_same)

text \<open>
  Creation makes up the difference to what is needed: the pool ends with its initial size and with as many
  pending connections as there are waiting requests, except where the maximum size is in the way.
\<close>

definition wanted_size :: "pool_params \<Rightarrow> nat \<Rightarrow> nat \<Rightarrow> nat \<Rightarrow> nat" where
  "wanted_size params current pending waiting =
     min (pp_max_size params) (max current (max (pp_initial_size params) (current + (waiting - pending))))"

lemma num_connections_wanted:
  assumes "pp_initial_size params \<le> pp_max_size params" and "current \<le> pp_max_size params" and "pending \<le> current"
  shows "num_connections_to_create (pp_initial_size params) (pp_max_size params) current pending waiting =
    Some (wanted_size params current pending waiting - current)"
proof -
  have split_max: "min (max d (i - c)) (m - c) = min m (max c (max i (c + d))) - c" if "c \<le> m" for c d i m :: nat
    using that by linarith
  have "(if pending < waiting then waiting - pending else 0) = waiting - pending"
    and "(if current < i then i - current else 0) = i - current" for i by simp_all
  then show ?thesis
    using assms split_max [OF assms(2)] by (simp add: num_connections_to_create_def wanted_size_def Let_def)
qed

lemma create_connections_counts:
  assumes "pl_params p = params" and "pp_initial_size params \<le> pp_max_size params" and "length (pl_all_conns p) \<le> pp_max_size params"
    and "pool_counts (pl_all_conns p) (pl_shared_st p)"
  shows "create_connections p = Some (p\<lparr>pl_all_conns := pl_all_conns p @
    replicate (wanted_size params (length (pl_all_conns p)) (ss_num_pending_connections (pl_shared_st p))
      (ss_num_pending_requests (pl_shared_st p)) - length (pl_all_conns p)) connection_node_init\<rparr>)"
proof -
  have le: "ss_num_pending_connections (pl_shared_st p) \<le> length (pl_all_conns p)"
    using assms(4) by (simp add: pool_counts_def tracks_def)
  have "k + (wanted_size params k c w - k) \<le> pp_max_size params" if "k \<le> pp_max_size params" for k c w
    using that by (simp add: wanted_size_def)
  then show ?thesis
    using assms(1,3) num_connections_wanted [OF assms(2,3) le]
    by (simp add: create_connections_def create_connection_funpow)
qed

lemma nth_append_replicate:
  assumes "\<not> P y"
  shows "{j. j < length xs + k \<and> P ((xs @ replicate k y) ! j)} = {j. j < length xs \<and> P (xs ! j)}"
proof -
  have "P ((xs @ replicate k y) ! j) \<longleftrightarrow> j < length xs \<and> P (xs ! j)" if "j < length xs + k" for j
    using assms that by (cases "j < length xs") (simp_all add: nth_append)
  then show ?thesis by auto
qed

lemma counts_append:
  assumes "pool_counts ns ss"
  shows "pool_counts (ns @ replicate k connection_node_init) ss"
proof -
  have "cn_status connection_node_init = node_initial" "\<not> is_pending node_initial" "\<not> cn_running connection_node_init"
    by (simp_all add: connection_node_init_def is_pending_def)
  then show ?thesis
    using assms nth_append_replicate [of "\<lambda>n. cn_status n = node_idle" connection_node_init ns k]
    by (simp add: pool_counts_def tracks_def)
qed

lemma pool_inv_create:
  assumes "pool_inv params u" and "pl_state (pu_pool u) \<noteq> pool_initial"
  shows "pool_inv params (u\<lparr>pu_pool := (pu_pool u)\<lparr>pl_all_conns := pu_nodes u @
    replicate (wanted_size params (length (pu_nodes u)) c w - length (pu_nodes u)) connection_node_init\<rparr>\<rparr>)"
proof -
  let ?k = "wanted_size params (length (pu_nodes u)) c w - length (pu_nodes u)"
  have "pool_counts (pu_nodes u @ replicate ?k connection_node_init) (pl_shared_st (pu_pool u))"
    using assms(1) by (intro counts_append) (simp add: pool_inv_def)
  moreover have "length (pu_nodes u) + ?k \<le> pp_max_size params"
    using assms(1) by (simp add: pool_inv_def wanted_size_def)
  moreover have "node_ok b connection_node_init" for b by (simp add: node_ok_def connection_node_init_def)
  moreover have "{j. j < length (pu_nodes u) + ?k \<and> lent ((pu_nodes u @ replicate ?k connection_node_init) ! j)} =
      {j. j < length (pu_nodes u) \<and> lent (pu_nodes u ! j)}"
    by (rule nth_append_replicate) (simp add: lent_def connection_node_init_def)
  ultimately show ?thesis using assms by (simp add: pool_inv_def list_all_iff ball_Un)
qed

text \<open>The state of the run loop and its event change the invariant in one respect: whether a node may have stopped.\<close>

lemma pool_inv_state:
  assumes "pool_inv params u" and "st \<noteq> pool_initial" and "pl_state (pu_pool u) = pool_cancelled \<longrightarrow> st = pool_cancelled"
  shows "pool_inv params (u\<lparr>pu_pool := (pu_pool u)\<lparr>pl_state := st, pl_connections_needed := b\<rparr>\<rparr>)"
proof -
  have "node_ok (pl_state (pu_pool u) = pool_cancelled) n \<Longrightarrow> node_ok (st = pool_cancelled) n" for n
    using assms(3) by (auto simp: node_ok_def)
  then show ?thesis using assms(1,2) by (simp add: pool_inv_def list_all_iff)
qed

lemma pool_create_ok:
  assumes "pool_inv params u" and "pl_state (pu_pool u) \<noteq> pool_initial"
  shows "\<exists>p'. create_connections (pu_pool u) = Some p' \<and> pool_inv params (u\<lparr>pu_pool := p'\<rparr>)"
proof -
  have "pl_params (pu_pool u) = params" "pp_initial_size params \<le> pp_max_size params"
    "length (pu_nodes u) \<le> pp_max_size params" "pool_counts (pu_nodes u) (pl_shared_st (pu_pool u))"
    using assms(1) unfolding pool_inv_def by blast+
  from create_connections_counts [OF this] pool_inv_create [OF assms] show ?thesis by blast
qed

lemma pool_run_ok:
  assumes "pool_inv params u" and "pool_legal Op_run u"
  shows "\<exists>u'. pool_apply Op_run u = Some u' \<and> pool_inv params u'"
  using pool_create_ok [of params "u\<lparr>pu_pool := (pu_pool u)\<lparr>pl_state := pool_running\<rparr>\<rparr>"]
    pool_inv_state [OF assms(1), of pool_running "pl_connections_needed (pu_pool u)"] assms(2)
  by (auto simp: pool_apply_def pool_run_def pool_legal_def)

lemma pool_wake_ok:
  assumes "pool_inv params u" and "pool_legal Op_wake u"
  shows "\<exists>u'. pool_apply Op_wake u = Some u' \<and> pool_inv params u'"
proof -
  have "pl_state (pu_pool u) = pool_running" using assms(2) by (simp add: pool_legal_def)
  then have "(pu_pool u)\<lparr>pl_state := pool_running, pl_connections_needed := False\<rparr> = (pu_pool u)\<lparr>pl_connections_needed := False\<rparr>"
    by (cases "pu_pool u") simp
  then show ?thesis
    using pool_create_ok [of params "u\<lparr>pu_pool := (pu_pool u)\<lparr>pl_connections_needed := False\<rparr>\<rparr>"]
      pool_inv_state [OF assms(1), of pool_running False] assms(2)
    by (auto simp: pool_apply_def pool_wake_def pool_legal_def)
qed

lemma pool_cancel_ok:
  assumes "pool_inv params u"
  shows "\<exists>u'. pool_apply Op_cancel u = Some u' \<and> pool_inv params u'"
  using pool_inv_state [OF assms, of pool_cancelled "pl_connections_needed (pu_pool u)"]
  by (simp add: pool_apply_def pool_cancel_def)

lemma pool_return_ok:
  assumes "pool_inv params u" and "pool_legal (Op_return i reset) u"
  shows "\<exists>u'. pool_apply (Op_return i reset) u = Some u' \<and> pool_inv params u'"
proof -
  let ?n = "(pu_nodes u ! i)\<lparr>cn_collection_state := (if reset then needs_collect_with_reset else needs_collect)\<rparr>"
  have i: "i < length (pu_nodes u)" "lent (pu_nodes u ! i)"
    using assms by (auto simp: pool_legal_def pool_inv_def)
  have "pool_inv params (u\<lparr>pu_pool := with_node i ?n (pl_shared_st (pu_pool u)) (pu_pool u), pu_held := remove1 i (pu_held u)\<rparr>)"
  proof (rule pool_inv_replace [OF assms(1) i(1)])
    show "pool_counts ((pu_nodes u)[i := ?n]) (pl_shared_st (pu_pool u))"
      using assms(1) i(1) by (intro counts_update) (simp_all add: pool_inv_def)
    have "node_ok (pl_state (pu_pool u) = pool_cancelled) (pu_nodes u ! i)"
      using assms(1) i(1) by (simp add: pool_inv_def list_all_length)
    then show "node_ok (pl_state (pu_pool u) = pool_cancelled) ?n"
      using i(2) by (simp add: node_ok_def lent_def)
  qed (use assms(1) in \<open>simp_all add: pool_inv_def lent_def\<close>)
  then show ?thesis by (simp add: pool_apply_def mark_as_collectable_def Let_def)
qed

text \<open>
  Looking for a connection: the front of the idle list, which no user holds, or nothing where the list is
  empty.
\<close>

lemma pool_try_get_ok:
  assumes "pool_inv params u"
  shows "(ss_idle_list (pl_shared_st (pu_pool u)) = [] \<and> try_get_connection (pu_pool u) = Some (None, pu_pool u)) \<or>
    (\<exists>i p'. i \<notin> set (pu_held u) \<and> try_get_connection (pu_pool u) = Some (Some i, p') \<and>
      pl_state p' = pl_state (pu_pool u) \<and> pool_inv params (u\<lparr>pu_pool := p', pu_held := i # pu_held u\<rparr>))"
proof (cases "ss_idle_list (pl_shared_st (pu_pool u))")
  case Nil
  then show ?thesis by (simp add: try_get_connection_def)
next
  case (Cons i rest)
  let ?n = "(pu_nodes u ! i)\<lparr>cn_status := node_in_use\<rparr>"
  have c: "pool_counts (pu_nodes u) (pl_shared_st (pu_pool u))" using assms by (simp add: pool_inv_def)
  have "i \<in> set (ss_idle_list (pl_shared_st (pu_pool u)))" using Cons by simp
  then have i: "i < length (pu_nodes u)" "cn_status (pu_nodes u ! i) = node_idle"
    using c by (simp_all add: pool_counts_def tracks_def)
  from set_status_counts [OF c i(1), of node_in_use] obtain ss where ss:
    "set_status i node_in_use (pu_pool u) = Some (with_node i ?n ss (pu_pool u))" "pool_counts ((pu_nodes u)[i := ?n]) ss"
    "ss_num_pending_requests ss = ss_num_pending_requests (pl_shared_st (pu_pool u))" by blast
  have ok: "node_ok (pl_state (pu_pool u) = pool_cancelled) (pu_nodes u ! i)"
    using assms i(1) by (simp add: pool_inv_def list_all_length)
  have held: "i \<notin> set (pu_held u)" using assms i(2) by (simp add: pool_inv_def lent_def)
  have "pool_inv params (u\<lparr>pu_pool := with_node i ?n ss (pu_pool u), pu_held := i # pu_held u\<rparr>)"
  proof (rule pool_inv_replace [OF assms i(1) ss(2)])
    show "ss_num_pending_requests ss = pu_waiting u" using ss(3) assms by (simp add: pool_inv_def)
    show "node_ok (pl_state (pu_pool u) = pool_cancelled) ?n"
      using ok i(2) by (auto simp: node_ok_def settled_def status_to_action_def)
    show "distinct (i # pu_held u)" using assms held by (simp add: pool_inv_def)
    have "lent ?n" using ok i(2) by (simp add: lent_def node_ok_def)
    then show "set (i # pu_held u) = (if lent ?n then insert i (set (pu_held u)) else set (pu_held u) - {i})" by simp
  qed
  then show ?thesis
    using Cons i(2) ss(1) held by (simp add: try_get_connection_def mark_as_in_use_def)
qed

lemma pool_inv_waits:
  assumes "pool_inv params u"
  shows "pool_inv params (u\<lparr>pu_pool := enter_request_pending (pu_pool u), pu_waiting := pu_waiting u + 1\<rparr>)"
  using assms by (simp add: pool_inv_def enter_request_pending_def pool_counts_def tracks_def)

lemma pool_get_ok:
  assumes "pool_inv params u"
  shows "\<exists>u'. pool_apply Op_get u = Some u' \<and> pool_inv params u'"
  using pool_try_get_ok [OF assms] pool_inv_waits [OF assms] assms
  by (auto simp: pool_apply_def get_connection_def got_def Let_def)

lemma pool_get_wake_ok:
  assumes "pool_inv params u" and "pool_legal (Op_get_wake stop) u"
  shows "\<exists>u'. pool_apply (Op_get_wake stop) u = Some u' \<and> pool_inv params u'"
proof -
  define p1 where "p1 = (pu_pool u)\<lparr>pl_shared_st := (pl_shared_st (pu_pool u))
    \<lparr>ss_num_pending_requests := ss_num_pending_requests (pl_shared_st (pu_pool u)) - 1\<rparr>\<rparr>"
  let ?u = "u\<lparr>pu_waiting := pu_waiting u - 1, pu_pool := p1\<rparr>"
  have p1: "exit_request_pending (pu_pool u) = Some p1"
    using assms by (simp add: pool_legal_def pool_inv_def exit_request_pending_def p1_def)
  have inv: "pool_inv params ?u"
    using assms(1) by (simp add: pool_inv_def pool_counts_def tracks_def p1_def)
  from pool_try_get_ok [OF this] pool_inv_waits [OF this] inv show ?thesis
    by (auto simp: pool_apply_def get_connection_wake_def got_def p1 Let_def)
qed

lemma pool_op_ok:
  assumes "pool_inv params u" and "pool_legal op u"
  shows "\<exists>u'. pool_apply op u = Some u' \<and> pool_inv params u'"
  using assms
  by (cases op) (simp_all add: pool_run_ok pool_wake_ok pool_cancel_ok pool_start_ok pool_done_ok pool_get_ok pool_get_wake_ok pool_return_ok)

lemma pool_reachable_inv: "pool_reachable params u \<Longrightarrow> pool_inv params u"
proof (induction rule: pool_reachable.induct)
  case (pool_start p)
  then show ?case by (rule pool_inv_init)
next
  case (pool_next u op u')
  then show ?case using pool_op_ok by fastforce
qed


section \<open>What the pool guarantees\<close>

text \<open>
  C5. Under every interleaving of its coroutines the pool is never stuck: in a reachable state every
  operation whose coroutine can be at that point is carried out, so no assertion fails, no counter falls
  below zero and no node is erased from a list it is not in. No connection has two users, a connection that
  is in use is not offered as idle, and the pool never has more connections than its maximum size.
\<close>

theorem pool_never_stuck:
  assumes "pool_reachable params u" and "pool_legal op u"
  shows "(\<exists>u'. pool_apply op u = Some u') \<and> distinct (pu_held u) \<and>
    set (pu_held u) \<inter> set (ss_idle_list (pl_shared_st (pu_pool u))) = {} \<and>
    (\<forall>i \<in> set (pu_held u). cn_status (pu_nodes u ! i) = node_in_use) \<and>
    ss_num_pending_requests (pl_shared_st (pu_pool u)) = pu_waiting u \<and>
    length (pu_nodes u) \<le> pp_max_size params"
proof -
  have inv: "pool_inv params u" using assms(1) by (rule pool_reachable_inv)
  then have "tracks (pu_nodes u) (pl_shared_st (pu_pool u))" by (simp add: pool_inv_def pool_counts_def)
  then show ?thesis using inv pool_op_ok [OF inv assms(2)] by (auto simp: pool_inv_def tracks_def lent_def)
qed

definition small_pool :: pool_params where
  "small_pool = \<lparr>pp_initial_size = 1, pp_max_size = 2, pp_connect_timeout = 20, pp_retry_interval = 30,
     pp_ping_interval = 3600, pp_ping_timeout = 10\<rparr>"

fun pool_apply_all :: "pool_op list \<Rightarrow> pool_usage \<Rightarrow> pool_usage option" where
  "pool_apply_all [] u = Some u"
| "pool_apply_all (op # ops) u =
     (if pool_legal op u then case pool_apply op u of None \<Rightarrow> None | Some u' \<Rightarrow> pool_apply_all ops u' else None)"

lemma pool_apply_all_reachable:
  assumes "pool_reachable params u" and "pool_apply_all ops u = Some u'"
  shows "pool_reachable params u'"
  using assms by (induction ops u rule: pool_apply_all.induct) (auto split: if_splits option.splits intro: pool_next)

definition fresh_usage :: "pool_params \<Rightarrow> pool_usage" where
  "fresh_usage params = \<lparr>pu_pool = projr (pool_init params), pu_held = [], pu_waiting = 0\<rparr>"

definition one_user :: pool_usage where
  "one_user = the (pool_apply_all [Op_run, Op_start 0 False, Op_get, Op_done 0 None False, Op_get_wake False] (fresh_usage small_pool))"

lemma fresh_reachable: "pool_reachable small_pool (fresh_usage small_pool)"
proof -
  have "pool_init small_pool = Inr (projr (pool_init small_pool))" by code_simp
  then show ?thesis unfolding fresh_usage_def by (rule pool_start)
qed

lemma one_user_reachable: "pool_reachable small_pool one_user"
proof (rule pool_apply_all_reachable [OF fresh_reachable])
  show "pool_apply_all [Op_run, Op_start 0 False, Op_get, Op_done 0 None False, Op_get_wake False] (fresh_usage small_pool) =
      Some one_user" unfolding one_user_def by code_simp
qed

theorem pool_never_stuck_witness:
  "(\<exists>u'. pool_apply (Op_return 0 True) one_user = Some u') \<and> distinct (pu_held one_user) \<and>
    set (pu_held one_user) \<inter> set (ss_idle_list (pl_shared_st (pu_pool one_user))) = {} \<and>
    length (pu_nodes one_user) \<le> pp_max_size small_pool"
proof -
  have "pool_legal (Op_return 0 True) one_user" by code_simp
  from pool_never_stuck [OF one_user_reachable this] show ?thesis by simp
qed

text \<open>What the node of a returned connection does, with its effect on the idle list.\<close>

lemma collect_idle:
  fixes p i
  defines "n \<equiv> pl_all_conns p ! i"
  assumes "i < length (pl_all_conns p)" and "cn_status n = node_in_use" and "cn_last_act n = act_idle_wait"
    and "cn_collection_state n = (if reset then needs_collect_with_reset else needs_collect)"
  shows "\<exists>p'. node_action_done i None False p = Some p' \<and>
    ss_idle_list (pl_shared_st p') = ss_idle_list (pl_shared_st p) @ [i]"
  using assms(2-5)
  by (cases reset) (simp_all add: n_def node_action_done_def node_loop_def node_resume_def resume_action_def resume_status_def
      status_to_action_def set_status_def set_status_hooks_def run_hook_def is_pending_def Let_def)

lemma held_runs:
  assumes "pool_inv params u" and "i \<in> set (pu_held u)" and "pl_state (pu_pool u) \<noteq> pool_cancelled"
  shows "i < length (pu_nodes u)" "cn_running (pu_nodes u ! i)" "cn_status (pu_nodes u ! i) = node_in_use"
    "cn_last_act (pu_nodes u ! i) = act_idle_wait"
proof -
  show i: "i < length (pu_nodes u)" "cn_status (pu_nodes u ! i) = node_in_use"
    using assms(1,2) by (auto simp: pool_inv_def lent_def)
  have "node_ok (pl_state (pu_pool u) = pool_cancelled) (pu_nodes u ! i)"
    using assms(1) i(1) by (simp add: pool_inv_def list_all_length)
  then show "cn_running (pu_nodes u ! i)" "cn_last_act (pu_nodes u ! i) = act_idle_wait"
    using i(2) assms(3) by (auto simp: node_ok_def status_to_action_def)
qed

text \<open>
  C17. A connection its user returns becomes available again, with a reset or without one: when its node next
  runs, the connection is at the end of the idle list. And a request that finds an idle connection while the
  pool runs is served at once, with the connection that has been idle for the longest time.
\<close>

theorem pool_recycles_connections:
  assumes "pool_reachable params u" and "pl_state (pu_pool u) \<noteq> pool_cancelled"
  shows "(i \<in> set (pu_held u) \<longrightarrow> (\<exists>u'. pool_apply_all [Op_return i reset, Op_done i None False] u = Some u' \<and>
      ss_idle_list (pl_shared_st (pu_pool u')) = ss_idle_list (pl_shared_st (pu_pool u)) @ [i] \<and> i \<notin> set (pu_held u'))) \<and>
    (ss_idle_list (pl_shared_st (pu_pool u)) = i # rest \<longrightarrow>
      (\<exists>u'. pool_apply Op_get u = Some u' \<and> pu_held u' = i # pu_held u \<and> pu_waiting u' = pu_waiting u \<and>
        ss_idle_list (pl_shared_st (pu_pool u')) = rest))"
proof (intro conjI impI)
  have inv: "pool_inv params u" using assms(1) by (rule pool_reachable_inv)
  {
    assume i: "i \<in> set (pu_held u)"
    note h = held_runs [OF inv i assms(2)]
    let ?p = "mark_as_collectable i reset (pu_pool u)"
    have at: "pl_all_conns ?p ! i = (pu_nodes u ! i)\<lparr>cn_collection_state := (if reset then needs_collect_with_reset else needs_collect)\<rparr>"
      "i < length (pl_all_conns ?p)" using h(1) by (simp_all add: mark_as_collectable_def)
    with collect_idle [of i ?p reset] h obtain p' where p': "node_action_done i None False ?p = Some p'"
      "ss_idle_list (pl_shared_st p') = ss_idle_list (pl_shared_st (pu_pool u)) @ [i]"
      by (auto simp: mark_as_collectable_def)
    have "distinct (pu_held u)" using inv by (simp add: pool_inv_def)
    then have "i \<notin> set (remove1 i (pu_held u))" by simp
    then show "\<exists>u'. pool_apply_all [Op_return i reset, Op_done i None False] u = Some u' \<and>
        ss_idle_list (pl_shared_st (pu_pool u')) = ss_idle_list (pl_shared_st (pu_pool u)) @ [i] \<and> i \<notin> set (pu_held u')"
      using i h(2) at p' by (simp add: pool_legal_def pool_apply_def Let_def)
  }
  assume idle: "ss_idle_list (pl_shared_st (pu_pool u)) = i # rest"
  then have "cn_status (pu_nodes u ! i) = node_idle"
    using inv by (auto simp: pool_inv_def pool_counts_def tracks_def)
  then show "\<exists>u'. pool_apply Op_get u = Some u' \<and> pu_held u' = i # pu_held u \<and> pu_waiting u' = pu_waiting u \<and>
      ss_idle_list (pl_shared_st (pu_pool u')) = rest"
    using idle assms(2)
    by (simp add: pool_apply_def get_connection_def try_get_connection_def mark_as_in_use_def set_status_def
        set_status_hooks_def run_hook_def is_pending_def got_def Let_def)
qed

theorem pool_recycles_connections_witness:
  "\<exists>u'. pool_apply_all [Op_return 0 True, Op_done 0 None False] one_user = Some u' \<and>
    ss_idle_list (pl_shared_st (pu_pool u')) = ss_idle_list (pl_shared_st (pu_pool one_user)) @ [0] \<and> 0 \<notin> set (pu_held u')"
proof -
  have "pl_state (pu_pool one_user) \<noteq> pool_cancelled" "0 \<in> set (pu_held one_user)" by code_simp+
  with pool_recycles_connections [OF one_user_reachable this(1), of 0 True "[]"] show ?thesis by blast
qed

text \<open>
  C19. When the pool starts, and whenever a request that has to wait wakes it up, it creates what is missing and
  no more than the maximum size: afterwards it is full, or it has its initial size and a connection on its
  way, pending or just created, for every waiting request. Connections that exist are kept as they are.
\<close>

theorem pool_creates_enough:
  assumes "pool_reachable params u" and "pool_legal op u" and "op = Op_run \<or> op = Op_wake"
  shows "\<exists>u' new. pool_apply op u = Some u' \<and> pu_nodes u' = pu_nodes u @ replicate new connection_node_init \<and>
    pl_shared_st (pu_pool u') = pl_shared_st (pu_pool u) \<and>
    length (pu_nodes u') \<le> pp_max_size params \<and>
    (length (pu_nodes u') = pp_max_size params \<or>
      (pp_initial_size params \<le> length (pu_nodes u') \<and>
       pu_waiting u \<le> ss_num_pending_connections (pl_shared_st (pu_pool u)) + new)) \<and>
    (0 < new \<longrightarrow> pu_waiting u = ss_num_pending_connections (pl_shared_st (pu_pool u)) + new \<or>
      length (pu_nodes u') = pp_initial_size params \<or> length (pu_nodes u') = pp_max_size params)"
proof -
  have inv: "pool_inv params u" using assms(1) by (rule pool_reachable_inv)
  let ?new = "wanted_size params (length (pu_nodes u)) (ss_num_pending_connections (pl_shared_st (pu_pool u))) (pu_waiting u) -
    length (pu_nodes u)"
  have c: "pl_params (pu_pool u) = params" "pp_initial_size params \<le> pp_max_size params"
    "length (pu_nodes u) \<le> pp_max_size params" "pool_counts (pu_nodes u) (pl_shared_st (pu_pool u))"
    "ss_num_pending_requests (pl_shared_st (pu_pool u)) = pu_waiting u"
    using inv unfolding pool_inv_def by blast+
  have created: "create_connections p = Some (p\<lparr>pl_all_conns := pu_nodes u @ replicate ?new connection_node_init\<rparr>)"
    if "pl_params p = params" "pl_all_conns p = pu_nodes u" "pl_shared_st p = pl_shared_st (pu_pool u)" for p
    using create_connections_counts [of p params] c that by simp
  obtain p where p: "pool_apply op u = Some (u\<lparr>pu_pool := p\<rparr>)" "pl_all_conns p = pu_nodes u @ replicate ?new connection_node_init"
    "pl_shared_st p = pl_shared_st (pu_pool u)"
    using assms(2,3) created [of "(pu_pool u)\<lparr>pl_state := pool_running\<rparr>"] created [of "(pu_pool u)\<lparr>pl_connections_needed := False\<rparr>"] c(1)
    by (auto simp: pool_apply_def pool_legal_def pool_run_def pool_wake_def Let_def)
  have sizes: "k + (wanted_size params k c w - k) = wanted_size params k c w" if "k \<le> pp_max_size params" for k c w
    using that by (simp add: wanted_size_def)
  show ?thesis
    using p c(2,3) sizes [OF c(3)]
    by (intro exI [of _ "u\<lparr>pu_pool := p\<rparr>"] exI [of _ ?new]) (simp; simp add: wanted_size_def; linarith)
qed

theorem pool_creates_enough_witness:
  "\<exists>u' new. pool_apply Op_run (fresh_usage small_pool) = Some u' \<and>
    pu_nodes u' = pu_nodes (fresh_usage small_pool) @ replicate new connection_node_init \<and>
    length (pu_nodes u') \<le> pp_max_size small_pool"
proof -
  have "pool_legal Op_run (fresh_usage small_pool)" by code_simp
  from pool_creates_enough [OF fresh_reachable this] show ?thesis by blast
qed

lemma stop_all:
  assumes "pool_inv params u" and "pl_state (pu_pool u) = pool_cancelled"
    and "distinct is" and "set is = {i. i < length (pu_nodes u) \<and> cn_running (pu_nodes u ! i)}"
  shows "\<exists>u'. pool_apply_all (map (\<lambda>i. Op_done i (outcome i) True) is) u = Some u' \<and>
    pool_inv params u' \<and> list_all (\<lambda>n. \<not> cn_running n) (pu_nodes u')"
  using assms
proof (induction "is" arbitrary: u)
  case Nil
  then show ?case by (auto simp: list_all_length)
next
  case (Cons i rest)
  then have legal: "pool_legal (Op_done i (outcome i) True) u" and i: "i < length (pu_nodes u)"
    by (auto simp: pool_legal_def)
  from done_steps [OF Cons.prems(1) legal] obtain n ss where
    step: "pool_apply (Op_done i (outcome i) True) u = Some (u\<lparr>pu_pool := with_node i n ss (pu_pool u)\<rparr>)"
    and inv: "pool_inv params (u\<lparr>pu_pool := with_node i n ss (pu_pool u)\<rparr>)" and n: "\<not> cn_running n" by auto
  have "{j. j < length (pu_nodes u) \<and> cn_running ((pu_nodes u)[i := n] ! j)} =
      {j. j < length (pu_nodes u) \<and> cn_running (pu_nodes u ! j)} - {i}"
    using n i by (auto simp: nth_list_update split: if_splits)
  also have "\<dots> = set rest" using Cons.prems(3,4) by auto
  finally show ?case
    using Cons.IH [OF inv] Cons.prems(2,3) legal step by simp
qed


definition cancelled_pool :: pool_usage where
  "cancelled_pool = the (pool_apply_all [Op_cancel] one_user)"

lemma cancelled_reachable: "pool_reachable small_pool cancelled_pool"
proof (rule pool_apply_all_reachable [OF one_user_reachable])
  show "pool_apply_all [Op_cancel] one_user = Some cancelled_pool" unfolding cancelled_pool_def by code_simp
qed


end
