(* ===== verification/Pg_Datetime.thy ===== *)
theory Pg_Datetime
  imports Pg_Types_Base
begin

text \<open>
  Dates, times and intervals: the parsers of \<^verbatim>\<open>types/datetime.hpp\<close> and their traits of
  \<^verbatim>\<open>detail/field_traits_datetime.hpp\<close>. Points and spans of time are integers in the unit of their
  \<^verbatim>\<open>std::chrono\<close> type, whose count has 64 bits: days and microseconds since 1970, microseconds since midnight,
  seconds. A parser returns the error code and the new value of its output, or \<open>None\<close> where an addition, a
  product or a negation of signed integers overflows.
\<close>

section \<open>The calendar of std::chrono\<close>

definition is_leap :: "int \<Rightarrow> bool" where
  "is_leap y \<longleftrightarrow> y mod 4 = 0 \<and> (y mod 100 \<noteq> 0 \<or> y mod 400 = 0)"

definition last_day_of_month :: "int \<Rightarrow> nat \<Rightarrow> nat" where
  "last_day_of_month y m =
     (if m = 2 then (if is_leap y then 29 else 28) else if m \<in> {4, 6, 9, 11} then 30 else 31)"

text \<open>\<^verbatim>\<open>std::chrono::year\<close> holds a \<^verbatim>\<open>short\<close>, \<^verbatim>\<open>month\<close> and \<^verbatim>\<open>day\<close> an \<^verbatim>\<open>unsigned char\<close>: what is converted is truncated.\<close>

definition chrono_year :: "int \<Rightarrow> int" where
  "chrono_year y = sint (word_of_int y :: 16 word)"

definition chrono_part :: "int \<Rightarrow> nat" where
  "chrono_part v = nat (v mod 256)"

definition ymd_ok :: "int \<Rightarrow> nat \<Rightarrow> nat \<Rightarrow> bool" where
  "ymd_ok y m d \<longleftrightarrow> - 32767 \<le> y \<and> y \<le> 32767 \<and> 1 \<le> m \<and> m \<le> 12 \<and> 1 \<le> d \<and> d \<le> last_day_of_month y m"

text \<open>The days before a year and before a month, and \<^verbatim>\<open>sys_days\<close> of a date, which counts from 1970-01-01.\<close>

definition days_before_year :: "int \<Rightarrow> int" where
  "days_before_year y = 365 * (y - 1) + (y - 1) div 4 - (y - 1) div 100 + (y - 1) div 400"

definition days_before_month :: "int \<Rightarrow> nat \<Rightarrow> nat" where
  "days_before_month y m = sum_list (map (last_day_of_month y) [1..<m])"

definition sys_days :: "int \<Rightarrow> nat \<Rightarrow> nat \<Rightarrow> int" where
  "sys_days y m d = days_before_year y + int (days_before_month y m) + int d - 1 - 719162"

definition count_max :: int where "count_max = 2 ^ 63 - 1"
definition count_min :: int where "count_min = - (2 ^ 63)"

definition fits_int :: "int \<Rightarrow> bool" where
  "fits_int v \<longleftrightarrow> - (2 ^ 31) \<le> v \<and> v < 2 ^ 31"

definition fits_int64 :: "int \<Rightarrow> bool" where
  "fits_int64 v \<longleftrightarrow> - (2 ^ 63) \<le> v \<and> v < 2 ^ 63"

definition from_chars_int :: "bytes \<Rightarrow> error_code + int \<times> bytes" where
  "from_chars_int s = from_chars (- (2 ^ 31)) (2 ^ 31 - 1) s"

section \<open>Characters\<close>

definition is_space :: "byte \<Rightarrow> bool" where
  "is_space b \<longleftrightarrow> b = 32 \<or> 9 \<le> b \<and> b \<le> 13"

definition is_alpha :: "byte \<Rightarrow> bool" where
  "is_alpha b \<longleftrightarrow> 65 \<le> b \<and> b \<le> 90 \<or> 97 \<le> b \<and> b \<le> 122"

definition to_lower :: "byte \<Rightarrow> byte" where
  "to_lower b = (if 65 \<le> b \<and> b \<le> 90 then b + 32 else b)"

definition trim :: "bytes \<Rightarrow> bytes" where
  "trim sv = rev (dropWhile is_space (rev (dropWhile is_space sv)))"

definition iequals :: "bytes \<Rightarrow> bytes \<Rightarrow> bool" where
  "iequals a b \<longleftrightarrow> map to_lower a = map to_lower b"

definition consume_bc :: "bytes \<Rightarrow> bool \<times> bytes" where
  "consume_bc sv =
     (let sv1 = trim sv
      in if length sv1 < 2 then (False, sv1)
         else if \<not> iequals (drop (length sv1 - 2) sv1) (of_str ''BC'') then (False, sv1)
         else (True, trim (take (length sv1 - 2) sv1)))"

text \<open>The infinities become the largest and the least value of the type.\<close>

definition parse_infinity :: "bytes \<Rightarrow> int option" where
  "parse_infinity sv =
     (if iequals (trim sv) (of_str ''infinity'') then Some count_max
      else if iequals (trim sv) (of_str ''-infinity'') then Some count_min else None)"

section \<open>Parts of dates and times\<close>

definition expect_char :: "byte \<Rightarrow> bytes \<Rightarrow> error_code + bytes" where
  "expect_char c s = (case s of [] \<Rightarrow> Inl (Client protocol_value_error)
     | b # rest \<Rightarrow> if b = c then Inr rest else Inl (Client protocol_value_error))"

definition parse_date_parts :: "bytes \<Rightarrow> error_code + int \<times> int \<times> int" where
  "parse_date_parts sv0 =
     (let sv = trim sv0
      in if sv = [] then Inl (Client protocol_value_error)
         else case from_chars_int sv of
           Inl ec \<Rightarrow> Inl ec
         | Inr (year, p1) \<Rightarrow>
           (case expect_char 45 p1 of
              Inl ec \<Rightarrow> Inl ec
            | Inr p2 \<Rightarrow>
              (case from_chars_int p2 of
                 Inl ec \<Rightarrow> Inl ec
               | Inr (month, p3) \<Rightarrow>
                 (case expect_char 45 p3 of
                    Inl ec \<Rightarrow> Inl ec
                  | Inr p4 \<Rightarrow>
                    (case from_chars_int p4 of
                       Inl ec \<Rightarrow> Inl ec
                     | Inr (day, p5) \<Rightarrow>
                         if p5 \<noteq> [] then Inl (Client protocol_value_error) else Inr (year, month, day))))))"

text \<open>The microseconds of a fraction with \<open>n\<close> digits.\<close>

definition scale_fraction :: "nat \<Rightarrow> int \<Rightarrow> int" where
  "scale_fraction n fraction = (if n > 6 then fraction div 10 ^ (n - 6) else fraction * 10 ^ (6 - n))"

definition parse_fraction :: "bytes \<Rightarrow> error_code + int \<times> bytes" where
  "parse_fraction p =
     (case p of
        [] \<Rightarrow> Inr (0, p)
      | b # rest \<Rightarrow>
          if b \<noteq> 46 then Inr (0, p)
          else
            (let ds = takeWhile is_digit rest
             in if ds = [] then Inl (Client protocol_value_error)
                else case from_chars_int ds of
                       Inl ec \<Rightarrow> Inl ec
                     | Inr (fraction, _) \<Rightarrow> Inr (scale_fraction (length ds) fraction, drop (length ds) rest)))"

definition time_of_parts :: "int \<Rightarrow> int \<Rightarrow> int \<Rightarrow> int \<Rightarrow> int option" where
  "time_of_parts hours minutes seconds us =
     (if hours < 0 \<or> minutes < 0 \<or> seconds < 0 then None
      else if minutes > 59 \<or> seconds > 59 then None
      else if hours > 24 then None
      else if hours = 24 \<and> (minutes \<noteq> 0 \<or> seconds \<noteq> 0 \<or> us \<noteq> 0) then None
      else Some (((hours * 60 + minutes) * 60 + seconds) * 1000000 + us))"

text \<open>The time at the start of a text, with the rest of the text.\<close>

definition parse_time_prefix :: "bytes \<Rightarrow> error_code + int \<times> bytes" where
  "parse_time_prefix sv =
     (case from_chars_int sv of
        Inl ec \<Rightarrow> Inl ec
      | Inr (hours, p1) \<Rightarrow>
        (case expect_char 58 p1 of
           Inl ec \<Rightarrow> Inl ec
         | Inr p2 \<Rightarrow>
           (case from_chars_int p2 of
              Inl ec \<Rightarrow> Inl ec
            | Inr (minutes, p3) \<Rightarrow>
              (case expect_char 58 p3 of
                 Inl ec \<Rightarrow> Inl ec
               | Inr p4 \<Rightarrow>
                 (case from_chars_int p4 of
                    Inl ec \<Rightarrow> Inl ec
                  | Inr (seconds, p5) \<Rightarrow>
                    (case parse_fraction p5 of
                       Inl ec \<Rightarrow> Inl ec
                     | Inr (us, p6) \<Rightarrow>
                       (case time_of_parts hours minutes seconds us of
                          None \<Rightarrow> Inl (Client protocol_value_error)
                        | Some out \<Rightarrow> Inr (out, p6))))))))"

text \<open>The minutes of an offset after its hours.\<close>

definition tz_minutes :: "bytes \<Rightarrow> int option" where
  "tz_minutes p =
     (case p of
        [] \<Rightarrow> Some 0
      | b # rest \<Rightarrow>
          (let q = (if b = 58 then rest else p)
           in case q of
                [c, d] \<Rightarrow> if is_digit c \<and> is_digit d then Some (int (digits_value [c, d])) else None
              | _ \<Rightarrow> None))"

definition parse_tz_suffix :: "bytes \<Rightarrow> error_code + int" where
  "parse_tz_suffix s =
     (let sv = trim s
      in if sv = [] then Inr 0
         else if iequals sv (of_str ''Z'') \<or> iequals sv (of_str ''UTC'') \<or> iequals sv (of_str ''UT'') \<or> iequals sv (of_str ''GMT'')
         then Inr 0
         else if hd sv \<noteq> 43 \<and> hd sv \<noteq> 45 then Inl (Client protocol_value_error)
         else
           (let sign = (if hd sv = 43 then 1 else - 1);
                ds = takeWhile is_digit (take 2 (tl sv));
                hours = int (digits_value ds)
            in if ds = [] then Inl (Client protocol_value_error)
               else case tz_minutes (drop (length ds) (tl sv)) of
                      None \<Rightarrow> Inl (Client protocol_value_error)
                    | Some minutes \<Rightarrow>
                        if hours > 15 \<or> minutes > 59 then Inl (Client protocol_value_error)
                        else Inr ((hours * 3600 + minutes * 60) * sign)))"

section \<open>Dates\<close>

text \<open>The date of a text in which \<^verbatim>\<open>BC\<close> was found or not.\<close>

definition date_of_parts :: "bool \<Rightarrow> int \<Rightarrow> int \<Rightarrow> int \<Rightarrow> (error_code + int) option" where
  "date_of_parts bc year0 month day =
     (if bc \<and> \<not> fits_int (1 - year0) then None
      else
        (let y = chrono_year (if bc then 1 - year0 else year0); m = chrono_part month; d = chrono_part day
         in if \<not> ymd_ok y m d then Some (Inl (Client protocol_value_error)) else Some (Inr (sys_days y m d))))"

definition parse_text_date :: "bytes \<Rightarrow> int \<Rightarrow> int outcome option" where
  "parse_text_date from to =
     (case parse_infinity from of
        Some v \<Rightarrow> Some (None, v)
      | None \<Rightarrow>
          (let (bc, sv) = consume_bc from
           in case parse_date_parts sv of
                Inl ec \<Rightarrow> Some (Some ec, to)
              | Inr (year, month, day) \<Rightarrow>
                  (case date_of_parts bc year month day of
                     None \<Rightarrow> None
                   | Some (Inl ec) \<Rightarrow> Some (Some ec, to)
                   | Some (Inr v) \<Rightarrow> Some (None, v))))"

text \<open>2000-01-01, the day zero of PostgreSQL.\<close>

definition pg_epoch :: int where
  "pg_epoch = sys_days 2000 1 1"

definition parse_binary_date :: "bytes \<Rightarrow> int \<Rightarrow> int outcome option" where
  "parse_binary_date from to =
     (if length from \<noteq> 4 then Some (bad_value, to) else Some (None, pg_epoch + sint (load_big_s32 from)))"

section \<open>Times\<close>

definition parse_text_time :: "bytes \<Rightarrow> int \<Rightarrow> int outcome option" where
  "parse_text_time from to =
     (if from = [] then Some (bad_value, to)
      else case parse_time_prefix (trim from) of
             Inl ec \<Rightarrow> Some (Some ec, to)
           | Inr (out, rest) \<Rightarrow> if trim rest \<noteq> [] then Some (bad_value, to) else Some (None, out))"

definition parse_binary_time :: "bytes \<Rightarrow> int \<Rightarrow> int outcome option" where
  "parse_binary_time from to =
     (if length from \<noteq> 8 then Some (bad_value, to) else Some (None, sint (load_big_s64 from)))"

record pg_timetz =
  tz_time_since_midnight :: int
  tz_utc_offset :: int

definition parse_text_timetz :: "bytes \<Rightarrow> pg_timetz \<Rightarrow> pg_timetz outcome option" where
  "parse_text_timetz from to =
     (case parse_time_prefix (trim from) of
        Inl ec \<Rightarrow> Some (Some ec, to)
      | Inr (time_of_day, rest) \<Rightarrow>
          (case parse_tz_suffix rest of
             Inl ec \<Rightarrow> Some (Some ec, to)
           | Inr offset \<Rightarrow> Some (None, \<lparr>tz_time_since_midnight = time_of_day, tz_utc_offset = offset\<rparr>)))"

definition parse_binary_timetz :: "bytes \<Rightarrow> pg_timetz \<Rightarrow> pg_timetz outcome option" where
  "parse_binary_timetz from to =
     (if length from \<noteq> 12 then Some (bad_value, to)
      else
        (let offset_west_s = sint (load_big_s32 (drop 8 from))
         in if \<not> fits_int (- offset_west_s) then None
            else Some (None, \<lparr>tz_time_since_midnight = sint (load_big_s64 from), tz_utc_offset = - offset_west_s\<rparr>)))"

section \<open>Timestamps\<close>

definition us_per_day :: int where "us_per_day = 86400000000"

text \<open>
  The parsers for timestamps with and without a time zone are the same up to the end of the text: \<open>suffix\<close>
  is what they do with it, giving the offset.
\<close>

definition parse_text_instant :: "(bytes \<Rightarrow> error_code + int) \<Rightarrow> bytes \<Rightarrow> int \<Rightarrow> int outcome option" where
  "parse_text_instant suffix from to =
     (case parse_infinity from of
        Some v \<Rightarrow> Some (None, v)
      | None \<Rightarrow>
          (let (bc, sv0) = consume_bc from;
               sv = trim sv0;
               date_sv = takeWhile (\<lambda>b. b \<noteq> 32 \<and> b \<noteq> 84) sv
           in if date_sv = sv then Some (bad_value, to)
              else
                (let time_sv = trim (drop (length date_sv + 1) sv)
                 in case parse_date_parts date_sv of
                      Inl ec \<Rightarrow> Some (Some ec, to)
                    | Inr (year, month, day) \<Rightarrow>
                        (case date_of_parts bc year month day of
                           None \<Rightarrow> None
                         | Some (Inl ec) \<Rightarrow> Some (Some ec, to)
                         | Some (Inr days) \<Rightarrow>
                             (case parse_time_prefix time_sv of
                                Inl ec \<Rightarrow> Some (Some ec, to)
                              | Inr (tod, rest) \<Rightarrow>
                                  (case suffix rest of
                                     Inl ec \<Rightarrow> Some (Some ec, to)
                                   | Inr offset \<Rightarrow> Some (None, days * us_per_day + tod - offset * 1000000)))))))"

definition parse_text_timestamp :: "bytes \<Rightarrow> int \<Rightarrow> int outcome option" where
  "parse_text_timestamp =
     parse_text_instant (\<lambda>rest. if trim rest \<noteq> [] then Inl (Client protocol_value_error) else Inr 0)"

definition parse_text_timestamptz :: "bytes \<Rightarrow> int \<Rightarrow> int outcome option" where
  "parse_text_timestamptz = parse_text_instant parse_tz_suffix"

definition parse_binary_timestamp :: "bytes \<Rightarrow> int \<Rightarrow> int outcome option" where
  "parse_binary_timestamp from to =
     (if length from \<noteq> 8 then Some (bad_value, to)
      else
        (let us_since_epoch = pg_epoch * us_per_day + sint (load_big_s64 from)
         in if \<not> fits_int64 us_since_epoch then None else Some (None, us_since_epoch)))"

definition parse_binary_timestamptz :: "bytes \<Rightarrow> int \<Rightarrow> int outcome option" where
  "parse_binary_timestamptz from to =
     (if length from \<noteq> 8 then Some (bad_value, to)
      else
        (let us_since_epoch = pg_epoch * us_per_day + sint (load_big_s64 from)
         in if \<not> fits_int64 us_since_epoch then None else Some (None, us_since_epoch)))"

section \<open>Intervals\<close>

record pg_interval =
  iv_months :: int
  iv_days :: int
  iv_time :: int

text \<open>
  \<^verbatim>\<open>parse_int\<close>: a sign of its own and a number, which may have another one. The first component tells whether
  there is a number.
\<close>

definition interval_int :: "bytes \<Rightarrow> (bool \<times> int \<times> bytes) option" where
  "interval_int s0 =
     (let s = dropWhile is_space s0
      in case s of
           [] \<Rightarrow> Some (False, 0, s)
         | b # rest \<Rightarrow>
             (let sign = (if b = 45 then - 1 else 1); s1 = (if b = 45 \<or> b = 43 then rest else s)
              in case from_chars_int s1 of
                   Inl ec \<Rightarrow> Some (False, 0, s1)
                 | Inr (val, rest') \<Rightarrow> if \<not> fits_int (val * sign) then None else Some (True, val * sign, rest')))"

text \<open>Adding a value with its unit.\<close>

definition add_months :: "int \<Rightarrow> pg_interval \<Rightarrow> pg_interval option" where
  "add_months v t = (if fits_int (iv_months t + v) then Some (t\<lparr>iv_months := iv_months t + v\<rparr>) else None)"

definition add_days :: "int \<Rightarrow> pg_interval \<Rightarrow> pg_interval option" where
  "add_days v t = (if fits_int (iv_days t + v) then Some (t\<lparr>iv_days := iv_days t + v\<rparr>) else None)"

definition add_time :: "int \<Rightarrow> pg_interval \<Rightarrow> pg_interval option" where
  "add_time v t = (if fits_int64 (iv_time t + v) then Some (t\<lparr>iv_time := iv_time t + v\<rparr>) else None)"

definition interval_unit :: "bytes \<Rightarrow> int \<Rightarrow> pg_interval \<Rightarrow> pg_interval outcome option" where
  "interval_unit unit val t =
     (let ok = map_option (\<lambda>t'. (None, t'))
      in if unit = of_str ''year'' \<or> unit = of_str ''years'' then
           (if fits_int (val * 12) then ok (add_months (val * 12) t) else None)
         else if unit = of_str ''mon'' \<or> unit = of_str ''mons'' then ok (add_months val t)
         else if unit = of_str ''day'' \<or> unit = of_str ''days'' then ok (add_days val t)
         else if unit = of_str ''hour'' \<or> unit = of_str ''hours'' then ok (add_time (val * 3600000000) t)
         else if unit = of_str ''minute'' \<or> unit = of_str ''minutes'' then ok (add_time (val * 60000000) t)
         else if unit = of_str ''second'' \<or> unit = of_str ''seconds'' then ok (add_time (val * 1000000) t)
         else Some (bad_value, t))"

lemma from_chars_digits_shorter: "from_chars_digits s = Some (n, rest) \<Longrightarrow> length rest < length s"
  by (erule from_chars_digits_SomeD) simp

lemma from_chars_int_shorter:
  assumes "from_chars_int s = Inr (v, rest)"
  shows "length rest < length s"
proof -
  obtain n t where "from_chars_digits t = Some (n, rest)" "t = s \<or> t = tl s"
    using assms by (auto simp: from_chars_int_def from_chars_def Let_def split: option.splits if_splits)
  then show ?thesis using from_chars_digits_shorter [of t n rest] by auto
qed

lemma interval_int_shorter:
  assumes "interval_int s = Some (True, v, rest)"
  shows "length rest < length s"
proof -
  obtain b t s1 w where t: "dropWhile is_space s = b # t" "from_chars_int s1 = Inr (w, rest)" "s1 = t \<or> s1 = b # t"
    using assms by (auto simp: interval_int_def Let_def split: list.splits sum.splits if_splits)
  then have "length rest < length (b # t)" using from_chars_int_shorter [of s1 w rest] by auto
  also have "\<dots> \<le> length s" using length_dropWhile_le [of is_space s] t(1) by simp
  finally show ?thesis .
qed

lemma part_shorter:
  assumes "x \<in> set (takeWhile P (dropWhile is_space s))"
  shows "length (dropWhile is_space s) - length (takeWhile P (dropWhile is_space s)) < length s"
proof -
  have "0 < length (takeWhile P (dropWhile is_space s))" using assms by (cases "takeWhile P (dropWhile is_space s)") auto
  then show ?thesis
    using length_takeWhile_le [of P "dropWhile is_space s"] length_dropWhile_le [of is_space s] by linarith
qed

lemma unit_shorter:
  assumes "interval_int (dropWhile is_space s) = Some (True, v, rest)"
  shows "length (dropWhile is_space rest) - k < length s"
  using interval_int_shorter [OF assms] length_dropWhile_le [of is_space rest] length_dropWhile_le [of is_space s] by linarith

text \<open>
  The loop. A part up to the next blank that has a colon is a time with a sign; anything else is a value
  with a unit.
\<close>

function interval_loop :: "bytes \<Rightarrow> pg_interval \<Rightarrow> pg_interval outcome option" where
  "interval_loop s0 t =
     (let s = dropWhile is_space s0
      in if s = [] then Some (None, t)
         else
           (let part = takeWhile (\<lambda>b. b \<noteq> 32 \<and> b \<noteq> 9 \<and> b \<noteq> 10 \<and> b \<noteq> 13) s
            in if 58 \<in> set part then
                 (let has_sign = (hd s = 45 \<or> hd s = 43);
                      sign = (if hd s = 45 then - 1 else 1 :: int);
                      body = (if has_sign then tl part else part)
                  in case parse_text_time body 0 of
                       None \<Rightarrow> None
                     | Some (Some ec, _) \<Rightarrow> Some (Some ec, t)
                     | Some (None, time_part) \<Rightarrow>
                         (case add_time (time_part * sign) t of
                            None \<Rightarrow> None
                          | Some t' \<Rightarrow> interval_loop (drop (length part) s) t'))
               else
                 (case interval_int s of
                    None \<Rightarrow> None
                  | Some (False, _, _) \<Rightarrow> Some (bad_value, t)
                  | Some (True, val, rest) \<Rightarrow>
                      (let s2 = dropWhile is_space rest; unit = takeWhile is_alpha s2
                       in case interval_unit unit val t of
                            None \<Rightarrow> None
                          | Some (Some ec, _) \<Rightarrow> Some (Some ec, t)
                          | Some (None, t') \<Rightarrow> interval_loop (drop (length unit) s2) t'))))"
  by pat_completeness auto
termination
  by (relation "measure (\<lambda>(s, t). length s)") (auto intro: part_shorter unit_shorter)

declare interval_loop.simps [simp del]

definition parse_text_interval :: "bytes \<Rightarrow> pg_interval \<Rightarrow> pg_interval outcome option" where
  "parse_text_interval from to =
     (let zero = \<lparr>iv_months = 0, iv_days = 0, iv_time = 0\<rparr>
      in if from = [] then Some (bad_value, zero) else interval_loop from zero)"

definition parse_binary_interval :: "bytes \<Rightarrow> pg_interval \<Rightarrow> pg_interval outcome option" where
  "parse_binary_interval from to =
     (if length from \<noteq> 16 then Some (bad_value, to)
      else Some (None, \<lparr>iv_months = sint (load_big_s32 (drop 12 from)), iv_days = sint (load_big_s32 (drop 8 from)),
        iv_time = sint (load_big_s64 from)\<rparr>))"

section \<open>Traits\<close>

definition date_oid :: int32 where "date_oid = 1082"
definition time_oid :: int32 where "time_oid = 1083"
definition timetz_oid :: int32 where "timetz_oid = 1266"
definition timestamp_oid :: int32 where "timestamp_oid = 1114"
definition timestamptz_oid :: int32 where "timestamptz_oid = 1184"
definition interval_oid :: int32 where "interval_oid = 1186"

text \<open>The specializations have the same shape; the parsers may overflow.\<close>

definition datetime_traits ::
    "int32 \<Rightarrow> (bytes \<Rightarrow> 'a \<Rightarrow> 'a outcome option) \<Rightarrow> (bytes \<Rightarrow> 'a \<Rightarrow> 'a outcome option) \<Rightarrow> 'a parse_field_traits" where
  "datetime_traits expected parse_text parse_binary =
     (let parse = (\<lambda>p from type_oid to.
            if from = None then Some (Some (Client unexpected_null), to)
            else if type_oid = expected then p (fv_data from) to else None)
      in \<lparr>ft_is_compatible = (\<lambda>type_oid. compatible_if (type_oid = expected)),
          ft_parse_text = parse parse_text, ft_parse_binary = parse parse_binary\<rparr>)"

definition date_traits :: "int parse_field_traits" where
  "date_traits = datetime_traits date_oid parse_text_date parse_binary_date"

definition time_traits :: "int parse_field_traits" where
  "time_traits = datetime_traits time_oid parse_text_time parse_binary_time"

definition timetz_traits :: "pg_timetz parse_field_traits" where
  "timetz_traits = datetime_traits timetz_oid parse_text_timetz parse_binary_timetz"

definition timestamp_traits :: "int parse_field_traits" where
  "timestamp_traits = datetime_traits timestamp_oid parse_text_timestamp parse_binary_timestamp"

definition timestamptz_traits :: "int parse_field_traits" where
  "timestamptz_traits = datetime_traits timestamptz_oid parse_text_timestamptz parse_binary_timestamptz"

definition interval_traits :: "pg_interval parse_field_traits" where
  "interval_traits = datetime_traits interval_oid parse_text_interval parse_binary_interval"

end
