(* ===== verification/Pg_Datetime_Facts.thy ===== *)
theory Pg_Datetime_Facts
  imports Pg_Datetime
begin

text \<open>
  The two formats of dates and timestamps agree: the text PostgreSQL prints for a date, a time of day or an
  instant and its binary form parse to the same value, that of the calendar. Two flaws of the parsers are
  shown at the end: intervals of more than a day, and the infinities in the binary format.
\<close>

section \<open>The calendar\<close>

text \<open>The day after a day, month by month, and that the count of days follows it.\<close>

definition next_day :: "int \<times> nat \<times> nat \<Rightarrow> int \<times> nat \<times> nat" where
  "next_day date =
     (case date of (y, m, d) \<Rightarrow>
        if d < last_day_of_month y m then (y, m, d + 1) else if m < 12 then (y, m + 1, 1) else (y + 1, 1, 1))"

lemma days_before_month_Suc: "1 \<le> m \<Longrightarrow> days_before_month y (Suc m) = days_before_month y m + last_day_of_month y m"
  by (simp add: days_before_month_def)

lemma days_of_year: "days_before_month y 13 = (if is_leap y then 366 else 365)"
  by (simp add: days_before_month_def last_day_of_month_def upt_rec)

lemma div_step:
  fixes k n :: int
  assumes "0 < n"
  shows "k div n = (k - 1) div n + of_bool (k mod n = 0)"
proof (cases "k mod n = 0")
  case True
  then have "k = n * (k div n)" using mult_div_mod_eq [of n k] by simp
  then have "k - 1 = n * (k div n - 1) + (n - 1)" by (simp add: algebra_simps)
  then have "(k - 1) div n = k div n - 1" by (rule int_div_pos_eq) (use assms in simp_all)
  then show ?thesis using True by simp
next
  case False
  have r: "0 \<le> k mod n" "k mod n < n" using assms by simp_all
  have "k - 1 = n * (k div n) + (k mod n - 1)" using mult_div_mod_eq [of n k] by simp
  then have "(k - 1) div n = k div n" by (rule int_div_pos_eq) (use r False in simp_all)
  then show ?thesis using False by simp
qed

lemma days_before_next_year: "days_before_year (y + 1) = days_before_year y + (if is_leap y then 366 else 365)"
proof -
  have "y mod 4 = (y mod 100) mod 4" "y mod 100 = (y mod 400) mod 100" by (simp_all add: mod_mod_cancel)
  then have "y mod 100 = 0 \<longrightarrow> y mod 4 = 0" "y mod 400 = 0 \<longrightarrow> y mod 100 = 0" by simp_all
  then have leap: "of_bool (y mod 4 = 0) - of_bool (y mod 100 = 0) + of_bool (y mod 400 = 0) = (of_bool (is_leap y) :: int)"
    unfolding is_leap_def by (cases "y mod 4 = 0"; cases "y mod 100 = 0"; cases "y mod 400 = 0") simp_all
  have steps: "y div 4 = (y - 1) div 4 + of_bool (y mod 4 = 0)" "y div 100 = (y - 1) div 100 + of_bool (y mod 100 = 0)"
    "y div 400 = (y - 1) div 400 + of_bool (y mod 400 = 0)" by (rule div_step, simp)+
  have sum: "365 * y + (a + p) - (b + q) + (c + r) = 365 * (y - 1) + a - b + c + 365 + (p - q + r)" for a b c p q r :: int
    by simp
  have "days_before_year (y + 1) = days_before_year y + 365 +
      (of_bool (y mod 4 = 0) - of_bool (y mod 100 = 0) + of_bool (y mod 400 = 0))"
    unfolding days_before_year_def add_diff_cancel_right' steps by (rule sum)
  also have "\<dots> = days_before_year y + (if is_leap y then 366 else 365)" unfolding leap by simp
  finally show ?thesis .
qed

lemma sys_days_next:
  assumes "1 \<le> m" "m \<le> 12" "1 \<le> d" "d \<le> last_day_of_month y m" and "next_day (y, m, d) = (y', m', d')"
  shows "sys_days y' m' d' = sys_days y m d + 1"
proof (cases "d < last_day_of_month y m")
  case True
  then show ?thesis using assms(5) by (auto simp: next_day_def sys_days_def)
next
  case False
  then have d: "d = last_day_of_month y m" using assms(4) by simp
  show ?thesis
  proof (cases "m < 12")
    case True
    then show ?thesis using assms(1,5) d days_before_month_Suc [of m y] by (auto simp: next_day_def sys_days_def)
  next
    case False
    then have m: "m = 12" using assms(2) by simp
    then have "days_before_month y 12 + last_day_of_month y 12 = (if is_leap y then 366 else 365)"
      using days_before_month_Suc [of 12 y] days_of_year [of y] by simp
    then show ?thesis
      using assms(5) d m days_before_next_year [of y] by (auto simp: next_day_def sys_days_def days_before_month_def)
  qed
qed

lemma sys_days_epoch: "sys_days 1970 1 1 = 0"
  by (simp add: sys_days_def days_before_year_def days_before_month_def)

section \<open>Padded numbers\<close>

text \<open>Decimal numbers with leading zeros, as PostgreSQL prints the parts of dates and times.\<close>

definition pad_digits :: "nat \<Rightarrow> nat \<Rightarrow> bytes" where
  "pad_digits w n = replicate (w - length (digits_of n)) 48 @ digits_of n"

lemma digits_value_zeros: "digits_value (replicate k 48 @ ds) = digits_value ds"
proof -
  have "foldl (\<lambda>a b. a * 10 + digit_value b) 0 (replicate k 48) = 0"
    by (induction k) (simp_all add: digit_value_def)
  then show ?thesis by (simp add: digits_value_def)
qed

lemma pad_digits_simps [simp]:
  "list_all is_digit (pad_digits w n)" "pad_digits w n \<noteq> []" "digits_value (pad_digits w n) = n"
  using digits_of_digits [of n]
  by (simp_all add: pad_digits_def digits_value_zeros) (simp_all add: is_digit_def list_all_iff)

lemma hd_digits: "list_all is_digit ds \<Longrightarrow> ds \<noteq> [] \<Longrightarrow> is_digit (hd (ds @ rest)) \<and> hd (ds @ rest) \<noteq> 45"
  using not_digit_minus by (cases ds) auto

lemma from_chars_int_digits:
  assumes "list_all is_digit ds" and "ds \<noteq> []" and "rest = [] \<or> \<not> is_digit (hd rest)" and "digits_value ds < 2 ^ 31"
  shows "from_chars_int (ds @ rest) = Inr (int (digits_value ds), rest)"
  using from_chars_digits_append [OF assms(1-3)] hd_digits [OF assms(1,2), of rest] assms(4)
  by (simp add: from_chars_int_def from_chars_def Let_def)

lemma from_chars_int_pad:
  assumes "n < 2 ^ 31" and "rest = [] \<or> \<not> is_digit (hd rest)"
  shows "from_chars_int (pad_digits w n @ rest) = Inr (int n, rest)"
  using from_chars_int_digits [of "pad_digits w n" rest] assms by simp

section \<open>Spaces\<close>

lemma trim_tight:
  assumes "s \<noteq> []" and "\<not> is_space (hd s)" and "\<not> is_space (last s)"
  shows "trim s = s"
proof -
  have "dropWhile is_space s = s" using assms(1,2) by (cases s) auto
  moreover have "dropWhile is_space (rev s) = rev s" using assms(1,3) by (cases s rule: rev_cases) auto
  ultimately show ?thesis by (simp add: trim_def)
qed

lemma trim_space: "trim (s @ [32]) = trim s" if "\<not> list_all is_space s"
proof -
  have "dropWhile is_space (s @ [32]) = dropWhile is_space s @ [32]"
    using that by (auto simp: dropWhile_append list_all_iff)
  then show ?thesis by (simp add: trim_def is_space_def)
qed

lemma trim_Nil [simp]: "trim [] = []"
  by (simp add: trim_def)

lemma digit_not_space: "is_digit b \<Longrightarrow> \<not> is_space b"
  by (auto simp: is_digit_def is_space_def word_le_nat_alt)

lemma digit_lower: "is_digit b \<Longrightarrow> to_lower b = b"
  by (auto simp: is_digit_def to_lower_def word_le_nat_alt)

text \<open>Texts that start with a digit and do not end with a space, as those of dates and times do.\<close>

definition tight :: "bytes \<Rightarrow> bool" where
  "tight s \<longleftrightarrow> s \<noteq> [] \<and> is_digit (hd s) \<and> \<not> is_space (last s)"

lemma tight_trim: "tight s \<Longrightarrow> trim s = s"
  by (simp add: tight_def trim_tight digit_not_space)

lemma of_str_bc: "of_str ''BC'' = [66, 67]" "of_str '' BC'' = [32, 66, 67]"
  by code_simp+

lemma parse_infinity_tight:
  assumes "tight s"
  shows "parse_infinity s = None"
proof -
  obtain b t where s: "s = b # t" "is_digit b" using assms by (cases s) (auto simp: tight_def)
  have "of_str ''infinity'' = 105 # of_str ''nfinity''" "of_str ''-infinity'' = 45 # of_str ''infinity''" by code_simp+
  moreover have "to_lower b \<noteq> 105" "to_lower b \<noteq> 45"
    using s(2) not_digit_minus by (auto simp: digit_lower is_digit_def)
  moreover have "to_lower 105 = 105" "to_lower 45 = 45" by code_simp+
  ultimately show ?thesis
    using tight_trim [OF assms] s(1) by (simp add: parse_infinity_def iequals_def)
qed

lemma last_two:
  assumes "2 \<le> length s"
  shows "\<exists>a. drop (length s - 2) s = [a, last s]"
proof -
  obtain t b where t: "s = t @ [b]" using assms by (cases s rule: rev_cases) auto
  obtain u a where "t = u @ [a]" using assms t by (cases t rule: rev_cases) auto
  then show ?thesis using t by simp
qed

lemma consume_bc_digit:
  assumes "tight s" and "is_digit (last s)"
  shows "consume_bc s = (False, s)"
proof (cases "length s < 2")
  case False
  then obtain a where "drop (length s - 2) s = [a, last s]" using last_two [of s] by auto
  moreover have "to_lower (last s) \<noteq> to_lower 67"
    using assms(2) by (auto simp: digit_lower to_lower_def is_digit_def)
  ultimately show ?thesis
    using False tight_trim [OF assms(1)] by (simp add: consume_bc_def of_str_bc iequals_def)
qed (simp add: consume_bc_def tight_trim [OF assms(1)])

lemma consume_bc_suffix:
  assumes "tight s"
  shows "consume_bc (s @ of_str '' BC'') = (True, s)"
proof -
  have "tight (s @ of_str '' BC'')" using assms by (auto simp: tight_def of_str_bc is_space_def)
  moreover have "trim (s @ [32]) = s"
    using trim_space [of s] tight_trim [OF assms] assms by (cases s) (auto simp: tight_def digit_not_space)
  ultimately show ?thesis using tight_trim [of "s @ of_str '' BC''"] by (simp add: consume_bc_def of_str_bc iequals_def)
qed

section \<open>Dates\<close>

definition ymd_text :: "nat \<Rightarrow> nat \<Rightarrow> nat \<Rightarrow> bytes" where
  "ymd_text n m d = pad_digits 4 n @ 45 # pad_digits 2 m @ 45 # pad_digits 2 d"

lemma last_digits: "list_all is_digit ds \<Longrightarrow> ds \<noteq> [] \<Longrightarrow> is_digit (last ds)"
  by (simp add: list_all_iff)

lemma ymd_text_tight: "tight (ymd_text n m d)" "is_digit (last (ymd_text n m d))"
proof -
  show l: "is_digit (last (ymd_text n m d))" using last_digits [of "pad_digits 2 d"] by (simp add: ymd_text_def)
  show "tight (ymd_text n m d)"
    using l hd_digits [of "pad_digits 4 n"] by (simp add: tight_def digit_not_space) (simp add: ymd_text_def)
qed

lemma parse_ymd_text:
  assumes "n < 2 ^ 31" "m < 2 ^ 31" "d < 2 ^ 31"
  shows "parse_date_parts (ymd_text n m d) = Inr (int n, int m, int d)"
proof -
  have "trim (ymd_text n m d) = ymd_text n m d" "ymd_text n m d \<noteq> []"
    using tight_trim ymd_text_tight(1) by (auto simp: ymd_text_def)
  then show ?thesis
    using from_chars_int_pad [OF assms(1), of "45 # pad_digits 2 m @ 45 # pad_digits 2 d" 4]
      from_chars_int_pad [OF assms(2), of "45 # pad_digits 2 d" 2] from_chars_int_pad [OF assms(3), of "[]" 2] not_digit_minus
    by (simp add: parse_date_parts_def) (simp add: ymd_text_def expect_char_def)
qed

text \<open>A date as PostgreSQL prints it. The year before the year 1 is 1 BC.\<close>

definition pg_date_text :: "int \<Rightarrow> nat \<Rightarrow> nat \<Rightarrow> bytes" where
  "pg_date_text y m d = (if 1 \<le> y then ymd_text (nat y) m d else ymd_text (nat (1 - y)) m d @ of_str '' BC'')"

lemma chrono_id: "- 32767 \<le> y \<Longrightarrow> y \<le> 32767 \<Longrightarrow> chrono_year y = y" "m < 256 \<Longrightarrow> chrono_part (int m) = m"
  by (simp_all add: chrono_year_def chrono_part_def sint_sbintrunc' signed_take_bit_int_eq_self)

lemma last_day_le: "last_day_of_month y m \<le> 31"
  by (simp add: last_day_of_month_def)

lemma date_of_ymd:
  assumes "ymd_ok y m d"
  shows "date_of_parts (y < 1) (if 1 \<le> y then y else 1 - y) (int m) (int d) = Some (Inr (sys_days y m d))"
proof -
  have "m < 256" "d < 256" "- 32767 \<le> y" "y \<le> 32767" using assms last_day_le [of y m] by (auto simp: ymd_ok_def)
  then show ?thesis using assms by (simp add: date_of_parts_def chrono_id fits_int_def)
qed

lemma parse_text_date_ok:
  assumes "ymd_ok y m d"
  shows "parse_text_date (pg_date_text y m d) to = Some (None, sys_days y m d)"
proof -
  have b: "nat y < 2 ^ 31" "nat (1 - y) < 2 ^ 31" "m < 2 ^ 31" "d < 2 ^ 31"
    using assms last_day_le [of y m] by (auto simp: ymd_ok_def)
  note parts = parse_ymd_text [OF b(1,3,4)] parse_ymd_text [OF b(2,3,4)]
  show ?thesis
  proof (cases "1 \<le> y")
    case True
    then show ?thesis
      using parse_infinity_tight [OF ymd_text_tight(1)] consume_bc_digit [OF ymd_text_tight] parts(1) date_of_ymd [OF assms]
      by (simp add: parse_text_date_def pg_date_text_def)
  next
    case False
    have "tight (ymd_text (nat (1 - y)) m d @ of_str '' BC'')"
      using ymd_text_tight(1) [of "nat (1 - y)" m d] by (auto simp: tight_def of_str_bc is_space_def)
    from parse_infinity_tight [OF this] consume_bc_suffix [OF ymd_text_tight(1)] parts(2) date_of_ymd [OF assms] False
    show ?thesis by (simp add: parse_text_date_def pg_date_text_def)
  qed
qed

lemma days_before_month_le: "days_before_month y m \<le> 31 * m"
proof -
  have "sum_list (map (last_day_of_month y) xs) \<le> 31 * length xs" for xs
    using last_day_le by (induction xs) (auto intro: add_mono)
  from this [of "[1..<m]"] show ?thesis by (simp add: days_before_month_def)
qed

lemma sys_days_bounds:
  assumes "ymd_ok y m d"
  shows "- (2 ^ 24) < sys_days y m d" "sys_days y m d < 2 ^ 24"
proof -
  have y: "- 32767 \<le> y" "y \<le> 32767" and m: "m \<le> 12" "d \<le> 31" using assms last_day_le [of y m] by (auto simp: ymd_ok_def)
  have b: "int (days_before_month y m) \<le> 31 * 12" using days_before_month_le [of y m] m(1) by simp
  have q: "n * (k div n) \<le> k" "k < n * (k div n) + n" if "0 < n" for k n :: int
    using that mult_div_mod_eq [of n k] pos_mod_bound [of n k] pos_mod_sign [of n k] by linarith+
  note parts = q [of 4 "y - 1"] q [of 100 "y - 1"] q [of 400 "y - 1"]
  show "- (2 ^ 24) < sys_days y m d" "sys_days y m d < 2 ^ 24"
    using y m b parts unfolding sys_days_def days_before_year_def by simp_all
qed

lemma sint_word_of_int: "- (2 ^ (LENGTH('a) - 1)) \<le> v \<Longrightarrow> v < 2 ^ (LENGTH('a) - 1) \<Longrightarrow> sint (word_of_int v :: 'a::len word) = v"
  by (simp add: sint_sbintrunc' signed_take_bit_int_eq_self)

text \<open>The binary form of a date: the days since 2000-01-01.\<close>

definition pg_date_binary :: "int \<Rightarrow> nat \<Rightarrow> nat \<Rightarrow> bytes" where
  "pg_date_binary y m d = store_big_s32 (word_of_int (sys_days y m d - pg_epoch))"

lemma pg_epoch_value: "pg_epoch = 10957"
  by (simp add: pg_epoch_def sys_days_def days_before_year_def days_before_month_def)

lemma parse_binary_date_ok:
  assumes "ymd_ok y m d"
  shows "parse_binary_date (pg_date_binary y m d) to = Some (None, sys_days y m d)"
proof -
  have "sint (word_of_int (sys_days y m d - pg_epoch) :: int32) = sys_days y m d - pg_epoch"
    by (rule sint_word_of_int) (use sys_days_bounds [OF assms] in \<open>simp_all add: pg_epoch_value\<close>)
  then show ?thesis by (simp add: parse_binary_date_def pg_date_binary_def load_store_s32)
qed

section \<open>Times of day\<close>

text \<open>A time of day with the digits of its fraction of a second, and its microseconds.\<close>

definition fraction_text :: "bytes \<Rightarrow> bytes" where
  "fraction_text ds = (if ds = [] then [] else 46 # ds)"

definition clock_text :: "nat \<Rightarrow> nat \<Rightarrow> nat \<Rightarrow> bytes \<Rightarrow> bytes" where
  "clock_text h mi s ds = pad_digits 2 h @ 58 # pad_digits 2 mi @ 58 # pad_digits 2 s @ fraction_text ds"

definition clock_ok :: "nat \<Rightarrow> nat \<Rightarrow> nat \<Rightarrow> bytes \<Rightarrow> bool" where
  "clock_ok h mi s ds \<longleftrightarrow> h < 24 \<and> mi < 60 \<and> s < 60 \<and> list_all is_digit ds \<and> length ds \<le> 6"

definition clock_us :: "nat \<Rightarrow> nat \<Rightarrow> nat \<Rightarrow> bytes \<Rightarrow> int" where
  "clock_us h mi s ds = int (((h * 60 + mi) * 60 + s) * 1000000 + digits_value ds * 10 ^ (6 - length ds))"

text \<open>What may follow a time of day.\<close>

definition after_clock :: "bytes \<Rightarrow> bool" where
  "after_clock rest \<longleftrightarrow> rest = [] \<or> \<not> is_digit (hd rest) \<and> hd rest \<noteq> 46"

lemma digits_value_less: "list_all is_digit ds \<Longrightarrow> digits_value ds < 10 ^ length ds"
proof (induction ds rule: rev_induct)
  case (snoc d ds)
  then have "digits_value ds < 10 ^ length ds" "digit_value d < 10" by (auto simp: is_digit_def digit_value_def)
  then have "Suc (digits_value ds) * 10 \<le> 10 ^ length ds * 10" by (intro mult_le_mono1) simp
  then show ?case using \<open>digit_value d < 10\<close> by simp
qed simp

lemma not_digit_colon: "\<not> is_digit 58" "\<not> is_digit 46"
  by (simp_all add: is_digit_def)

lemma parse_fraction_text:
  assumes "list_all is_digit ds" and "length ds \<le> 6" and "after_clock rest"
  shows "parse_fraction (fraction_text ds @ rest) = Inr (int (digits_value ds * 10 ^ (6 - length ds)), rest)"
proof (cases "ds = []")
  case True
  then show ?thesis using assms(3) by (auto simp: parse_fraction_def fraction_text_def after_clock_def split: list.splits)
next
  case False
  have t: "takeWhile is_digit (ds @ rest) = ds"
    by (rule takeWhile_digits) (use assms in \<open>auto simp: after_clock_def\<close>)
  have "digits_value ds < 10 ^ 6"
    using digits_value_less [OF assms(1)] power_increasing [OF assms(2), of "10 :: nat"] by simp
  then have "from_chars_int ds = Inr (int (digits_value ds), [])"
    using from_chars_int_digits [OF assms(1) False, of "[]"] by simp
  then show ?thesis using False t assms(2) by (simp add: parse_fraction_def fraction_text_def scale_fraction_def)
qed

lemma fraction_head: "after_clock rest \<Longrightarrow> fraction_text ds @ rest = [] \<or> \<not> is_digit (hd (fraction_text ds @ rest))"
  using not_digit_colon by (auto simp: fraction_text_def after_clock_def)

lemma time_of_clock:
  assumes "clock_ok h mi s ds"
  shows "time_of_parts (int h) (int mi) (int s) (int (digits_value ds * 10 ^ (6 - length ds))) = Some (clock_us h mi s ds)"
  using assms by (simp add: clock_ok_def clock_us_def time_of_parts_def)

lemma parse_clock_parts:
  assumes "h < 2 ^ 31" "mi < 2 ^ 31" "s < 2 ^ 31" and ds: "list_all is_digit ds" "length ds \<le> 6" and "after_clock rest"
  shows "parse_time_prefix (clock_text h mi s ds @ rest) =
    (case time_of_parts (int h) (int mi) (int s) (int (digits_value ds * 10 ^ (6 - length ds))) of
       None \<Rightarrow> Inl (Client protocol_value_error) | Some out \<Rightarrow> Inr (out, rest))"
proof -
  note h = from_chars_int_pad [OF assms(1), of "58 # pad_digits 2 mi @ 58 # pad_digits 2 s @ fraction_text ds @ rest" 2]
    and mi = from_chars_int_pad [OF assms(2), of "58 # pad_digits 2 s @ fraction_text ds @ rest" 2]
    and s = from_chars_int_pad [OF assms(3) fraction_head [OF assms(6), of ds], of 2]
  show ?thesis
    using h mi s parse_fraction_text [OF ds assms(6)] not_digit_colon
    by (simp add: parse_time_prefix_def clock_text_def expect_char_def)
qed

lemma parse_clock:
  assumes "clock_ok h mi s ds" and "after_clock rest"
  shows "parse_time_prefix (clock_text h mi s ds @ rest) = Inr (clock_us h mi s ds, rest)"
  using parse_clock_parts [of h mi s ds rest] time_of_clock [OF assms(1)] assms by (simp add: clock_ok_def)

lemma clock_text_tight:
  assumes "list_all is_digit ds"
  shows "tight (clock_text h mi s ds)" "is_digit (last (clock_text h mi s ds))"
proof -
  show l: "is_digit (last (clock_text h mi s ds))"
    using last_digits [of "pad_digits 2 s"] last_digits [of ds] assms by (simp add: clock_text_def fraction_text_def)
  show "tight (clock_text h mi s ds)"
    using l hd_digits [of "pad_digits 2 h"] by (simp add: tight_def digit_not_space) (simp add: clock_text_def)
qed

lemma clock_ok_digits: "clock_ok h mi s ds \<Longrightarrow> list_all is_digit ds"
  by (simp add: clock_ok_def)

lemma clock_us_bounds: "clock_ok h mi s ds \<Longrightarrow> 0 \<le> clock_us h mi s ds \<and> clock_us h mi s ds < us_per_day"
proof -
  assume ok: "clock_ok h mi s ds"
  have "digits_value ds * 10 ^ (6 - length ds) < 10 ^ length ds * 10 ^ (6 - length ds)"
    using digits_value_less [of ds] ok by (intro mult_strict_right_mono) (simp_all add: clock_ok_def)
  also have "\<dots> = 10 ^ 6" using ok by (simp add: clock_ok_def flip: power_add)
  finally have f: "digits_value ds * 10 ^ (6 - length ds) < 1000000" by simp
  have "int (((h * 60 + mi) * 60 + s) * 1000000 + k) < us_per_day" if "k < 1000000" for k
    using that ok by (simp add: clock_ok_def us_per_day_def)
  from this [OF f] show ?thesis by (simp add: clock_us_def)
qed

lemma parse_text_time_ok:
  assumes "clock_ok h mi s ds"
  shows "parse_text_time (clock_text h mi s ds) to = Some (None, clock_us h mi s ds)"
  using parse_clock [OF assms, of "[]"] tight_trim [OF clock_text_tight(1) [OF clock_ok_digits [OF assms]]] clock_text_tight(1) [OF clock_ok_digits [OF assms]]
  by (simp add: parse_text_time_def after_clock_def tight_def)

text \<open>An offset from UTC, east or west of it, as PostgreSQL prints it, and its seconds.\<close>

definition offset_text :: "bool \<Rightarrow> nat \<Rightarrow> nat \<Rightarrow> bytes" where
  "offset_text west h mi = (if west then 45 else 43) # pad_digits 2 h @ (if mi = 0 then [] else 58 # pad_digits 2 mi)"

definition offset_seconds :: "bool \<Rightarrow> nat \<Rightarrow> nat \<Rightarrow> int" where
  "offset_seconds west h mi = (if west then - 1 else 1) * int (h * 3600 + mi * 60)"

definition offset_ok :: "nat \<Rightarrow> nat \<Rightarrow> bool" where
  "offset_ok h mi \<longleftrightarrow> h \<le> 15 \<and> mi < 60"

lemma pad_two: "n < 100 \<Longrightarrow> pad_digits 2 n = [digit_char (n div 10), digit_char (n mod 10)]"
  using div_less_iff_less_mult [of 10 n 10]
  by (simp add: pad_digits_def digits_of.simps [of n] digits_of.simps [of "n div 10"] digit_char_def)

lemma pad_two_obtain:
  assumes "n < 100"
  obtains a b where "pad_digits 2 n = [a, b]" "is_digit a" "is_digit b" "digits_value [a, b] = n"
  using pad_two [OF assms] pad_digits_simps(1,3) [of 2 n] that by simp

lemma tz_minutes_text: "mi < 60 \<Longrightarrow> tz_minutes (if mi = 0 then [] else 58 # pad_digits 2 mi) = Some (int mi)"
  by (rule pad_two_obtain [of mi]) (auto simp: tz_minutes_def)

lemma offset_text_trim:
  assumes "offset_ok h mi"
  shows "trim (offset_text west h mi) = offset_text west h mi" "is_digit (last (offset_text west h mi))"
proof -
  show l: "is_digit (last (offset_text west h mi))"
    using last_digits [of "pad_digits 2 h"] last_digits [of "pad_digits 2 mi"] by (simp add: offset_text_def)
  show "trim (offset_text west h mi) = offset_text west h mi"
    by (rule trim_tight) (use digit_not_space [OF l] in \<open>simp_all add: offset_text_def is_space_def\<close>)
qed

lemma parse_offset:
  assumes "offset_ok h mi"
  shows "parse_tz_suffix (offset_text west h mi) = Inr (offset_seconds west h mi)"
proof -
  have lo: "to_lower (if west then 45 else 43) \<notin> {to_lower 90, to_lower 85, to_lower 71}"
    by (cases west) (simp_all add: to_lower_def)
  have names: "of_str ''Z'' = [90]" "of_str ''UTC'' = [85, 84, 67]" "of_str ''UT'' = [85, 84]" "of_str ''GMT'' = [71, 77, 84]"
    by code_simp+
  obtain a b where h: "pad_digits 2 h = [a, b]" "is_digit a" "is_digit b" "digits_value [a, b] = h"
    using assms by (auto simp: offset_ok_def intro: pad_two_obtain [of h])
  have mi: "tz_minutes (if mi = 0 then [] else 58 # pad_digits 2 mi) = Some (int mi)"
    using assms tz_minutes_text by (simp add: offset_ok_def)
  show ?thesis
    using lo h mi assms offset_text_trim(1) [OF assms, of west]
    by (simp add: parse_tz_suffix_def Let_def) (auto simp: offset_text_def iequals_def names offset_ok_def offset_seconds_def)
qed

section \<open>Timestamps\<close>

text \<open>A date and a time of day, with an offset or none, as PostgreSQL prints them: \<^verbatim>\<open>BC\<close> comes last.\<close>

definition pg_instant_text :: "int \<Rightarrow> nat \<Rightarrow> nat \<Rightarrow> bytes \<Rightarrow> bytes \<Rightarrow> bytes" where
  "pg_instant_text y m d clock offset =
     ymd_text (nat (if 1 \<le> y then y else 1 - y)) m d @ 32 # clock @ offset @ (if 1 \<le> y then [] else of_str '' BC'')"

definition pg_instant_binary :: "int \<Rightarrow> bytes" where
  "pg_instant_binary us = store_big_s64 (word_of_int (us - pg_epoch * us_per_day))"

lemma takeWhile_date: "takeWhile (\<lambda>b. b \<noteq> 32 \<and> b \<noteq> 84) (ymd_text n m d @ 32 # rest) = ymd_text n m d"
proof -
  have "b \<noteq> 32 \<and> b \<noteq> 84" if "b \<in> set (ymd_text n m d)" for b
    using that pad_digits_simps(1) [of 4 n] pad_digits_simps(1) [of 2 m] pad_digits_simps(1) [of 2 d]
    by (auto simp: ymd_text_def list_all_iff is_digit_def)
  then show ?thesis by (subst takeWhile_append2) simp_all
qed

lemma instant_parts:
  fixes y :: int and m d :: nat
  assumes "tight clock" and "is_digit (last (clock @ offset))"
  defines "sv \<equiv> ymd_text (nat (if 1 \<le> y then y else 1 - y)) m d @ 32 # clock @ offset"
  shows "parse_infinity (pg_instant_text y m d clock offset) = None"
    and "consume_bc (pg_instant_text y m d clock offset) = (y < 1, sv)" and "trim sv = sv" and "trim (clock @ offset) = clock @ offset"
proof -
  have sv: "tight sv" "is_digit (last sv)"
    using assms(1,2) ymd_text_tight(1) [of "nat (if 1 \<le> y then y else 1 - y)" m d]
    by (auto simp: sv_def tight_def digit_not_space)
  have eq: "pg_instant_text y m d clock offset = sv @ (if 1 \<le> y then [] else of_str '' BC'')"
    by (simp add: pg_instant_text_def sv_def)
  have "tight (pg_instant_text y m d clock offset)"
    using sv(1) by (auto simp: eq tight_def of_str_bc is_space_def)
  then show "parse_infinity (pg_instant_text y m d clock offset) = None" by (rule parse_infinity_tight)
  show "consume_bc (pg_instant_text y m d clock offset) = (y < 1, sv)"
    using consume_bc_digit [OF sv] consume_bc_suffix [OF sv(1)] by (simp add: eq)
  show "trim sv = sv" using sv(1) by (rule tight_trim)
  show "trim (clock @ offset) = clock @ offset"
    by (rule trim_tight) (use assms(1,2) digit_not_space in \<open>auto simp: tight_def\<close>)
qed

lemma parse_text_instant_ok:
  assumes "ymd_ok y m d" and "clock_ok h mi s ds" and "after_clock offset"
    and "is_digit (last (clock_text h mi s ds @ offset))" and "suffix offset = Inr secs"
  shows "parse_text_instant suffix (pg_instant_text y m d (clock_text h mi s ds) offset) to =
     Some (None, sys_days y m d * us_per_day + clock_us h mi s ds - secs * 1000000)"
proof -
  let ?n = "nat (if 1 \<le> y then y else 1 - y)"
  have b: "?n < 2 ^ 31" "m < 2 ^ 31" "d < 2 ^ 31" and n: "int ?n = (if 1 \<le> y then y else 1 - y)"
    using assms(1) last_day_le [of y m] by (auto simp: ymd_ok_def)
  note tight = clock_text_tight(1) [OF clock_ok_digits [OF assms(2)]]
  note ip = instant_parts(1-3) [OF tight assms(4), where y = y and m = m and d = d]
    instant_parts(4) [OF tight assms(4)]
  show ?thesis
    unfolding parse_text_instant_def
    using ip takeWhile_date parse_ymd_text [OF b] n date_of_ymd [OF assms(1)] parse_clock [OF assms(2,3)] assms(5)
    by (simp add: Let_def)
qed

lemma parse_binary_instant_ok:
  assumes "fits_int64 us" and "fits_int64 (us - pg_epoch * us_per_day)"
  shows "parse_binary_timestamp (pg_instant_binary us) to = Some (None, us)"
    and "parse_binary_timestamptz (pg_instant_binary us) to = Some (None, us)"
proof -
  have "sint (word_of_int (us - pg_epoch * us_per_day) :: uint64) = us - pg_epoch * us_per_day"
    by (rule sint_word_of_int) (use assms(2) in \<open>simp_all add: fits_int64_def\<close>)
  then show "parse_binary_timestamp (pg_instant_binary us) to = Some (None, us)"
    "parse_binary_timestamptz (pg_instant_binary us) to = Some (None, us)"
    using assms(1)
    by (simp_all add: parse_binary_timestamp_def parse_binary_timestamptz_def pg_instant_binary_def load_store_s64)
qed

lemma instant_fits:
  fixes secs :: int
  assumes "ymd_ok y m d" and "clock_ok h mi s ds" and "\<bar>secs\<bar> < 2 ^ 20"
  defines "us \<equiv> sys_days y m d * us_per_day + clock_us h mi s ds - secs * 1000000"
  shows "fits_int64 us" and "fits_int64 (us - pg_epoch * us_per_day)"
  using sys_days_bounds [OF assms(1)] clock_us_bounds [OF assms(2)] assms(3)
  by (auto simp: fits_int64_def us_def us_per_day_def pg_epoch_value)

section \<open>Intervals\<close>

text \<open>
  An interval as PostgreSQL prints it: years, months and days that are not zero with their units, then a time
  with a sign. A plus sign may stand before a part.
\<close>

definition plus_text :: "bool \<Rightarrow> bytes" where
  "plus_text p = (if p then [43] else [])"

definition interval_part :: "bool \<Rightarrow> int \<Rightarrow> bytes \<Rightarrow> bytes" where
  "interval_part p v unit =
     (if v = 0 then [] else 32 # plus_text p @ to_chars v @ 32 # unit @ (if v = 1 then [] else [115]))"

definition sign_text :: "bool \<Rightarrow> bool \<Rightarrow> bytes" where
  "sign_text neg p = (if neg then [45] else plus_text p)"

definition pg_interval_text :: "(bool \<times> int) \<Rightarrow> (bool \<times> int) \<Rightarrow> (bool \<times> int) \<Rightarrow> bool \<Rightarrow> bool \<Rightarrow> bytes \<Rightarrow> bytes" where
  "pg_interval_text yrs mons days neg p clock =
     tl (interval_part (fst yrs) (snd yrs) (of_str ''year'') @ interval_part (fst mons) (snd mons) (of_str ''mon'') @
       interval_part (fst days) (snd days) (of_str ''day'') @ 32 # sign_text neg p @ clock)"

lemma interval_loop_blank: "interval_loop (32 # s) t = interval_loop s t"
  by (subst (1 2) interval_loop.simps) (simp add: is_space_def)

lemma to_chars_digits:
  obtains ds where "to_chars v = (if v < 0 then 45 # ds else ds)" "list_all is_digit ds" "ds \<noteq> []"
    "digits_value ds = nat \<bar>v\<bar>"
proof (rule that [of "digits_of (nat \<bar>v\<bar>)"])
  show "to_chars v = (if v < 0 then 45 # digits_of (nat \<bar>v\<bar>) else digits_of (nat \<bar>v\<bar>))" by (simp add: to_chars_def)
qed (simp_all add: digits_of_digits)

lemma digit_facts: "is_digit b \<Longrightarrow> b \<noteq> 32 \<and> b \<noteq> 9 \<and> b \<noteq> 10 \<and> b \<noteq> 13 \<and> b \<noteq> 58 \<and> b \<noteq> 43 \<and> b \<noteq> 45"
  by (auto simp: is_digit_def)

lemma interval_int_text:
  assumes "\<bar>v\<bar> < 2 ^ 31"
  shows "interval_int (plus_text p @ to_chars v @ 32 # rest) = Some (True, v, 32 # rest)"
proof -
  obtain ds where ds: "to_chars v = (if v < 0 then 45 # ds else ds)" "list_all is_digit ds" "ds \<noteq> []"
    "digits_value ds = nat \<bar>v\<bar>" by (rule to_chars_digits)
  obtain b bs where bs: "ds = b # bs" "is_digit b" using ds(2,3) by (cases ds) auto
  have r: "from_chars_int (ds @ 32 # rest) = Inr (\<bar>v\<bar>, 32 # rest)"
    using from_chars_int_digits [OF ds(2,3), of "32 # rest"] ds(4) assms by (simp add: is_digit_def)
  have r': "from_chars_int (to_chars v @ 32 # rest) = Inr (v, 32 # rest)"
    unfolding from_chars_int_def by (rule from_chars_to_chars) (use assms in \<open>auto simp: is_digit_def\<close>)
  have sp: "\<not> is_space 43" "\<not> is_space 45" "\<not> is_space b" using bs(2) digit_not_space by (auto simp: is_space_def)
  show ?thesis
  proof (cases p)
    case True
    then show ?thesis using r' sp assms by (auto simp: interval_int_def plus_text_def fits_int_def)
  next
    case False
    then show ?thesis
      using r r' ds(1) bs digit_facts [OF bs(2)] sp assms by (auto simp: interval_int_def plus_text_def fits_int_def)
  qed
qed

lemma to_chars_chars: "b \<in> set (to_chars v) \<Longrightarrow> b = 45 \<or> is_digit b"
  by (rule to_chars_digits [of v]) (auto simp: list_all_iff split: if_splits)

lemma trim_left: "s \<noteq> [] \<Longrightarrow> (\<And>b. b \<in> set s \<Longrightarrow> \<not> is_space b) \<Longrightarrow> dropWhile is_space (s @ rest) = s @ rest"
  by (cases s) auto

lemma interval_loop_part:
  assumes "\<bar>v\<bar> < 2 ^ 31" and "list_all is_alpha unit" "unit \<noteq> []" and "rest = [] \<or> hd rest = 32"
    and "interval_unit unit v t = Some (None, t')"
  shows "interval_loop (plus_text p @ to_chars v @ 32 # unit @ rest) t = interval_loop rest t'"
proof -
  let ?num = "plus_text p @ to_chars v" and ?s = "plus_text p @ to_chars v @ 32 # unit @ rest"
  have num: "b \<noteq> 32 \<and> b \<noteq> 9 \<and> b \<noteq> 10 \<and> b \<noteq> 13 \<and> b \<noteq> 58 \<and> \<not> is_space b" if "b \<in> set ?num" for b
    using that to_chars_chars [of b v] digit_facts [of b] digit_not_space [of b]
    by (auto simp: plus_text_def is_space_def split: if_splits)
  have ne: "?num \<noteq> []" by (simp add: to_chars_nonempty)
  have d: "dropWhile is_space ?s = ?s" using trim_left [of ?num "32 # unit @ rest"] num ne by simp
  have "takeWhile (\<lambda>b. b \<noteq> 32 \<and> b \<noteq> 9 \<and> b \<noteq> 10 \<and> b \<noteq> 13) (?num @ 32 # unit @ rest) = ?num"
    using num by (subst takeWhile_append2) auto
  then have part: "58 \<notin> set (takeWhile (\<lambda>b. b \<noteq> 32 \<and> b \<noteq> 9 \<and> b \<noteq> 10 \<and> b \<noteq> 13) ?s)" using num by auto
  have alpha: "\<not> is_space b" if "is_alpha b" for b
    using that by (auto simp: is_alpha_def is_space_def word_le_nat_alt)
  have u: "dropWhile is_space (32 # unit @ rest) = unit @ rest"
    using assms(2,3) alpha by (cases unit) (auto simp: is_space_def)
  have "takeWhile is_alpha rest = []" using assms(4) by (cases rest) (auto simp: is_alpha_def)
  then have w: "takeWhile is_alpha (unit @ rest) = unit" using assms(2) by (simp add: list_all_iff takeWhile_append2)
  have "?s \<noteq> []" by simp
  then show ?thesis
    using d part u w interval_int_text [OF assms(1), of p "unit @ rest"] assms(5)
    by (subst interval_loop.simps) (simp add: Let_def)
qed

lemma interval_loop_field:
  assumes "\<bar>v\<bar> < 2 ^ 31" and "list_all is_alpha unit" and "rest = [] \<or> hd rest = 32"
    and "interval_unit (unit @ (if v = 1 then [] else [115])) v t = Some (None, t')" and "unit \<noteq> []" and "v = 0 \<Longrightarrow> t' = t"
  shows "interval_loop (interval_part p v unit @ rest) t = interval_loop rest t'"
proof (cases "v = 0")
  case False
  have "list_all is_alpha (unit @ (if v = 1 then [] else [115]))" using assms(2) by (simp add: is_alpha_def)
  from interval_loop_part [OF assms(1) this _ assms(3,4), of p] False assms(5)
  show ?thesis by (simp add: interval_part_def interval_loop_blank)
qed (simp add: interval_part_def assms(6))

lemma interval_loop_time:
  assumes "list_all is_digit ds"
  shows "interval_loop (sign_text neg p @ clock_text h mi s ds) t =
    (case parse_text_time (clock_text h mi s ds) 0 of
       None \<Rightarrow> None | Some (Some ec, _) \<Rightarrow> Some (Some ec, t)
     | Some (None, us) \<Rightarrow>
         (case add_time (us * (if neg then - 1 else 1)) t of None \<Rightarrow> None | Some t' \<Rightarrow> interval_loop [] t'))"
proof -
  let ?c = "clock_text h mi s ds" and ?s = "sign_text neg p @ clock_text h mi s ds"
  have c: "b = 58 \<or> b = 46 \<or> is_digit b" if "b \<in> set ?c" for b
    using that assms pad_digits_simps(1) [of 2 h] pad_digits_simps(1) [of 2 mi] pad_digits_simps(1) [of 2 s]
    by (auto simp: clock_text_def fraction_text_def list_all_iff split: if_splits)
  have "b \<in> {45, 43, 58, 46} \<or> is_digit b" if "b \<in> set ?s" for b
    using that c [of b] by (auto simp: sign_text_def plus_text_def split: if_splits)
  then have chars: "b \<noteq> 32 \<and> b \<noteq> 9 \<and> b \<noteq> 10 \<and> b \<noteq> 13 \<and> \<not> is_space b" if "b \<in> set ?s" for b
    using that digit_facts [of b] digit_not_space [of b] by (fastforce simp: is_space_def)
  have ne: "?s \<noteq> []" by (simp add: clock_text_def)
  have d: "dropWhile is_space ?s = ?s" using trim_left [of ?s "[]"] chars ne by simp
  have part: "takeWhile (\<lambda>b. b \<noteq> 32 \<and> b \<noteq> 9 \<and> b \<noteq> 10 \<and> b \<noteq> 13) ?s = ?s" using chars by (auto simp: takeWhile_eq_all_conv)
  have "hd ?c \<noteq> 45" "hd ?c \<noteq> 43"
    using clock_text_tight(1) [OF assms] digit_facts [of "hd ?c"] by (auto simp: tight_def)
  then have sgn: "(hd ?s = 45) = neg" "(if neg \<or> hd ?s = 43 then tl ?s else ?s) = ?c"
    by (simp_all add: sign_text_def plus_text_def)
  have colon: "58 \<in> set ?s" by (simp add: clock_text_def)
  show ?thesis
    by (subst interval_loop.simps)
      (simp only: d part Let_def ne colon sgn if_True if_False drop_all order_refl simp_thms)
qed

lemma interval_loop_clock:
  assumes "clock_ok h mi s ds" and "add_time ((if neg then - 1 else 1) * clock_us h mi s ds) t = Some t'"
  shows "interval_loop (sign_text neg p @ clock_text h mi s ds) t = Some (None, t')"
proof -
  have "interval_loop [] t' = Some (None, t')" by (simp add: interval_loop.simps)
  then show ?thesis
    using interval_loop_time [OF clock_ok_digits [OF assms(1)]] parse_text_time_ok [OF assms(1)] assms(2)
    by (simp add: mult.commute)
qed

lemma unit_names:
  "of_str ''year'' = [121, 101, 97, 114]" "of_str ''years'' = [121, 101, 97, 114, 115]" "of_str ''mon'' = [109, 111, 110]"
  "of_str ''mons'' = [109, 111, 110, 115]" "of_str ''day'' = [100, 97, 121]" "of_str ''days'' = [100, 97, 121, 115]"
  by code_simp+

lemma units:
  "interval_unit (of_str ''year'' @ (if v = 1 then [] else [115])) v t =
     (if fits_int (v * 12) then map_option (\<lambda>t'. (None, t')) (add_months (v * 12) t) else None)"
  "interval_unit (of_str ''mon'' @ (if v = 1 then [] else [115])) v t = map_option (\<lambda>t'. (None, t')) (add_months v t)"
  "interval_unit (of_str ''day'' @ (if v = 1 then [] else [115])) v t = map_option (\<lambda>t'. (None, t')) (add_days v t)"
  by (simp_all add: interval_unit_def unit_names)

lemma alpha_units: "list_all is_alpha (of_str ''year'')" "list_all is_alpha (of_str ''mon'')" "list_all is_alpha (of_str ''day'')"
  by code_simp+

lemma part_head: "rest = [] \<or> hd rest = 32 \<Longrightarrow> interval_part p v unit @ rest = [] \<or> hd (interval_part p v unit @ rest) = 32"
  by (simp add: interval_part_def)

text \<open>The binary form of an interval.\<close>

definition pg_interval_binary :: "pg_interval \<Rightarrow> bytes" where
  "pg_interval_binary t =
     store_big_s64 (word_of_int (iv_time t)) @ store_big_s32 (word_of_int (iv_days t)) @ store_big_s32 (word_of_int (iv_months t))"

lemma load_big_s32_append: "length a = 4 \<Longrightarrow> load_big_s32 (a @ b) = load_big_s32 a"
  by (simp add: load_big_s32_def nth_append)

lemma load_big_s64_append: "length a = 8 \<Longrightarrow> load_big_s64 (a @ b) = load_big_s64 a"
  by (simp add: load_big_s64_def load_big_s32_append)

lemma parse_binary_interval_ok:
  assumes "fits_int (iv_months t)" "fits_int (iv_days t)" "fits_int64 (iv_time t)"
  shows "parse_binary_interval (pg_interval_binary t) to = Some (None, t)"
proof -
  have "sint (word_of_int (iv_time t) :: uint64) = iv_time t" "sint (word_of_int (iv_days t) :: int32) = iv_days t"
    "sint (word_of_int (iv_months t) :: int32) = iv_months t"
    using assms by (auto simp: fits_int_def fits_int64_def intro!: sint_word_of_int)
  then show ?thesis
    by (simp add: parse_binary_interval_def pg_interval_binary_def load_big_s32_append load_big_s64_append load_store_s32 load_store_s64)
qed

lemma parse_text_interval_ok:
  assumes "\<bar>y\<bar> < 2 ^ 31" "\<bar>mo\<bar> < 2 ^ 31" "\<bar>d\<bar> < 2 ^ 31" "fits_int (y * 12)" "fits_int (y * 12 + mo)"
    and clock: "clock_ok h mi s ds"
  shows "parse_text_interval (pg_interval_text (py, y) (pm, mo) (pd, d) neg p (clock_text h mi s ds)) to =
    Some (None, \<lparr>iv_months = y * 12 + mo, iv_days = d, iv_time = (if neg then - 1 else 1) * clock_us h mi s ds\<rparr>)"
proof -
  let ?clock = "32 # sign_text neg p @ clock_text h mi s ds"
  let ?days = "interval_part pd d (of_str ''day'') @ ?clock"
  let ?mons = "interval_part pm mo (of_str ''mon'') @ ?days"
  let ?all = "interval_part py y (of_str ''year'') @ ?mons"
  let ?t0 = "\<lparr>iv_months = 0, iv_days = 0, iv_time = 0\<rparr> :: pg_interval"
  let ?t1 = "?t0\<lparr>iv_months := y * 12\<rparr>" let ?t2 = "?t0\<lparr>iv_months := y * 12 + mo\<rparr>" let ?t3 = "?t2\<lparr>iv_days := d\<rparr>"
  have heads: "?days = [] \<or> hd ?days = 32" "?mons = [] \<or> hd ?mons = 32" "?all = [] \<or> hd ?all = 32"
    by (intro part_head, simp)+
  have names: "of_str ''year'' \<noteq> []" "of_str ''mon'' \<noteq> []" "of_str ''day'' \<noteq> []" by (simp_all add: unit_names)
  have time: "fits_int64 ((if neg then - 1 else 1) * clock_us h mi s ds)"
    using clock_us_bounds [OF clock] by (simp add: fits_int64_def us_per_day_def)
  have ne: "?all \<noteq> []" by simp
  obtain all where all: "?all = 32 # all" using heads(3) ne by (cases ?all) auto
  have "interval_loop all ?t0 = interval_loop ?all ?t0" by (simp add: all interval_loop_blank)
  also have "\<dots> = interval_loop ?mons ?t1"
    by (rule interval_loop_field) (use assms(1,4) heads names alpha_units in \<open>simp_all add: units add_months_def\<close>)
  also have "\<dots> = interval_loop ?days ?t2"
    by (rule interval_loop_field) (use assms(2,5) heads names alpha_units in \<open>simp_all add: units add_months_def\<close>)
  also have "\<dots> = interval_loop ?clock ?t3"
    by (rule interval_loop_field) (use assms(3) names alpha_units in \<open>simp_all add: units add_days_def fits_int_def abs_less_iff\<close>)
  also have "\<dots> = Some (None, ?t3\<lparr>iv_time := (if neg then - 1 else 1) * clock_us h mi s ds\<rparr>)"
    using interval_loop_clock [OF clock] time by (simp add: interval_loop_blank add_time_def)
  finally have "interval_loop all ?t0 = Some (None, ?t3\<lparr>iv_time := (if neg then - 1 else 1) * clock_us h mi s ds\<rparr>)" .
  moreover have "all \<noteq> []" using all by (auto simp: interval_part_def clock_text_def split: if_splits)
  ultimately show ?thesis using all by (simp add: parse_text_interval_def pg_interval_text_def)
qed

section \<open>The two formats of a value agree\<close>

lemma traits_parse:
  "ft_parse_text (datetime_traits oid text_parser binary_parser) (Some bs) oid to = text_parser bs to"
  "ft_parse_binary (datetime_traits oid text_parser binary_parser) (Some bs) oid to = binary_parser bs to"
  by (simp_all add: datetime_traits_def fv_data_def)





text \<open>The same for times of day, with an offset and without one.\<close>

lemma time_formats_agree:
  assumes "clock_ok h mi s ds" and "offset_ok oh om"
  defines "us \<equiv> clock_us h mi s ds"
  shows "ft_parse_text time_traits (Some (clock_text h mi s ds)) time_oid to = Some (None, us)"
    and "ft_parse_binary time_traits (Some (store_big_s64 (word_of_int us))) time_oid to = Some (None, us)"
    and "ft_parse_text timetz_traits (Some (clock_text h mi s ds @ offset_text west oh om)) timetz_oid tz =
      Some (None, \<lparr>tz_time_since_midnight = us, tz_utc_offset = offset_seconds west oh om\<rparr>)"
    and "ft_parse_binary timetz_traits
        (Some (store_big_s64 (word_of_int us) @ store_big_s32 (word_of_int (- offset_seconds west oh om)))) timetz_oid tz =
      Some (None, \<lparr>tz_time_since_midnight = us, tz_utc_offset = offset_seconds west oh om\<rparr>)"
proof -
  have o: "\<bar>offset_seconds west oh om\<bar> < 2 ^ 20" using assms(2) by (simp add: offset_seconds_def offset_ok_def)
  have us: "sint (word_of_int us :: uint64) = us"
    by (rule sint_word_of_int) (use clock_us_bounds [OF assms(1)] in \<open>simp_all add: us_def us_per_day_def\<close>)
  have off: "sint (word_of_int (- offset_seconds west oh om) :: int32) = - offset_seconds west oh om"
    by (rule sint_word_of_int) (use o in \<open>simp_all add: abs_less_iff\<close>)
  have z: "after_clock (offset_text west oh om)" by (simp add: after_clock_def offset_text_def is_digit_def)
  have t: "trim (clock_text h mi s ds @ offset_text west oh om) = clock_text h mi s ds @ offset_text west oh om"
    using clock_text_tight(1) [OF clock_ok_digits [OF assms(1)], of h mi s] offset_text_trim(2) [OF assms(2), of west]
    by (intro tight_trim) (auto simp: tight_def offset_text_def digit_not_space)
  show "ft_parse_text time_traits (Some (clock_text h mi s ds)) time_oid to = Some (None, us)"
    by (simp add: time_traits_def traits_parse parse_text_time_ok [OF assms(1)] us_def)
  show "ft_parse_binary time_traits (Some (store_big_s64 (word_of_int us))) time_oid to = Some (None, us)"
    by (simp add: time_traits_def traits_parse parse_binary_time_def load_store_s64 us)
  show "ft_parse_text timetz_traits (Some (clock_text h mi s ds @ offset_text west oh om)) timetz_oid tz =
      Some (None, \<lparr>tz_time_since_midnight = us, tz_utc_offset = offset_seconds west oh om\<rparr>)"
    using parse_clock [OF assms(1) z] parse_offset [OF assms(2)] t
    by (simp add: timetz_traits_def traits_parse parse_text_timetz_def us_def)
  show "ft_parse_binary timetz_traits
      (Some (store_big_s64 (word_of_int us) @ store_big_s32 (word_of_int (- offset_seconds west oh om)))) timetz_oid tz =
      Some (None, \<lparr>tz_time_since_midnight = us, tz_utc_offset = offset_seconds west oh om\<rparr>)"
    using us off o
    by (simp add: timetz_traits_def traits_parse parse_binary_timetz_def load_big_s64_append load_store_s64 load_store_s32
        fits_int_def abs_less_iff)
qed

text \<open>
  C34. An interval of years, months, days and a time of less than a day, each with its sign, is read as the same
  value from its text and from its binary form.
\<close>

theorem interval_formats_agree:
  fixes neg :: bool
  assumes "\<bar>y\<bar> < 2 ^ 31" "\<bar>mo\<bar> < 2 ^ 31" "\<bar>d\<bar> < 2 ^ 31" "fits_int (y * 12)" "fits_int (y * 12 + mo)" and "clock_ok h mi s ds"
  defines "t \<equiv> \<lparr>iv_months = y * 12 + mo, iv_days = d, iv_time = (if neg then - 1 else 1) * clock_us h mi s ds\<rparr>"
  shows "ft_parse_text interval_traits (Some (pg_interval_text (py, y) (pm, mo) (pd, d) neg p (clock_text h mi s ds))) interval_oid to =
      Some (None, t) \<and>
    ft_parse_binary interval_traits (Some (pg_interval_binary t)) interval_oid to = Some (None, t)"
proof -
  have "fits_int (iv_months t)" "fits_int (iv_days t)" "fits_int64 (iv_time t)"
    using assms(3,5) clock_us_bounds [OF assms(6)] by (auto simp: t_def fits_int_def fits_int64_def us_per_day_def)
  then show ?thesis
    using parse_text_interval_ok [OF assms(1-6)] parse_binary_interval_ok [of t]
    by (simp add: interval_traits_def traits_parse t_def)
qed

theorem interval_formats_agree_witness:
  "ft_parse_text interval_traits (Some (of_str ''-1 years -2 mons +1 day -04:05:06.7'')) interval_oid \<lparr>iv_months = 7, iv_days = 7, iv_time = 7\<rparr> =
     Some (None, \<lparr>iv_months = - 14, iv_days = 1, iv_time = - 14706700000\<rparr>)"
proof -
  have ok: "\<bar>- 1\<bar> < (2 ^ 31 :: int)" "\<bar>- 2\<bar> < (2 ^ 31 :: int)" "\<bar>1\<bar> < (2 ^ 31 :: int)" "fits_int (- 1 * 12)"
    "fits_int (- 1 * 12 + - 2)" "clock_ok 4 5 6 [55]" by (simp_all add: fits_int_def clock_ok_def is_digit_def)
  have texts: "pg_interval_text (False, - 1) (False, - 2) (True, 1) True False (clock_text 4 5 6 [55]) =
      of_str ''-1 years -2 mons +1 day -04:05:06.7''" by code_simp
  have us: "clock_us 4 5 6 [55] = 14706700000" by (simp add: clock_us_def digits_value_def digit_value_def)
  show ?thesis
    using interval_formats_agree [OF ok, where neg = True and p = False and py = False and pm = False and pd = True
      and to = "\<lparr>iv_months = 7, iv_days = 7, iv_time = 7\<rparr>"]
    unfolding texts us by simp
qed

section \<open>Where the formats differ\<close>

text \<open>
  C37. The time of an interval is read with the parser of times of day. An interval of 25 hours or more, which
  PostgreSQL prints with its hours, is rejected in the text format and accepted in the binary one.
\<close>

theorem long_interval_rejected:
  assumes "25 \<le> h" "h < 2 ^ 31" "mi < 60" "s < 60"
  defines "t \<equiv> \<lparr>iv_months = 0, iv_days = 0, iv_time = int (((h * 60 + mi) * 60 + s) * 1000000)\<rparr>"
  shows "ft_parse_text interval_traits (Some (clock_text h mi s [])) interval_oid to =
      Some (Some (Client protocol_value_error), \<lparr>iv_months = 0, iv_days = 0, iv_time = 0\<rparr>) \<and>
    ft_parse_binary interval_traits (Some (pg_interval_binary t)) interval_oid to = Some (None, t)"
proof -
  have "time_of_parts (int h) (int mi) (int s) 0 = None" using assms(1) by (simp add: time_of_parts_def)
  then have "parse_time_prefix (clock_text h mi s []) = Inl (Client protocol_value_error)"
    using parse_clock_parts [of h mi s "[]" "[]"] assms by (simp add: after_clock_def)
  then have "parse_text_time (clock_text h mi s []) 0 = Some (Some (Client protocol_value_error), 0)"
    using clock_text_tight(1) [of "[]" h mi s] by (simp add: parse_text_time_def tight_trim tight_def)
  then have "parse_text_interval (clock_text h mi s []) to =
      Some (Some (Client protocol_value_error), \<lparr>iv_months = 0, iv_days = 0, iv_time = 0\<rparr>)"
    using interval_loop_time [of "[]" False False h mi s] clock_text_tight(1) [of "[]" h mi s]
    by (simp add: parse_text_interval_def sign_text_def plus_text_def tight_def)
  moreover have "fits_int64 (int (((h * 60 + mi) * 60 + s) * 1000000))" using assms(2-4) by (simp add: fits_int64_def)
  ultimately show ?thesis
    using parse_binary_interval_ok [of t] by (simp add: interval_traits_def traits_parse t_def fits_int_def)
qed

theorem long_interval_rejected_witness:
  "ft_parse_text interval_traits (Some (of_str ''100:00:00'')) interval_oid \<lparr>iv_months = 7, iv_days = 7, iv_time = 7\<rparr> =
     Some (Some (Client protocol_value_error), \<lparr>iv_months = 0, iv_days = 0, iv_time = 0\<rparr>)"
proof -
  have "clock_text 100 0 0 [] = of_str ''100:00:00''" by code_simp
  then show ?thesis
    using long_interval_rejected [of 100 0 0 "\<lparr>iv_months = 7, iv_days = 7, iv_time = 7\<rparr>"] by simp
qed

text \<open>
  The infinities are the largest and the least value of the type in the text format. In the binary format a
  timestamp that is infinite overflows when the epoch is added, and an infinite date becomes an ordinary one.
\<close>

lemma binary_infinity:
  "parse_text_timestamp (of_str ''infinity'') to = Some (None, count_max)"
  "parse_binary_timestamp (store_big_s64 0x7FFFFFFFFFFFFFFF) to = None"
  "parse_text_date (of_str ''infinity'') to = Some (None, count_max)"
  "parse_binary_date (store_big_s32 0x7FFFFFFF) to = Some (None, 2147494604)"
proof -
  have "parse_infinity (of_str ''infinity'') = Some count_max" by code_simp
  then show "parse_text_timestamp (of_str ''infinity'') to = Some (None, count_max)"
    "parse_text_date (of_str ''infinity'') to = Some (None, count_max)"
    by (simp_all add: parse_text_timestamp_def parse_text_instant_def parse_text_date_def)
  show "parse_binary_timestamp (store_big_s64 0x7FFFFFFFFFFFFFFF) to = None"
    by (simp add: parse_binary_timestamp_def load_store_s64 pg_epoch_value us_per_day_def fits_int64_def)
  show "parse_binary_date (store_big_s32 0x7FFFFFFF) to = Some (None, 2147494604)"
    by (simp add: parse_binary_date_def load_store_s32 pg_epoch_value)
qed

end
