(* ===== verification/Spec2Isabelle.thy ===== *)
theory Spec2Isabelle
  imports Pg_Backend_Facts Pg_Framing Pg_Read_Buffer Pg_Conversation Pg_Multiplexer_Facts Pg_Command_Tag
    Pg_Types_Facts Pg_Dispatch Pg_Resultsets_Facts Pg_Resultset_Callback_Facts Pg_Exec Pg_Startup_Facts
    Pg_Exec_Some_Facts Pg_Multiplexed_Facts Pg_Pool_Facts Pg_Datetime_Facts
begin

text \<open>
  A model of \<^bold>\<open>nativepg\<close>, a C++ client library for PostgreSQL, and the theorems about it. Paths below are
  relative to \<^verbatim>\<open>src/\<close> of the repository: \<^verbatim>\<open>include/nativepg\<close> holds the public and the detail headers,
  \<^verbatim>\<open>src\<close> the compiled part and its internal headers.

  \<^bold>\<open>The program.\<close> The library is written without I/O: everything that decides what is sent and how an answer
  is understood is a parser, a serializer or a state machine that is called with bytes and returns what to
  do next; coroutines around them own the sockets. A \<^verbatim>\<open>request\<close> is built from frontend messages; a
  response handler is set up for it; \<^verbatim>\<open>exec_fsm\<close> has the request written, cuts the received bytes into
  messages and gives them to \<^verbatim>\<open>read_response_fsm\<close>, which follows the request message by message and calls
  the handler. A multiplexed connection runs many requests over one stream through the \<^verbatim>\<open>multiplexer\<close>.
  \<^verbatim>\<open>connect_fsm\<close> establishes a session through \<^verbatim>\<open>startup_fsm\<close> and, where the server asks for it, the SCRAM
  machine. A connection pool keeps a set of sessions, each driven by a node state machine.

  \<^bold>\<open>Conventions.\<close> Bytes and fixed-width integers are words, spans and strings are lists of bytes, a pointer
  into a message is the suffix that starts there. An error code is an optional value, \<open>None\<close> being every
  code of value zero. Undefined behaviour and failed assertions are results of their own: \<open>None\<close>, or a fault
  where the kind matters. Sizes are natural numbers, and 64-bit words where the code computes with
  \<^verbatim>\<open>size_t(-1)\<close>. Loops are recursive functions with termination proofs; no fuel is used except in \<open>drain\<close>,
  whose fuel is one more than the number of bytes, which suffices because a message has at least five. The
  coroutine \<open>exec_some\<close>, which waits for a transport, is a partial function: \<open>None\<close> is not returning, and
  \<open>copy_out_delivers\<close> shows that it returns.

  \<^bold>\<open>The theories.\<close>
  \<^item> \<open>Pg_Prelude\<close>: types, big-endian integers (locale \<open>be_codec\<close>, three interpretations).
  \<^item> \<open>Pg_Error\<close>: \<^verbatim>\<open>client_errc.hpp\<close>, \<^verbatim>\<open>sqlstate.hpp\<close>, \<^verbatim>\<open>sqlstate.cpp\<close>; SQLSTATE codes and their integers
    correspond one to one.
  \<^item> \<open>Pg_Parse_Context\<close>, \<open>Pg_Views\<close>, \<open>Pg_Backend\<close>, \<open>Pg_Backend_Facts\<close>: the reader of \<^verbatim>\<open>parse_context.hpp\<close>,
    the lazy views of \<^verbatim>\<open>protocol/views.hpp\<close> (locale of item codecs) and every parser of \<^verbatim>\<open>messages.cpp\<close>; the
    parsers accept exactly the encodings and the views yield what was encoded.
  \<^item> \<open>Pg_Framing\<close>: messages in a stream (locale \<open>framing\<close>); the messages found do not depend on how the
    bytes arrive.
  \<^item> \<open>Pg_Serialization\<close>, \<open>Pg_Serialization_Facts\<close>, \<open>Pg_Request\<close>, \<open>Pg_Request_Facts\<close>: the serializers, the
    request builder of \<^verbatim>\<open>request.hpp\<close> and \<^verbatim>\<open>request.cpp\<close> and \<^verbatim>\<open>check_request.hpp\<close>; what is put on the wire and
    which requests are accepted.
  \<^item> \<open>Pg_Read_Buffer\<close>: \<^verbatim>\<open>detail/read_buffer.hpp\<close> refines a queue of bytes (locale \<open>stream_buffer\<close>).
  \<^item> \<open>Pg_Read_Response_Fsm\<close>, \<open>Pg_Read_Response_Facts\<close>, \<open>Pg_Conversation\<close>: \<^verbatim>\<open>read_response_fsm.cpp\<close>, its
    safety, and that it follows every conversation the protocol prescribes to its end.
  \<^item> \<open>Pg_Multiplexer\<close>, \<open>Pg_Multiplexer_Facts\<close>: \<^verbatim>\<open>multiplexed_connection/multiplexer.hpp\<close> under every
    interleaving of its operations.
  \<^item> \<open>Pg_Charconv\<close>, \<open>Pg_Command_Tag\<close>, \<open>Pg_Types_Base\<close>, \<open>Pg_Types_Facts\<close>: numbers as text, command tags, and
    the field types with their traits (locales \<open>field_traits\<close> and \<open>field_codec\<close>).
  \<^item> \<open>Pg_Datetime\<close>, \<open>Pg_Datetime_Facts\<close>: \<^verbatim>\<open>types/datetime.hpp\<close> and \<^verbatim>\<open>field_traits_datetime.hpp\<close> over the
    calendar of \<^verbatim>\<open>std::chrono\<close>, whose counts have 64 bits and whose year has 16, as in libstdc++; the text and the
    binary form of a date, a time, a timestamp and an interval give the same value, with the exceptions shown.
  \<^item> \<open>Pg_Responses\<close>, \<open>Pg_Responses_Facts\<close>, \<open>Pg_Dispatch\<close>, \<open>Pg_Resultsets\<close>, \<open>Pg_Resultsets_Facts\<close>,
    \<open>Pg_Resultset_Callback\<close>, \<open>Pg_Resultset_Callback_Facts\<close>: the response handlers of \<^verbatim>\<open>responses.cpp\<close> and
    \<^verbatim>\<open>responses/\<close>, their contract (locales \<open>response_handler\<close> and \<open>plain_handler\<close>), stored resultsets as a
    refinement of lists, and rows read into members by name.
  \<^item> \<open>Pg_Exec\<close>: \<^verbatim>\<open>exec_fsm.cpp\<close> with the read buffer and the response machine; an execution depends on the
    bytes received and not on their arrival, and ends.
  \<^item> \<open>Pg_Exec_Some\<close>, \<open>Pg_Exec_Some_Facts\<close>: \<^verbatim>\<open>exec_some_fsm.hpp\<close> and the coroutines of \<^verbatim>\<open>co_connection.cpp\<close>
    that drive it; COPY data reach the user piece by piece, in buffers that point into the read buffer.
  \<^item> \<open>Pg_Multiplexed\<close>, \<open>Pg_Multiplexed_Facts\<close>: the coroutines of \<^verbatim>\<open>co_multiplexed_connection.cpp\<close>; the reader
    separates notifications from responses and no wake-up is lost.
  \<^item> \<open>Pg_Base64\<close>, \<open>Pg_Scram\<close>, \<open>Pg_Scram_Facts\<close>: \<^verbatim>\<open>base64.cpp\<close>, \<^verbatim>\<open>scram_sha256_messages.hpp\<close>,
    \<^verbatim>\<open>scram_sha256_crypt.hpp\<close> and \<^verbatim>\<open>scram_sha256_fsm.cpp\<close> against RFC 5802, over OpenSSL's HMAC and SHA-256 as
    parameters.
  \<^item> \<open>Pg_Startup\<close>, \<open>Pg_Startup_Facts\<close>: \<^verbatim>\<open>startup_fsm.cpp\<close> and \<^verbatim>\<open>connect_fsm.cpp\<close>; on which messages a
    session is established, that connecting to a conforming server ends with one, and what a failure does.
  \<^item> \<open>Pg_Notification\<close>: \<^verbatim>\<open>notification_queue.hpp\<close>; every notification is delivered once and in order.
  \<^item> \<open>Pg_Pool\<close>, \<open>Pg_Pool_Facts\<close>: \<^verbatim>\<open>connection_pool/\<close>, the coroutines cut at their suspension points, under
    every interleaving: no assertion fails, no connection has two users, returned connections are reused, the
    shutdown ends.

  \<^bold>\<open>Not modelled.\<close> The loops of \<^verbatim>\<open>co_connection.cpp\<close> and
  \<^verbatim>\<open>connection.hpp\<close> that hand the requests of the connect and exec machines to a socket: they are I/O. The texts of error
  categories and the SQLSTATE identifier tables: data. Floating-point fields: HOL has no model of
  \<^verbatim>\<open>std::from_chars\<close> on doubles. Numeric, decimal and JSON fields: they are values of third-party packages. Reflection over struct members (Boost.Describe and PFR) is the list of
  members a typed row is given.
\<close>

section \<open>Errors of the server across the handlers\<close>

lemma handlers_lawful:
  "lawful (check, err)" "lawful (check_parse, err)" "lawful (check_close, err)" "lawful (check_execute, ce)"
  "lawful (resultsets_handler, rh)" "lawful (describe_into, di)" "lawful (resultset_callback members, cb)"
  "hs \<noteq> [] \<Longrightarrow> list_all lawful hs \<Longrightarrow> lawful (response, response_init hs)"
  using check_h.response_handler_axioms check_parse_h.response_handler_axioms check_close_h.response_handler_axioms
    check_execute_h.response_handler_axioms resultsets_h.response_handler_axioms
    describe_into_h.response_handler_axioms callback_h.response_handler_axioms response_h.response_handler_axioms
  by (auto simp: lawful_def response_ok_def response_init_def)

text \<open>
  C23. An error the server reports is never lost: whichever handler executes a request, among the checks,
  the resultsets, the descriptions, the typed rows and composites of them, and whatever the conversation,
  when it contains an error with a SQLSTATE other than success and the handler reaches the end of it, the
  result of the execution is an error.
\<close>

theorem server_errors_reported:
  assumes "lawful (ops, s0)" and "setup_request ops req s0 = Inr (None, s)"
    and "replies ac 0 (req_types req) (sync_messages ms) cs"
    and "(Rm_error_response e, n) \<in> set cs" and "errored (store_error e)"
    and "run_calls ops cs s = Inr s'"
  shows "\<exists>f' rest. rr_run (guarded ops) ms (read_response_fsm_init req (Inr s) ac) = Some (Fsm_done None, f', rest) \<and>
    rr_handler f' = Inr s' \<and> errored (get_result ops None s')"
proof -
  obtain ok where h: "response_handler ops ok" and s0: "ok s0" using assms(1) by (auto simp: lawful_def)
  note st = setup_requestE [OF assms(2)]
  have "ok s" using response_handler.setup_ok [OF h s0 st(2)] .
  then have "errored (ho_result ops s')"
    using response_handler.error_reported [OF h _ assms(6)] assms(4,5) by blast
  then show ?thesis
    using handler_run [OF st(1) assms(3), of ops s] assms(6) by (auto simp: get_result_def)
qed

theorem server_errors_reported_witness:
  "\<exists>f' rest. rr_run (guarded check) [Error_response no_error_fields, Ready_for_query status_idle]
      (read_response_fsm_init extended_query (Inr no_error) False) = Some (Fsm_done None, f', rest) \<and>
    rr_handler f' = Inr (store_error no_error_fields) \<and> errored (get_result check None (store_error no_error_fields))"
proof (rule server_errors_reported [OF handlers_lawful(1) _ failed_parse_replies])
  show "setup_request check extended_query no_error = Inr (None, no_error)"
    by (simp add: setup_request_def check_request_def extended_query_def check_def)
  show "errored (store_error no_error_fields)" by code_simp
  show "(Rm_error_response no_error_fields, 0) \<in> set [(Rm_error_response no_error_fields, 0), (Rm_message_skipped, 1),
      (Rm_message_skipped, 2), (Rm_message_skipped, 3)]" by simp
  have "errored (store_error no_error_fields)" by code_simp
  then show "run_calls check [(Rm_error_response no_error_fields, 0), (Rm_message_skipped, 1), (Rm_message_skipped, 2),
      (Rm_message_skipped, 3)] no_error = Inr (store_error no_error_fields)"
    by (simp add: check_def maybe_store_error_of_def maybe_store_error_def)
qed

end
